(* ===== verification/Prelude.thy ===== *)
theory Prelude
  imports Main "HOL-Library.Word" "HOL-Library.Monad_Syntax"
begin

text \<open>
  Vocabulary and lemmas shared by every component: the machine types of the Go code, decimal and
  hexadecimal text, ranges over Go maps (whose iteration order is chosen by the runtime and is an
  explicit list here) and the option monad, in which \<open>None\<close> is a Go panic.
\<close>

section \<open>Types of the Go program\<close>

type_synonym byte = "8 word"
type_synonym u32 = "32 word"

text \<open>Instants are nanoseconds since the Unix epoch, durations are nanoseconds.\<close>

type_synonym time = int
type_synonym duration = int
type_synonym path = string

definition second :: duration where "second = 1000000000"

text \<open>The zero \<open>time.Time\<close> is 1 January of year 1, which is before every instant the program reads.\<close>

definition zero_time :: time where "zero_time = - 62135596800 * second"

named_theorems go_net "facts about Go's net and netip values"
named_theorems table_facts "effect of one table operation on the maps of the DHCP server"

section \<open>Ranging over a map\<close>

text \<open>
  Go randomises the order of \<open>for k, v := range m\<close>. A range takes its order as an argument: a list
  of keys, of which those in the map are visited. An order is valid for \<open>m\<close> when it lists every key
  of \<open>m\<close>, and no key twice.
\<close>

definition iter_order :: "'k list \<Rightarrow> ('k \<rightharpoonup> 'v) \<Rightarrow> bool" where
  "iter_order ks m \<longleftrightarrow> distinct ks \<and> dom m \<subseteq> set ks"

fun range_map :: "'k list \<Rightarrow> ('k \<rightharpoonup> 'v) \<Rightarrow> ('k \<times> 'v) list" where
  "range_map [] m = []"
| "range_map (k # ks) m =
     (case m k of None \<Rightarrow> range_map ks m | Some v \<Rightarrow> (k, v) # range_map ks m)"

lemma set_range_map: "set (range_map ks m) = {(k, v). k \<in> set ks \<and> m k = Some v}"
  by (induction ks) (auto split: option.splits)

lemma range_map_all:
  "iter_order ks m \<Longrightarrow> set (range_map ks m) = {(k, v). m k = Some v}"
  by (auto simp: set_range_map iter_order_def dom_def)

lemma map_fst_range_map: "map fst (range_map ks m) = filter (\<lambda>k. k \<in> dom m) ks"
  by (induction ks) (auto split: option.splits)

lemma distinct_range_map: "distinct ks \<Longrightarrow> distinct (map fst (range_map ks m))"
  by (simp add: map_fst_range_map)

lemma length_range_map: "iter_order ks m \<Longrightarrow> length (range_map ks m) = card (dom m)"
proof -
  assume o: "iter_order ks m"
  have "length (range_map ks m) = length (filter (\<lambda>k. k \<in> dom m) ks)"
    using arg_cong [OF map_fst_range_map [of ks m], of length] by simp
  also have "\<dots> = card (set (filter (\<lambda>k. k \<in> dom m) ks))"
    using o by (intro distinct_card [symmetric]) (simp add: iter_order_def)
  also have "set (filter (\<lambda>k. k \<in> dom m) ks) = dom m"
    using o by (auto simp: iter_order_def)
  finally show ?thesis .
qed

lemma iter_order_empty [simp]: "iter_order [] Map.empty"
  by (simp add: iter_order_def)

lemma iter_order_finite: "iter_order ks m \<Longrightarrow> finite (dom m)"
  unfolding iter_order_def by (metis List.finite_set finite_subset)

lemma iter_orderD: "iter_order ks m \<Longrightarrow> m k = Some v \<Longrightarrow> k \<in> set ks"
  by (auto simp: iter_order_def)

lemma iter_order_exists: "finite (dom m) \<Longrightarrow> \<exists>ks. iter_order ks m"
  unfolding iter_order_def by (drule finite_distinct_list) (auto intro: exI)

text \<open>
  A range whose body deletes the current entry when a test holds and appends it to a result:
  the shape of the three sweeps of the DHCP tables.
\<close>

fun sweep_loop ::
    "('k \<Rightarrow> 'e \<Rightarrow> bool) \<Rightarrow> 'k list \<Rightarrow> ('k \<rightharpoonup> 'e) \<Rightarrow> ('k \<times> 'e) list \<Rightarrow> ('k \<times> 'e) list \<times> ('k \<rightharpoonup> 'e)"
  where
    "sweep_loop P [] m out = (out, m)"
  | "sweep_loop P (k # ks) m out =
       (case m k of
          None \<Rightarrow> sweep_loop P ks m out
        | Some e \<Rightarrow>
            if P k e then sweep_loop P ks (m(k := None)) (out @ [(k, e)])
            else sweep_loop P ks m out)"

lemma sweep_loop_map:
  "snd (sweep_loop P ks m out) =
     (\<lambda>k. case m k of Some e \<Rightarrow> if k \<in> set ks \<and> P k e then None else Some e | None \<Rightarrow> None)"
proof (induction ks arbitrary: m out)
  case (Cons k ks)
  show ?case by (rule ext) (auto simp: Cons.IH split: option.splits)
qed (auto split: option.splits)

lemma sweep_loop_set:
  "set (fst (sweep_loop P ks m out)) = set out \<union> {(k, e). k \<in> set ks \<and> m k = Some e \<and> P k e}"
proof (induction ks arbitrary: m out)
  case (Cons k ks)
  show ?case by (auto simp: Cons.IH split: option.splits if_splits)
qed simp

lemma range_map_upd: "k \<notin> set ks \<Longrightarrow> range_map ks (m(k := v)) = range_map ks m"
  by (induction ks) (auto split: option.splits)

lemma sweep_loop_out:
  "distinct ks \<Longrightarrow>
   fst (sweep_loop P ks m out) = out @ filter (\<lambda>(k, e). P k e) (range_map ks m)"
proof (induction ks arbitrary: m out)
  case (Cons k ks)
  then show ?case by (auto simp: range_map_upd split: option.splits)
qed simp

text \<open>A table in which \<open>f\<close> of the row determines its key.\<close>

definition inj_rows :: "('v \<Rightarrow> 'a) \<Rightarrow> ('k \<rightharpoonup> 'v) \<Rightarrow> bool" where
  "inj_rows f m \<longleftrightarrow>
     (\<forall>k k' v v'. m k = Some v \<longrightarrow> m k' = Some v' \<longrightarrow> f v = f v' \<longrightarrow> k = k')"

lemma inj_rowsD: "inj_rows f m \<Longrightarrow> m k = Some v \<Longrightarrow> m k' = Some v' \<Longrightarrow> f v = f v' \<Longrightarrow> k = k'"
  unfolding inj_rows_def by blast

lemma inj_rows_empty [simp]: "inj_rows f Map.empty"
  by (simp add: inj_rows_def)

lemma map_leD: "m \<subseteq>\<^sub>m m' \<Longrightarrow> m k = Some v \<Longrightarrow> m' k = Some v"
  by (metis domI map_le_def)

lemma map_le_del: "m(k := None) \<subseteq>\<^sub>m m"
  by (simp add: map_le_def)

lemma inj_rows_sub: "inj_rows f m' \<Longrightarrow> m \<subseteq>\<^sub>m m' \<Longrightarrow> inj_rows f m"
  unfolding inj_rows_def by (blast dest: map_leD)

lemma inj_rows_upd:
  "inj_rows f m \<Longrightarrow> \<forall>k' v'. m k' = Some v' \<longrightarrow> k' \<noteq> k \<longrightarrow> f v' \<noteq> f v \<Longrightarrow> inj_rows f (m(k \<mapsto> v))"
  unfolding inj_rows_def by (simp add: fun_upd_apply) metis

lemma distinct_rows: "distinct ks \<Longrightarrow> inj_rows f m \<Longrightarrow> distinct (map f (map snd (range_map ks m)))"
proof (induction ks)
  case (Cons k ks)
  show ?case
  proof (cases "m k")
    case (Some v)
    have "f v \<noteq> f v'" if "(k', v') \<in> set (range_map ks m)" for k' v'
      using that Cons.prems Some inj_rowsD [OF Cons.prems(2) Some, of k' v']
      by (auto simp: set_range_map)
    with Cons Some show ?thesis by fastforce
  qed (use Cons in simp)
qed simp

text \<open>The keys that \<open>f\<close> gives to the rows of a table.\<close>

definition row_keys :: "('v \<Rightarrow> 'a) \<Rightarrow> ('k \<rightharpoonup> 'v) \<Rightarrow> 'a set" where
  "row_keys f m = f ` ran m"

lemma row_keys_iff: "x \<in> row_keys f m \<longleftrightarrow> (\<exists>k v. m k = Some v \<and> x = f v)"
  by (auto simp: row_keys_def ran_def)

lemma row_keysI: "m k = Some v \<Longrightarrow> f v \<in> row_keys f m"
  by (auto simp: row_keys_iff)

lemma row_keys_empty [simp]: "row_keys f Map.empty = {}"
  by (simp add: row_keys_def)

lemma row_keys_put: "m k = None \<Longrightarrow> row_keys f (m(k \<mapsto> v)) = insert (f v) (row_keys f m)"
  by (simp add: row_keys_def)

lemma row_keys_del:
  "inj_rows f m \<Longrightarrow> m k = Some v \<Longrightarrow> row_keys f (m(k := None)) = row_keys f m - {f v}"
proof -
  assume a: "inj_rows f m" "m k = Some v"
  have "x \<in> row_keys f (m(k := None)) \<longleftrightarrow> x \<in> row_keys f m - {f v}" for x
    unfolding row_keys_iff Diff_iff fun_upd_apply using a(2) inj_rowsD [OF a]
    by (metis option.distinct(1) option.inject singletonD singletonI)
  then show ?thesis by blast
qed

lemma row_keys_same:
  assumes "m k = Some v" and "f v' = f v"
  shows "row_keys f (m(k \<mapsto> v')) = row_keys f m"
proof -
  have "x \<in> row_keys f (m(k \<mapsto> v')) \<longleftrightarrow> x \<in> row_keys f m" for x
    unfolding row_keys_iff using assms by (metis fun_upd_apply option.inject)
  then show ?thesis by blast
qed

lemma row_keys_sub: "m' \<subseteq>\<^sub>m m \<Longrightarrow> row_keys f m' \<subseteq> row_keys f m"
  unfolding row_keys_iff subset_iff by (metis map_leD)

lemma card_row_keys:
  assumes "finite (dom m)" and "inj_rows f m"
  shows "card (row_keys f m) = card (dom m)"
proof -
  have "inj_on (\<lambda>k. f (the (m k))) (dom m)"
    using assms(2) by (auto simp: inj_on_def dest: inj_rowsD)
  moreover have "row_keys f m = (\<lambda>k. f (the (m k))) ` dom m"
    by (force simp: row_keys_iff)
  ultimately show ?thesis by (simp add: card_image)
qed

lemma finite_row_keys: "finite (dom m) \<Longrightarrow> finite (row_keys f m)"
  by (simp add: row_keys_def finite_ran)

lemma finite_dom_sub: "finite (dom m') \<Longrightarrow> m \<subseteq>\<^sub>m m' \<Longrightarrow> finite (dom m)"
  by (metis finite_subset map_le_implies_dom_le)

section \<open>Decimal and hexadecimal text\<close>

definition digit_char :: "nat \<Rightarrow> char" where
  "digit_char d = ''0123456789abcdef'' ! d"

definition is_digit :: "char \<Rightarrow> bool" where
  "is_digit c \<longleftrightarrow> 48 \<le> (of_char c :: nat) \<and> (of_char c :: nat) \<le> 57"

definition digit_val :: "char \<Rightarrow> nat" where
  "digit_val c = of_char c - 48"

definition hex_val :: "char \<Rightarrow> nat option" where
  "hex_val c = (let n = (of_char c :: nat) in
     if 48 \<le> n \<and> n \<le> 57 then Some (n - 48)
     else if 97 \<le> n \<and> n \<le> 102 then Some (n - 87)
     else if 65 \<le> n \<and> n \<le> 70 then Some (n - 55)
     else None)"

function dec :: "nat \<Rightarrow> string" where
  "dec n = (if n < 10 then [digit_char n] else dec (n div 10) @ [digit_char (n mod 10)])"
  by pat_completeness auto
termination by (relation "measure id") auto

declare dec.simps [simp del]

fun undec :: "nat \<Rightarrow> string \<Rightarrow> nat option" where
  "undec acc [] = Some acc"
| "undec acc (c # cs) = (if is_digit c then undec (acc * 10 + digit_val c) cs else None)"

lemma less_10_cases: "d < (10::nat) \<Longrightarrow> d \<in> {0, 1, 2, 3, 4, 5, 6, 7, 8, 9}"
  by auto

lemma less_16_cases:
  "d < (16::nat) \<Longrightarrow> d \<in> {0, 1, 2, 3, 4, 5, 6, 7, 8, 9, 10, 11, 12, 13, 14, 15}"
  by (simp only: insert_iff empty_iff) arith

lemma is_digit_char [simp]: "d < 10 \<Longrightarrow> is_digit (digit_char d)"
  by (drule less_10_cases) (auto simp: is_digit_def digit_char_def)

lemma digit_val_char [simp]: "d < 10 \<Longrightarrow> digit_val (digit_char d) = d"
  by (drule less_10_cases) (auto simp: digit_val_def digit_char_def)

lemma hex_val_char [simp]: "d < 16 \<Longrightarrow> hex_val (digit_char d) = Some d"
  by (drule less_16_cases) (auto simp: hex_val_def digit_char_def)

lemma digit_char_punct [simp]:
  "d < 16 \<Longrightarrow> digit_char d \<noteq> CHR ''.''"
  "d < 16 \<Longrightarrow> digit_char d \<noteq> CHR '':''"
  "d < 16 \<Longrightarrow> digit_char d \<noteq> CHR ''-''"
  "d < 16 \<Longrightarrow> digit_char d \<noteq> CHR ''/''"
  "d < 16 \<Longrightarrow> digit_char d \<noteq> CHR ''%''"
  by (drule less_16_cases; auto simp: digit_char_def)+

lemma dec_1: "n < 10 \<Longrightarrow> dec n = [digit_char n]"
  by (simp add: dec.simps)

lemma dec_2: "10 \<le> n \<Longrightarrow> n < 100 \<Longrightarrow> dec n = [digit_char (n div 10), digit_char (n mod 10)]"
  by (subst dec.simps) (simp add: dec_1)

lemma dec_3:
  "100 \<le> n \<Longrightarrow> n < 1000 \<Longrightarrow>
   dec n = [digit_char (n div 100), digit_char (n div 10 mod 10), digit_char (n mod 10)]"
  by (subst dec.simps) (simp add: dec_2 div_mult2_eq [symmetric])

lemma dec_nonempty [simp]: "dec n \<noteq> []"
  by (subst dec.simps) simp

lemma set_dec: "set (dec n) \<subseteq> digit_char ` {..<10}"
proof (induction n rule: dec.induct)
  case (1 n)
  then show ?case by (subst dec.simps) (auto simp: image_iff)
qed

lemma dec_digits: "c \<in> set (dec n) \<Longrightarrow> is_digit c"
  using set_dec [of n] by auto

lemma dec_no_punct:
  "CHR ''.'' \<notin> set (dec n)" "CHR '':'' \<notin> set (dec n)"
  "CHR ''/'' \<notin> set (dec n)" "CHR ''%'' \<notin> set (dec n)"
  by (auto dest!: dec_digits simp: is_digit_def)

lemma undec_append:
  "undec acc (xs @ ys) = (case undec acc xs of None \<Rightarrow> None | Some n \<Rightarrow> undec n ys)"
  by (induction xs arbitrary: acc) auto

lemma undec_dec [simp]: "undec 0 (dec n) = Some n"
proof (induction n rule: dec.induct)
  case (1 n)
  then show ?case by (subst dec.simps) (simp add: undec_append)
qed

section \<open>Joining and splitting text\<close>

fun join :: "string \<Rightarrow> string list \<Rightarrow> string" where
  "join sep [] = []"
| "join sep [s] = s"
| "join sep (s # ss) = s @ sep @ join sep ss"

text \<open>\<open>cut_at c s\<close> splits at the first \<open>c\<close> (\<open>strings.Cut\<close>), \<open>cut_last c s\<close> at the last one.\<close>

fun cut_at :: "char \<Rightarrow> string \<Rightarrow> (string \<times> string) option" where
  "cut_at c [] = None"
| "cut_at c (x # xs) =
     (if x = c then Some ([], xs)
      else (case cut_at c xs of None \<Rightarrow> None | Some (a, b) \<Rightarrow> Some (x # a, b)))"

fun cut_last :: "char \<Rightarrow> string \<Rightarrow> (string \<times> string) option" where
  "cut_last c [] = None"
| "cut_last c (x # xs) =
     (case cut_last c xs of
        Some (a, b) \<Rightarrow> Some (x # a, b)
      | None \<Rightarrow> if x = c then Some ([], xs) else None)"

lemma cut_at_none: "c \<notin> set s \<Longrightarrow> cut_at c s = None"
  by (induction s) auto

lemma cut_at_append: "c \<notin> set a \<Longrightarrow> cut_at c (a @ c # b) = Some (a, b)"
  by (induction a) auto

lemma cut_last_none: "c \<notin> set s \<Longrightarrow> cut_last c s = None"
  by (induction s) auto

lemma cut_last_append: "c \<notin> set b \<Longrightarrow> cut_last c (a @ c # b) = Some (a, b)"
  by (induction a) (auto simp: cut_last_none)

section \<open>Panics\<close>

text \<open>A computation that may panic is an option; these rules run and invert one step of it.\<close>

lemma bind_SomeE:
  assumes "Option.bind m f = Some y"
  obtains x where "m = Some x" and "f x = Some y"
  using assms by (cases m) auto

end
