(* ===== verification/Go_Net.thy ===== *)
theory Go_Net
  imports Prelude
begin

unbundle bit_operations_syntax

text \<open>
  The part of Go's standard library the program computes with: \<open>encoding/binary\<close> big-endian
  numbers, \<open>net.IP\<close> byte slices (4-byte, 16-byte, or any other length; the nil slice is the empty
  list), \<open>net.HardwareAddr\<close> with its text form, and \<open>netip.Addr\<close> / \<open>netip.Prefix\<close> with
  the parsers of both packages. Errors of the parsers are \<open>None\<close>: the program only tests them.
\<close>

section \<open>Big-endian numbers\<close>

definition be32 :: "byte \<Rightarrow> byte \<Rightarrow> byte \<Rightarrow> byte \<Rightarrow> u32" where
  "be32 a b c d = (ucast d OR push_bit 8 (ucast c)) OR
     (push_bit 16 (ucast b) OR push_bit 24 (ucast a))"

definition be32_bytes :: "u32 \<Rightarrow> byte list" where
  "be32_bytes w = [ucast (drop_bit 24 w), ucast (drop_bit 16 w), ucast (drop_bit 8 w), ucast w]"

lemma unat_byte_less [simp]: "unat (b :: byte) < 256"
  using unsigned_less [of b, where ?'a = nat] by simp

lemma byte_bit_high: "8 \<le> n \<Longrightarrow> \<not> bit (b :: byte) n"
  by (auto dest: bit_imp_le_length)

lemma length_be32_bytes [simp]: "length (be32_bytes w) = 4"
  by (simp add: be32_bytes_def)

lemma be32_bytes_be32 [simp]: "be32_bytes (be32 a b c d) = [a, b, c, d]"
proof -
  have "ucast (drop_bit 24 (be32 a b c d)) = a"
    by (rule bit_word_eqI) (auto simp: be32_def bit_simps byte_bit_high)
  moreover have "ucast (drop_bit 16 (be32 a b c d)) = b"
    by (rule bit_word_eqI) (auto simp: be32_def bit_simps byte_bit_high)
  moreover have "ucast (drop_bit 8 (be32 a b c d)) = c"
    by (rule bit_word_eqI) (auto simp: be32_def bit_simps byte_bit_high)
  moreover have "ucast (be32 a b c d) = d"
    by (rule bit_word_eqI) (auto simp: be32_def bit_simps byte_bit_high)
  ultimately show ?thesis by (simp add: be32_bytes_def)
qed

lemma be32_eq_iff [simp]:
  "be32 a b c d = be32 a' b' c' d' \<longleftrightarrow> a = a' \<and> b = b' \<and> c = c' \<and> d = d'"
  by (auto dest: arg_cong [where f = be32_bytes])

lemma be32_of_bytes:
  "be32 (ucast (drop_bit 24 w)) (ucast (drop_bit 16 w)) (ucast (drop_bit 8 w)) (ucast w) = w"
proof (rule bit_word_eqI)
  fix n assume n: "n < LENGTH(32)"
  then consider "n < 8" | m where "n = m + 8" "m < 8" | m where "n = m + 16" "m < 8"
    | m where "n = m + 24" "m < 8"
    by (cases "n < 8"; cases "n < 16"; cases "n < 24")
      (auto dest: le_Suc_ex simp: not_less add.commute)
  then show "bit (be32 (ucast (drop_bit 24 w)) (ucast (drop_bit 16 w))
      (ucast (drop_bit 8 w)) (ucast w)) n = bit w n"
    by cases (simp_all add: be32_def bit_simps add.commute)
qed

section \<open>Byte-slice addresses: \<open>net.IP\<close>\<close>

type_synonym ip = "byte list"

definition v4_in_v6_prefix :: "byte list" where
  "v4_in_v6_prefix = replicate 10 0 @ [255, 255]"

definition to4 :: "ip \<Rightarrow> ip" where
  "to4 ip = (if length ip = 4 then ip
     else if length ip = 16 \<and> take 12 ip = v4_in_v6_prefix then drop 12 ip
     else [])"

definition ip_equal :: "ip \<Rightarrow> ip \<Rightarrow> bool" where
  "ip_equal x y =
     (if length x = length y then x = y
      else if length x = 4 \<and> length y = 16 then take 12 y = v4_in_v6_prefix \<and> x = drop 12 y
      else if length x = 16 \<and> length y = 4 then take 12 x = v4_in_v6_prefix \<and> drop 12 x = y
      else False)"

definition is_unspecified :: "ip \<Rightarrow> bool" where
  "is_unspecified ip \<longleftrightarrow>
     ip_equal ip (v4_in_v6_prefix @ [0, 0, 0, 0]) \<or> ip_equal ip (replicate 16 0)"

text \<open>\<open>IPv4bcast\<close>, the 16-byte form of 255.255.255.255, and \<open>IPv4zero\<close>.\<close>

definition ipv4_bcast :: ip where "ipv4_bcast = v4_in_v6_prefix @ [255, 255, 255, 255]"

lemma to4_4 [simp]: "length ip = 4 \<Longrightarrow> to4 ip = ip"
  by (simp add: to4_def)

lemma to4_Nil [simp]: "to4 [] = []"
  by (simp add: to4_def)

lemma length_to4: "length (to4 ip) = (if to4 ip = [] then 0 else 4)"
  by (auto simp: to4_def)

lemma to4_to4 [simp]: "to4 (to4 ip) = to4 ip"
  by (auto simp: to4_def)

lemma ip_equal_4 [simp]: "length x = 4 \<Longrightarrow> length y = 4 \<Longrightarrow> ip_equal x y \<longleftrightarrow> x = y"
  by (simp add: ip_equal_def)

lemma ip_equal_to4: "length x = 4 \<Longrightarrow> ip_equal x y \<longleftrightarrow> to4 y = x"
  by (auto simp: ip_equal_def to4_def)

lemma ip_equal_refl [simp]: "ip_equal x x"
  by (simp add: ip_equal_def)

section \<open>Hardware addresses\<close>

type_synonym mac = "byte list"

definition hex2 :: "byte \<Rightarrow> string" where
  "hex2 b = [digit_char (unat b div 16), digit_char (unat b mod 16)]"

fun mac_string :: "mac \<Rightarrow> string" where
  "mac_string [] = []"
| "mac_string [b] = hex2 b"
| "mac_string (b # bs) = hex2 b @ CHR '':'' # mac_string bs"

definition xtoi2 :: "string \<Rightarrow> char \<Rightarrow> byte option" where
  "xtoi2 s e =
     (if length s > 2 \<and> s ! 2 \<noteq> e then None
      else (case s of
              c1 # c2 # _ \<Rightarrow>
                (case (hex_val c1, hex_val c2) of
                   (Some a, Some b) \<Rightarrow> Some (of_nat (16 * a + b))
                 | _ \<Rightarrow> None)
            | _ \<Rightarrow> None))"

fun mac_groups :: "nat \<Rightarrow> char \<Rightarrow> string \<Rightarrow> mac option" where
  "mac_groups 0 e s = Some []"
| "mac_groups (Suc n) e s =
     do { b \<leftarrow> xtoi2 s e; bs \<leftarrow> mac_groups n e (drop 3 s); Some (b # bs) }"

fun mac_dotted :: "nat \<Rightarrow> char \<Rightarrow> string \<Rightarrow> mac option" where
  "mac_dotted 0 e s = Some []"
| "mac_dotted (Suc n) e s =
     do { b1 \<leftarrow> xtoi2 (take 2 s) (CHR 0x00);
          b2 \<leftarrow> xtoi2 (drop 2 s) e;
          bs \<leftarrow> mac_dotted n e (drop 5 s);
          Some (b1 # b2 # bs) }"

definition parse_mac :: "string \<Rightarrow> mac option" where
  "parse_mac s =
     (if length s < 14 then None
      else if s ! 2 = CHR '':'' \<or> s ! 2 = CHR ''-'' then
        (if (length s + 1) mod 3 \<noteq> 0 then None
         else let n = (length s + 1) div 3 in
           if n \<noteq> 6 \<and> n \<noteq> 8 \<and> n \<noteq> 20 then None else mac_groups n (s ! 2) s)
      else if s ! 4 = CHR ''.'' then
        (if (length s + 1) mod 5 \<noteq> 0 then None
         else let n = 2 * (length s + 1) div 5 in
           if n \<noteq> 6 \<and> n \<noteq> 8 \<and> n \<noteq> 20 then None else mac_dotted (n div 2) (s ! 4) s)
      else None)"

lemma hex2_inj [simp]: "hex2 a = hex2 b \<longleftrightarrow> a = b"
proof
  assume h: "hex2 a = hex2 b"
  have lt: "unat c div 16 < 16" "unat c mod 16 < 16" for c :: byte
    by (auto simp: less_mult_imp_div_less)
  have "hex_val (digit_char (unat a div 16)) = hex_val (digit_char (unat b div 16))"
    and "hex_val (digit_char (unat a mod 16)) = hex_val (digit_char (unat b mod 16))"
    using h by (auto simp: hex2_def)
  then have "unat a div 16 = unat b div 16" "unat a mod 16 = unat b mod 16"
    using lt by simp_all
  then have "unat a = unat b" by (metis div_mod_decomp)
  then show "a = b" by (simp add: word_unat_eq_iff)
qed simp

lemma xtoi2_hex2 [simp]:
  "xtoi2 (hex2 b) e = Some b"
  "xtoi2 (hex2 b @ e # s) e = Some b"
proof -
  have lt: "unat b div 16 < 16" "unat b mod 16 < 16"
    by (auto simp: less_mult_imp_div_less)
  have eq: "of_nat (16 * (unat b div 16) + unat b mod 16) = b"
    by (simp only: mult_div_mod_eq) simp
  from lt eq show "xtoi2 (hex2 b) e = Some b" "xtoi2 (hex2 b @ e # s) e = Some b"
    by (simp_all add: xtoi2_def hex2_def)
qed

lemma length_mac_string: "m \<noteq> [] \<Longrightarrow> length (mac_string m) + 1 = 3 * length m"
  by (induction m rule: mac_string.induct) (auto simp: hex2_def)

lemma mac_groups_string: "mac_groups (length m) (CHR '':'') (mac_string m) = Some m"
proof (induction m rule: mac_string.induct)
  case (3 b b' bs)
  have "drop 3 (hex2 b @ CHR '':'' # s) = s" for s by (simp add: hex2_def)
  with 3 show ?case by simp
qed simp_all

lemma mac_string_nth2: "2 \<le> length m \<Longrightarrow> mac_string m ! 2 = CHR '':''"
  by (cases m rule: mac_string.cases) (auto simp: hex2_def)

theorem parse_mac_string:
  assumes "length m \<in> {6, 8, 20}"
  shows "parse_mac (mac_string m) = Some m"
proof -
  from assms have len: "length (mac_string m) + 1 = 3 * length m"
    by (intro length_mac_string) auto
  with assms have "14 \<le> length (mac_string m)" by auto
  moreover have "(length (mac_string m) + 1) mod 3 = 0" "(length (mac_string m) + 1) div 3 = length m"
    using len by simp_all
  moreover have "mac_string m ! 2 = CHR '':''"
    using assms by (intro mac_string_nth2) auto
  ultimately show ?thesis
    using assms mac_groups_string [of m] by (auto simp: parse_mac_def Let_def)
qed

lemma mac_string_inj [simp]: "mac_string a = mac_string b \<longleftrightarrow> a = b"
proof
  assume h: "mac_string a = mac_string b"
  have "length a = length b"
    using h length_mac_string [of a] length_mac_string [of b]
    by (cases "a = []"; cases "b = []") auto
  with h show "a = b" by (metis mac_groups_string option.inject)
qed simp

lemma length_mac_groups: "mac_groups n e s = Some m \<Longrightarrow> length m = n"
  by (induction n e s arbitrary: m rule: mac_groups.induct) (auto elim!: bind_SomeE)

lemma length_mac_dotted: "mac_dotted n e s = Some m \<Longrightarrow> length m = 2 * n"
  by (induction n e s arbitrary: m rule: mac_dotted.induct) (auto elim!: bind_SomeE)

lemma parse_mac_length: "parse_mac s = Some m \<Longrightarrow> length m \<in> {6, 8, 20}"
  by (auto simp: parse_mac_def Let_def dest!: length_mac_groups length_mac_dotted
      split: if_splits)

end
