(* ===== verification/Ip_Pool.thy ===== *)
theory Ip_Pool
  imports Go_Net
begin

text \<open>
  \<open>dhcp/pool.go\<close>: the table of free and used addresses, keyed by the big-endian number of the
  4-byte form. An operation that indexes the bytes of an address with no IPv4 form panics, so it
  returns an option. The lemmas state the pool's invariant, that every operation keeps it, and which
  key moves between the two maps; the interface the server relies on is the locale \<open>address_pool\<close>.
\<close>

section \<open>The pool\<close>

record ip_pool =
  pool_free :: "u32 \<rightharpoonup> ip"
  pool_used :: "u32 set"

text \<open>\<open>binary.BigEndian.Uint32\<close> reads bytes 0 to 3 and panics on a shorter slice.\<close>

definition ip_key :: "ip \<Rightarrow> u32 option" where
  "ip_key v4 = (case v4 of b0 # b1 # b2 # b3 # _ \<Rightarrow> Some (be32 b0 b1 b2 b3) | _ \<Rightarrow> None)"

fun pool_fill :: "(u32 \<rightharpoonup> ip) \<Rightarrow> ip list \<Rightarrow> (u32 \<rightharpoonup> ip) option" where
  "pool_fill m [] = Some m"
| "pool_fill m (ip # ips) =
     (let v4 = to4 ip in
      if v4 \<noteq> [] then do { k \<leftarrow> ip_key v4; pool_fill (m(k \<mapsto> v4)) ips }
      else pool_fill m ips)"

definition new_ip_pool :: "ip list \<Rightarrow> ip_pool option" where
  "new_ip_pool ips = do { m \<leftarrow> pool_fill Map.empty ips; Some \<lparr>pool_free = m, pool_used = {}\<rparr> }"

definition pool_allocate :: "u32 list \<Rightarrow> ip_pool \<Rightarrow> ip \<times> ip_pool" where
  "pool_allocate ks p =
     (case range_map ks (pool_free p) of
        [] \<Rightarrow> ([], p)
      | (k, ip) # _ \<Rightarrow>
          (ip, p\<lparr>pool_free := (pool_free p)(k := None), pool_used := insert k (pool_used p)\<rparr>))"

definition pool_release :: "ip \<Rightarrow> ip_pool \<Rightarrow> ip_pool option" where
  "pool_release ip p =
     (let v4 = to4 ip in
      do { k \<leftarrow> ip_key v4;
           Some (p\<lparr>pool_used := pool_used p - {k}, pool_free := (pool_free p)(k \<mapsto> v4)\<rparr>) })"

definition pool_mark_used :: "ip \<Rightarrow> ip_pool \<Rightarrow> (bool \<times> ip_pool) option" where
  "pool_mark_used ip p =
     (let v4 = to4 ip in
      do { k \<leftarrow> ip_key v4;
           if pool_free p k = None then Some (k \<in> pool_used p, p)
           else Some (True, p\<lparr>pool_free := (pool_free p)(k := None),
                              pool_used := insert k (pool_used p)\<rparr>) })"

definition pool_try_claim :: "ip \<Rightarrow> ip_pool \<Rightarrow> (bool \<times> ip_pool) option" where
  "pool_try_claim ip p =
     (let v4 = to4 ip in
      do { k \<leftarrow> ip_key v4;
           if pool_free p k = None then Some (False, p)
           else Some (True, p\<lparr>pool_free := (pool_free p)(k := None),
                              pool_used := insert k (pool_used p)\<rparr>) })"

definition pool_free_count :: "ip_pool \<Rightarrow> nat" where
  "pool_free_count p = card (dom (pool_free p))"

section \<open>Keys\<close>

text \<open>The key of an address that has an IPv4 form.\<close>

definition key4 :: "ip \<Rightarrow> u32" where
  "key4 ip = the (ip_key (to4 ip))"

lemma ip_key_4: "length v4 = 4 \<Longrightarrow> \<exists>k. ip_key v4 = Some k"
  by (auto simp: ip_key_def length_Suc_conv numeral_eq_Suc)

lemma ip_key_None_iff: "ip_key (to4 ip) = None \<longleftrightarrow> to4 ip = []"
proof (cases "to4 ip = []")
  case False
  then have "length (to4 ip) = 4" by (simp add: length_to4)
  from ip_key_4 [OF this] False show ?thesis by auto
qed (simp add: ip_key_def)

lemma ip_key_to4: "to4 ip \<noteq> [] \<Longrightarrow> ip_key (to4 ip) = Some (key4 ip)"
  using ip_key_None_iff [of ip] by (auto simp: key4_def)

lemma ip_key_SomeD: "ip_key (to4 ip) = Some k \<Longrightarrow> to4 ip \<noteq> [] \<and> k = key4 ip"
  using ip_key_None_iff [of ip] by (auto simp: key4_def)

lemma ip_key_inj: "length a = 4 \<Longrightarrow> length b = 4 \<Longrightarrow> ip_key a = ip_key b \<longleftrightarrow> a = b"
  by (auto simp: ip_key_def length_Suc_conv numeral_eq_Suc)

lemma key4_eq_iff: "length a = 4 \<Longrightarrow> length b = 4 \<Longrightarrow> key4 a = key4 b \<longleftrightarrow> a = b"
  using ip_key_inj [of a b] ip_key_4 [of a] ip_key_4 [of b] by (auto simp: key4_def)

lemma key4_to4 [simp]: "key4 (to4 ip) = key4 ip"
  by (simp add: key4_def)

lemma key4_Some: "length ip = 4 \<Longrightarrow> ip_key ip = Some (key4 ip)"
  using ip_key_to4 [of ip] by (cases ip) auto

section \<open>Invariant\<close>

definition free_wf :: "(u32 \<rightharpoonup> ip) \<Rightarrow> bool" where
  "free_wf m \<longleftrightarrow> finite (dom m) \<and> (\<forall>k ip. m k = Some ip \<longrightarrow> length ip = 4 \<and> key4 ip = k)"

definition pool_wf :: "ip_pool \<Rightarrow> bool" where
  "pool_wf p \<longleftrightarrow> free_wf (pool_free p) \<and> finite (pool_used p) \<and>
     dom (pool_free p) \<inter> pool_used p = {}"

definition pool_keys :: "ip_pool \<Rightarrow> u32 set" where
  "pool_keys p = dom (pool_free p) \<union> pool_used p"

lemma free_wf_entry: "free_wf m \<Longrightarrow> m k = Some ip \<Longrightarrow> length ip = 4 \<and> key4 ip = k"
  by (simp add: free_wf_def)

lemma free_wf_put: "free_wf m \<Longrightarrow> to4 ip \<noteq> [] \<Longrightarrow> free_wf (m(key4 ip \<mapsto> to4 ip))"
  by (simp add: free_wf_def length_to4)

lemma free_wf_drop: "free_wf m \<Longrightarrow> free_wf (m(k := None))"
  by (simp add: free_wf_def)

lemma pool_wf_entry:
  "pool_wf p \<Longrightarrow> pool_free p k = Some ip \<Longrightarrow> length ip = 4 \<and> key4 ip = k"
  by (auto simp: pool_wf_def dest: free_wf_entry)

lemma pool_fill_ok:
  "free_wf m \<Longrightarrow> \<exists>m'. pool_fill m ips = Some m' \<and> free_wf m' \<and>
     dom m' = dom m \<union> key4 ` {ip \<in> set ips. to4 ip \<noteq> []}"
proof (induction ips arbitrary: m)
  case Nil
  then show ?case by simp
next
  case (Cons ip ips)
  show ?case
  proof (cases "to4 ip = []")
    case True
    then have "pool_fill m (ip # ips) = pool_fill m ips"
      and "{i \<in> set (ip # ips). to4 i \<noteq> []} = {i \<in> set ips. to4 i \<noteq> []}" by auto
    with Cons.IH [OF Cons.prems] show ?thesis by simp
  next
    case False
    then have "pool_fill m (ip # ips) = pool_fill (m(key4 ip \<mapsto> to4 ip)) ips"
      and "{i \<in> set (ip # ips). to4 i \<noteq> []} = insert ip {i \<in> set ips. to4 i \<noteq> []}"
      by (auto simp: ip_key_to4)
    moreover obtain m' where "pool_fill (m(key4 ip \<mapsto> to4 ip)) ips = Some m'" "free_wf m'"
      "dom m' = dom (m(key4 ip \<mapsto> to4 ip)) \<union> key4 ` {ip \<in> set ips. to4 ip \<noteq> []}"
      using Cons.IH [OF free_wf_put [OF Cons.prems False]] by blast
    ultimately show ?thesis by (intro exI [of _ m']) (simp del: pool_fill.simps)
  qed
qed

lemma new_ip_pool_ok:
  obtains p where "new_ip_pool ips = Some p" and "pool_wf p" and "pool_used p = {}"
    and "dom (pool_free p) = key4 ` {ip \<in> set ips. to4 ip \<noteq> []}"
proof -
  have "free_wf Map.empty" by (simp add: free_wf_def)
  from pool_fill_ok [OF this, of ips] that show thesis
    by (auto simp: new_ip_pool_def pool_wf_def)
qed

section \<open>What each operation moves\<close>

lemma pool_allocate_cases:
  assumes "pool_allocate ks p = (ip, p')" and "pool_wf p"
  obtains (exhausted) "ip = []" "p' = p"
  | (taken) k where "pool_free p k = Some ip" "length ip = 4" "key4 ip = k"
      "p' = p\<lparr>pool_free := (pool_free p)(k := None), pool_used := insert k (pool_used p)\<rparr>"
proof (cases "range_map ks (pool_free p)")
  case Nil
  with assms(1) exhausted show thesis by (simp add: pool_allocate_def)
next
  case (Cons e es)
  obtain k i where e: "e = (k, i)" by (cases e)
  have "(k, i) \<in> set (range_map ks (pool_free p))" by (simp add: Cons e)
  then have "pool_free p k = Some i" by (simp add: set_range_map)
  with assms Cons e taken pool_wf_entry [OF assms(2) this] show thesis
    by (auto simp: pool_allocate_def)
qed

lemma pool_allocate_nil:
  assumes "iter_order ks (pool_free p)" and "pool_wf p"
  shows "fst (pool_allocate ks p) = [] \<longleftrightarrow> dom (pool_free p) = {}"
proof (cases "range_map ks (pool_free p)")
  case Nil
  with range_map_all [OF assms(1)] have "dom (pool_free p) = {}" by (auto simp: dom_def)
  with Nil show ?thesis by (simp add: pool_allocate_def)
next
  case (Cons e es)
  obtain k i where e: "e = (k, i)" by (cases e)
  have "(k, i) \<in> set (range_map ks (pool_free p))" by (simp add: Cons e)
  then have "pool_free p k = Some i" by (simp add: set_range_map)
  with pool_wf_entry [OF assms(2) this] show ?thesis
    by (auto simp: pool_allocate_def Cons e)
qed

lemma pool_release_None: "pool_release ip p = None \<longleftrightarrow> to4 ip = []"
  using ip_key_None_iff [of ip] by (auto simp: pool_release_def Let_def split: bind_splits)

lemma pool_release_eq:
  "to4 ip \<noteq> [] \<Longrightarrow> pool_release ip p =
     Some (p\<lparr>pool_used := pool_used p - {key4 ip}, pool_free := (pool_free p)(key4 ip \<mapsto> to4 ip)\<rparr>)"
  by (simp add: pool_release_def ip_key_to4)

lemma pool_try_claim_None: "pool_try_claim ip p = None \<longleftrightarrow> to4 ip = []"
  using ip_key_None_iff [of ip] by (auto simp: pool_try_claim_def Let_def split: bind_splits)

lemma pool_try_claim_eq:
  "to4 ip \<noteq> [] \<Longrightarrow> pool_try_claim ip p =
     (if key4 ip \<in> dom (pool_free p)
      then Some (True, p\<lparr>pool_free := (pool_free p)(key4 ip := None),
                         pool_used := insert (key4 ip) (pool_used p)\<rparr>)
      else Some (False, p))"
  by (auto simp: pool_try_claim_def ip_key_to4)

lemma pool_mark_used_None: "pool_mark_used ip p = None \<longleftrightarrow> to4 ip = []"
  using ip_key_None_iff [of ip] by (auto simp: pool_mark_used_def Let_def split: bind_splits)

lemma pool_mark_used_eq:
  "to4 ip \<noteq> [] \<Longrightarrow> pool_mark_used ip p =
     (if key4 ip \<in> dom (pool_free p)
      then Some (True, p\<lparr>pool_free := (pool_free p)(key4 ip := None),
                         pool_used := insert (key4 ip) (pool_used p)\<rparr>)
      else Some (key4 ip \<in> pool_used p, p))"
  by (auto simp: pool_mark_used_def ip_key_to4)

lemma pool_release_wf: "pool_release ip p = Some p' \<Longrightarrow> pool_wf p \<Longrightarrow> pool_wf p'"
  using pool_release_None [of ip p]
  by (auto simp: pool_release_eq pool_wf_def disjoint_iff domIff intro: free_wf_put)

lemma pool_take_wf:
  "pool_wf p \<Longrightarrow> k \<in> dom (pool_free p) \<Longrightarrow>
   pool_wf (p\<lparr>pool_free := (pool_free p)(k := None), pool_used := insert k (pool_used p)\<rparr>)"
  by (auto simp: pool_wf_def intro: free_wf_drop)

lemma pool_try_claim_wf: "pool_try_claim ip p = Some (b, p') \<Longrightarrow> pool_wf p \<Longrightarrow> pool_wf p'"
  using pool_try_claim_None [of ip p]
  by (auto simp: pool_try_claim_eq intro: pool_take_wf split: if_splits)

lemma pool_mark_used_wf: "pool_mark_used ip p = Some (b, p') \<Longrightarrow> pool_wf p \<Longrightarrow> pool_wf p'"
  using pool_mark_used_None [of ip p]
  by (auto simp: pool_mark_used_eq intro: pool_take_wf split: if_splits)

lemma pool_allocate_wf: "pool_allocate ks p = (ip, p') \<Longrightarrow> pool_wf p \<Longrightarrow> pool_wf p'"
  by (erule pool_allocate_cases) (auto intro: pool_take_wf)

text \<open>Giving back what was just claimed restores the pool exactly.\<close>

lemma pool_claim_release:
  assumes "pool_wf p" and "pool_try_claim ip p = Some (True, p')"
  shows "pool_release ip p' = Some p"
proof -
  have v4: "to4 ip \<noteq> []" using assms(2) pool_try_claim_None [of ip p] by auto
  then obtain i where i: "pool_free p (key4 ip) = Some i"
    and p': "p' = p\<lparr>pool_free := (pool_free p)(key4 ip := None), pool_used := insert (key4 ip) (pool_used p)\<rparr>"
    using assms(2) by (auto simp: pool_try_claim_eq split: if_splits)
  have "i = to4 ip"
    using pool_wf_entry [OF assms(1) i] v4 key4_eq_iff [of i "to4 ip"] by (simp add: length_to4)
  moreover have "key4 ip \<notin> pool_used p" using assms(1) i by (auto simp: pool_wf_def)
  ultimately show ?thesis using i v4 by (simp add: pool_release_eq p' fun_upd_idem)
qed

section \<open>The interface of the server\<close>

text \<open>
  What the request handlers may assume of a pool: \<open>take\<close> hands out some free address, \<open>claim\<close>
  a given free one and \<open>give_back\<close> returns one; each moves exactly the key of that address.
\<close>

locale address_pool =
  fixes wf :: "'p \<Rightarrow> bool"
    and free_of :: "'p \<Rightarrow> u32 set"
    and used_of :: "'p \<Rightarrow> u32 set"
    and take :: "u32 list \<Rightarrow> 'p \<Rightarrow> ip \<times> 'p"
    and claim :: "ip \<Rightarrow> 'p \<Rightarrow> (bool \<times> 'p) option"
    and give_back :: "ip \<Rightarrow> 'p \<Rightarrow> 'p option"
  assumes wf_disjoint: "wf p \<Longrightarrow> free_of p \<inter> used_of p = {}"
    and wf_finite: "wf p \<Longrightarrow> finite (free_of p) \<and> finite (used_of p)"
    and take_nil: "take ks p = ([], p') \<Longrightarrow> wf p \<Longrightarrow> p' = p"
    and take_some: "take ks p = (ip, p') \<Longrightarrow> wf p \<Longrightarrow> ip \<noteq> [] \<Longrightarrow>
          wf p' \<and> length ip = 4 \<and> key4 ip \<in> free_of p \<and>
          free_of p' = free_of p - {key4 ip} \<and> used_of p' = insert (key4 ip) (used_of p)"
    and claim_none: "claim ip p = None \<longleftrightarrow> to4 ip = []"
    and claim_no: "claim ip p = Some (False, p') \<Longrightarrow> wf p \<Longrightarrow> p' = p \<and> key4 ip \<notin> free_of p"
    and claim_yes: "claim ip p = Some (True, p') \<Longrightarrow> wf p \<Longrightarrow>
          wf p' \<and> key4 ip \<in> free_of p \<and>
          free_of p' = free_of p - {key4 ip} \<and> used_of p' = insert (key4 ip) (used_of p)"
    and give_back_none: "give_back ip p = None \<longleftrightarrow> to4 ip = []"
    and give_back_some: "give_back ip p = Some p' \<Longrightarrow> wf p \<Longrightarrow>
          wf p' \<and> free_of p' = insert (key4 ip) (free_of p) \<and> used_of p' = used_of p - {key4 ip}"
begin

lemma take_total: "take ks p = (ip, p') \<Longrightarrow> wf p \<Longrightarrow> free_of p' \<union> used_of p' = free_of p \<union> used_of p"
  by (cases "ip = []") (auto dest: take_nil take_some)

lemma claim_total:
  "claim ip p = Some (b, p') \<Longrightarrow> wf p \<Longrightarrow> free_of p' \<union> used_of p' = free_of p \<union> used_of p"
  by (cases b) (auto dest: claim_yes claim_no)

lemma claim_exclusive:
  "claim ip p = Some (True, p') \<Longrightarrow> wf p \<Longrightarrow> key4 ip' = key4 ip \<Longrightarrow> to4 ip' \<noteq> [] \<Longrightarrow>
   claim ip' p' = Some (False, p')"
proof -
  assume a: "claim ip p = Some (True, p')" "wf p" and k: "key4 ip' = key4 ip" "to4 ip' \<noteq> []"
  note yes = claim_yes [OF a]
  from k claim_none [of ip' p'] obtain b p'' where r: "claim ip' p' = Some (b, p'')" by auto
  then have "\<not> b" using claim_yes [of ip' p' p''] yes k by (cases b) auto
  with r yes show ?thesis using claim_no [of ip' p' p''] by simp
qed

lemma give_back_total:
  "give_back ip p = Some p' \<Longrightarrow> wf p \<Longrightarrow> key4 ip \<in> used_of p \<Longrightarrow>
   free_of p' \<union> used_of p' = free_of p \<union> used_of p"
  using give_back_some [of ip p p'] by auto

lemma give_back_claim:
  assumes "give_back ip p = Some p'" and "wf p"
  shows "\<exists>p''. claim ip p' = Some (True, p'')"
proof -
  from assms have "key4 ip \<in> free_of p'" "wf p'" "to4 ip \<noteq> []"
    using give_back_some [of ip p p'] give_back_none [of ip p] by auto
  then show ?thesis using claim_none [of ip p'] claim_no [of ip p'] by (metis not_Some_eq surj_pair)
qed

end

interpretation ipp: address_pool pool_wf "\<lambda>p. dom (pool_free p)" pool_used
  pool_allocate pool_try_claim pool_release
proof
  fix p p' :: ip_pool and ks ip
  show "pool_wf p \<Longrightarrow> dom (pool_free p) \<inter> pool_used p = {}" by (simp add: pool_wf_def)
  show "pool_wf p \<Longrightarrow> finite (dom (pool_free p)) \<and> finite (pool_used p)"
    by (simp add: pool_wf_def free_wf_def)
  show "pool_allocate ks p = ([], p') \<Longrightarrow> pool_wf p \<Longrightarrow> p' = p"
    by (erule pool_allocate_cases) auto
  show "pool_allocate ks p = (ip, p') \<Longrightarrow> pool_wf p \<Longrightarrow> ip \<noteq> [] \<Longrightarrow>
      pool_wf p' \<and> length ip = 4 \<and> key4 ip \<in> dom (pool_free p) \<and>
      dom (pool_free p') = dom (pool_free p) - {key4 ip} \<and>
      pool_used p' = insert (key4 ip) (pool_used p)"
    using pool_allocate_wf [of ks p ip p'] by (auto elim!: pool_allocate_cases split: if_splits)
  show "(pool_try_claim ip p = None) = (to4 ip = [])" by (rule pool_try_claim_None)
  show "pool_try_claim ip p = Some (False, p') \<Longrightarrow> pool_wf p \<Longrightarrow>
      p' = p \<and> key4 ip \<notin> dom (pool_free p)"
    using pool_try_claim_None [of ip p] by (auto simp: pool_try_claim_eq split: if_splits)
  show "pool_try_claim ip p = Some (True, p') \<Longrightarrow> pool_wf p \<Longrightarrow>
      pool_wf p' \<and> key4 ip \<in> dom (pool_free p) \<and>
      dom (pool_free p') = dom (pool_free p) - {key4 ip} \<and>
      pool_used p' = insert (key4 ip) (pool_used p)"
    using pool_try_claim_None [of ip p] pool_try_claim_wf [of ip p True p']
    by (auto simp: pool_try_claim_eq split: if_splits)
  show "(pool_release ip p = None) = (to4 ip = [])" by (rule pool_release_None)
  show "pool_release ip p = Some p' \<Longrightarrow> pool_wf p \<Longrightarrow>
      pool_wf p' \<and> dom (pool_free p') = insert (key4 ip) (dom (pool_free p)) \<and>
      pool_used p' = pool_used p - {key4 ip}"
    using pool_release_None [of ip p] pool_release_wf [of ip p p']
    by (auto simp: pool_release_eq)
qed

end
