(* ===== verification/Pending_Offers.thy ===== *)
theory Pending_Offers
  imports Go_Net
begin

text \<open>
  \<open>dhcp/offer.go\<close>: addresses offered to a client and not yet requested, keyed by the text of the
  client's hardware address, each with the instant it lapses. The locale \<open>expiring_table\<close> is the
  contract of a table swept by deadline; \<open>pendingOffers\<close> provides it here and \<open>leaseStore\<close>
  provides it in the theory of leases.
\<close>

section \<open>The contract of a table swept by deadline\<close>

text \<open>
  \<open>rows\<close> is the map of a table, \<open>deadline\<close> the instant of a row, and \<open>sweep now ks t\<close> the rows
  removed at \<open>now\<close> when the table is ranged over in the order \<open>ks\<close>, with the table left.
\<close>

locale expiring_table =
  fixes rows :: "'t \<Rightarrow> string \<rightharpoonup> 'e"
    and deadline :: "'e \<Rightarrow> time"
    and sweep :: "time \<Rightarrow> string list \<Rightarrow> 't \<Rightarrow> 'e list \<times> 't"
  assumes sweep_rows: "rows (snd (sweep now ks t)) k =
      (case rows t k of
         Some e \<Rightarrow> if k \<in> set ks \<and> deadline e < now then None else Some e
       | None \<Rightarrow> None)"
    and sweep_removed: "e \<in> set (fst (sweep now ks t)) \<longleftrightarrow>
      (\<exists>k \<in> set ks. rows t k = Some e \<and> deadline e < now)"
    and sweep_order: "distinct ks \<Longrightarrow>
      fst (sweep now ks t) = filter (\<lambda>e. deadline e < now) (map snd (range_map ks (rows t)))"
begin

lemma sweep_sub: "rows (snd (sweep now ks t)) \<subseteq>\<^sub>m rows t"
  by (auto simp: map_le_def sweep_rows split: option.splits if_splits)

text \<open>When \<open>f\<close> tells rows apart, the swept rows have different keys and are gone from the table.\<close>

lemma sweep_distinct:
  assumes "distinct ks" and "inj_rows f (rows t)"
  shows "distinct (map f (fst (sweep now ks t)))"
  using distinct_rows [OF assms] by (simp add: sweep_order [OF assms(1)] distinct_map_filter)

lemma sweep_keys:
  assumes "inj_rows f (rows t)"
  shows "row_keys f (rows (snd (sweep now ks t))) = row_keys f (rows t) - f ` set (fst (sweep now ks t))"
proof -
  let ?r = "rows (snd (sweep now ks t))"
  have keep: "?r k = Some e \<longleftrightarrow> rows t k = Some e \<and> e \<notin> set (fst (sweep now ks t))" for k e
    unfolding sweep_removed using inj_rowsD [OF assms, of k e]
    by (auto simp: sweep_rows split: option.splits if_splits)
  have out: "e \<in> set (fst (sweep now ks t)) \<Longrightarrow> \<exists>k. rows t k = Some e" for e
    unfolding sweep_removed by blast
  have "x \<in> row_keys f ?r \<longleftrightarrow> x \<in> row_keys f (rows t) - f ` set (fst (sweep now ks t))" for x
    unfolding row_keys_iff Diff_iff image_iff keep
    by (metis out inj_rowsD [OF assms] option.inject)
  then show ?thesis by blast
qed

lemma sweep_keeps: "rows (snd (sweep now ks t)) k = Some e \<Longrightarrow> rows t k = Some e"
  by (auto simp: sweep_rows split: option.splits if_splits)

lemma sweep_late:
  "iter_order ks (rows t) \<Longrightarrow> rows (snd (sweep now ks t)) k = Some e \<Longrightarrow> now \<le> deadline e"
  by (auto simp: sweep_rows iter_order_def dom_def split: option.splits if_splits)

lemma sweep_empty_id:
  "fst (sweep now ks t) = [] \<Longrightarrow> rows (snd (sweep now ks t)) = rows t"
  using sweep_removed [of _ now ks t]
  by (fastforce simp: sweep_rows fun_eq_iff split: option.splits)

lemma sweep_partition:
  assumes "iter_order ks (rows t)" and "rows t k = Some e"
  shows "rows (snd (sweep now ks t)) k = Some e \<or> e \<in> set (fst (sweep now ks t))"
  using assms by (auto simp: sweep_rows sweep_removed iter_order_def dom_def)

lemma sweep_all:
  assumes "iter_order ks (rows t)" and "\<forall>k e. rows t k = Some e \<longrightarrow> deadline e < now"
  shows "rows (snd (sweep now ks t)) = Map.empty"
  using assms by (fastforce simp: sweep_rows fun_eq_iff iter_order_def dom_def split: option.splits)

end

section \<open>Pending offers\<close>

record pending_offer =
  po_ip :: ip
  po_expiry :: time

record pending_offers =
  offer_map :: "string \<rightharpoonup> pending_offer"
  offer_timeout :: duration

definition new_pending_offers :: "duration \<Rightarrow> pending_offers" where
  "new_pending_offers d = \<lparr>offer_map = Map.empty, offer_timeout = d\<rparr>"

definition offers_add :: "time \<Rightarrow> mac \<Rightarrow> ip \<Rightarrow> pending_offers \<Rightarrow> pending_offers" where
  "offers_add now mac ip p =
     p\<lparr>offer_map := (offer_map p)(mac_string mac \<mapsto>
         \<lparr>po_ip = to4 ip, po_expiry = now + offer_timeout p\<rparr>)\<rparr>"

definition offers_remove :: "mac \<Rightarrow> pending_offers \<Rightarrow> ip \<times> pending_offers" where
  "offers_remove mac p =
     (case offer_map p (mac_string mac) of
        None \<Rightarrow> ([], p)
      | Some old \<Rightarrow> (po_ip old, p\<lparr>offer_map := (offer_map p)(mac_string mac := None)\<rparr>))"

text \<open>\<open>ipForMAC\<close>: the live offer's address, or the address of a lapsed offer, which is dropped.\<close>

definition offers_ip_for_mac :: "time \<Rightarrow> mac \<Rightarrow> pending_offers \<Rightarrow> (ip \<times> ip) \<times> pending_offers" where
  "offers_ip_for_mac now mac p =
     (case offer_map p (mac_string mac) of
        None \<Rightarrow> (([], []), p)
      | Some o1 \<Rightarrow>
          if now < po_expiry o1 then ((po_ip o1, []), p)
          else (([], po_ip o1), p\<lparr>offer_map := (offer_map p)(mac_string mac := None)\<rparr>))"

definition is_offered_to :: "time \<Rightarrow> mac \<Rightarrow> ip \<Rightarrow> pending_offers \<Rightarrow> bool" where
  "is_offered_to now mac ip p =
     (case offer_map p (mac_string mac) of
        None \<Rightarrow> False
      | Some o1 \<Rightarrow> ip_equal (po_ip o1) ip \<and> now < po_expiry o1)"

definition offers_sweep :: "time \<Rightarrow> string list \<Rightarrow> pending_offers \<Rightarrow> pending_offer list \<times> pending_offers" where
  "offers_sweep now ks p =
     (case sweep_loop (\<lambda>_ o1. now > po_expiry o1) ks (offer_map p) [] of
        (out, m) \<Rightarrow> (map snd out, p\<lparr>offer_map := m\<rparr>))"

text \<open>\<open>expireOld\<close> returns the addresses of the swept offers.\<close>

definition offers_expire_old :: "time \<Rightarrow> string list \<Rightarrow> pending_offers \<Rightarrow> ip list \<times> pending_offers" where
  "offers_expire_old now ks p =
     (case offers_sweep now ks p of (out, p') \<Rightarrow> (map po_ip out, p'))"

interpretation offers_table: expiring_table offer_map po_expiry offers_sweep
proof
  fix now ks t k e
  show "offer_map (snd (offers_sweep now ks t)) k =
      (case offer_map t k of
         Some e \<Rightarrow> if k \<in> set ks \<and> po_expiry e < now then None else Some e
       | None \<Rightarrow> None)"
    using sweep_loop_map [of "\<lambda>_ o1. po_expiry o1 < now" ks "offer_map t" "[]"]
    by (simp add: offers_sweep_def case_prod_beta)
  show "e \<in> set (fst (offers_sweep now ks t)) \<longleftrightarrow>
      (\<exists>k \<in> set ks. offer_map t k = Some e \<and> po_expiry e < now)"
    using sweep_loop_set [of "\<lambda>_ o1. po_expiry o1 < now" ks "offer_map t" "[]"]
    by (auto simp: offers_sweep_def image_iff split: prod.splits)
  show "distinct ks \<Longrightarrow> fst (offers_sweep now ks t) =
      filter (\<lambda>e. po_expiry e < now) (map snd (range_map ks (offer_map t)))"
    using sweep_loop_out [of ks "\<lambda>_ o1. po_expiry o1 < now" "offer_map t" "[]"]
    by (simp add: offers_sweep_def case_prod_unfold filter_map comp_def)
qed

lemma offers_expire_old_eq:
  "offers_expire_old now ks p = (map po_ip (fst (offers_sweep now ks p)), snd (offers_sweep now ks p))"
  by (simp add: offers_expire_old_def case_prod_beta)

lemma offers_sweep_timeout [simp]: "offer_timeout (snd (offers_sweep now ks p)) = offer_timeout p"
  by (simp add: offers_sweep_def case_prod_beta)

section \<open>Invariant\<close>

text \<open>Every offer carries the 4-byte form of its address, and no two offers name one address.\<close>

definition offers_wf :: "pending_offers \<Rightarrow> bool" where
  "offers_wf p \<longleftrightarrow> finite (dom (offer_map p)) \<and>
     (\<forall>k o1. offer_map p k = Some o1 \<longrightarrow> length (po_ip o1) = 4) \<and>
     inj_rows po_ip (offer_map p)"

end
