(* ===== verification/Lease_Store.thy ===== *)
theory Lease_Store
  imports Pending_Offers
begin

text \<open>
  \<open>dhcp/lease.go\<close>, the table in memory: leases keyed by the text of the client's hardware address.
  Saving and loading the table is in the theory of the lease file. The lemmas state what granting,
  taking and sweeping leases does to the table, and that the table never holds one address twice.
\<close>

section \<open>The table\<close>

record lease =
  l_mac :: mac
  l_ip :: ip
  l_expiry :: time
  l_granted :: time

record evicted_lease =
  ev_mac :: string
  ev_ip :: ip

record lease_store =
  lease_map :: "string \<rightharpoonup> lease"
  lease_path :: path

definition new_lease_store :: "path \<Rightarrow> lease_store" where
  "new_lease_store f = \<lparr>lease_map = Map.empty, lease_path = f\<rparr>"

text \<open>
  \<open>add\<close>: the lease the client already holds on another address comes first among the evicted ones,
  then, in the order of the range, the leases of other clients on the same address, which are deleted.
\<close>

definition lease_add ::
    "string list \<Rightarrow> mac \<Rightarrow> ip \<Rightarrow> duration \<Rightarrow> time \<Rightarrow> lease_store \<Rightarrow> evicted_lease list \<times> lease_store"
  where
  "lease_add ks mac ip d granted s =
     (let key = mac_string mac;
          new_ip = to4 ip;
          rebound = (case lease_map s key of
              None \<Rightarrow> []
            | Some prev \<Rightarrow>
                if \<not> ip_equal (l_ip prev) new_ip then [\<lparr>ev_mac = key, ev_ip = l_ip prev\<rparr>] else [])
      in case sweep_loop (\<lambda>k l. ip_equal (l_ip l) new_ip \<and> k \<noteq> key) ks (lease_map s) [] of
           (out, m) \<Rightarrow>
             (rebound @ map (\<lambda>(k, l). \<lparr>ev_mac = k, ev_ip = l_ip l\<rparr>) out,
              s\<lparr>lease_map := m(key \<mapsto>
                  \<lparr>l_mac = mac, l_ip = new_ip, l_expiry = granted + d, l_granted = granted\<rparr>)\<rparr>))"

definition lease_active :: "time \<Rightarrow> mac \<Rightarrow> lease_store \<Rightarrow> lease option" where
  "lease_active now mac s =
     (case lease_map s (mac_string mac) of
        None \<Rightarrow> None
      | Some l \<Rightarrow> if now < l_expiry l then Some l else None)"

definition lease_take :: "mac \<Rightarrow> lease_store \<Rightarrow> lease option \<times> lease_store" where
  "lease_take mac s =
     (case lease_map s (mac_string mac) of
        None \<Rightarrow> (None, s)
      | Some l \<Rightarrow> (Some l, s\<lparr>lease_map := (lease_map s)(mac_string mac := None)\<rparr>))"

fun lease_restore_all :: "lease list \<Rightarrow> lease_store \<Rightarrow> lease_store" where
  "lease_restore_all [] s = s"
| "lease_restore_all (l # ls) s =
     lease_restore_all ls (s\<lparr>lease_map := (lease_map s)(mac_string (l_mac l) \<mapsto> l)\<rparr>)"

definition lease_ip_for_mac :: "time \<Rightarrow> mac \<Rightarrow> lease_store \<Rightarrow> ip" where
  "lease_ip_for_mac now mac s =
     (case lease_map s (mac_string mac) of
        None \<Rightarrow> []
      | Some l \<Rightarrow> if now < l_expiry l then l_ip l else [])"

definition is_leased_to :: "time \<Rightarrow> mac \<Rightarrow> ip \<Rightarrow> lease_store \<Rightarrow> bool" where
  "is_leased_to now mac ip s =
     (case lease_map s (mac_string mac) of
        None \<Rightarrow> False
      | Some l \<Rightarrow> ip_equal (l_ip l) ip \<and> now < l_expiry l)"

definition is_leased_to_other :: "time \<Rightarrow> string list \<Rightarrow> mac \<Rightarrow> ip \<Rightarrow> lease_store \<Rightarrow> bool" where
  "is_leased_to_other now ks mac ip s \<longleftrightarrow>
     list_ex (\<lambda>(k, l). ip_equal (l_ip l) ip \<and> now < l_expiry l \<and> k \<noteq> mac_string mac)
       (range_map ks (lease_map s))"

definition active_leases :: "time \<Rightarrow> string list \<Rightarrow> lease_store \<Rightarrow> lease list" where
  "active_leases now ks s = filter (\<lambda>l. now < l_expiry l) (map snd (range_map ks (lease_map s)))"

definition active_count :: "time \<Rightarrow> string list \<Rightarrow> lease_store \<Rightarrow> nat" where
  "active_count now ks s = length (active_leases now ks s)"

definition lease_expire_old :: "time \<Rightarrow> string list \<Rightarrow> lease_store \<Rightarrow> lease list \<times> lease_store" where
  "lease_expire_old now ks s =
     (case sweep_loop (\<lambda>_ l. now > l_expiry l) ks (lease_map s) [] of
        (out, m) \<Rightarrow> (map snd out, s\<lparr>lease_map := m\<rparr>))"

interpretation lease_table: expiring_table lease_map l_expiry lease_expire_old
proof
  fix now ks t k e
  show "lease_map (snd (lease_expire_old now ks t)) k =
      (case lease_map t k of
         Some e \<Rightarrow> if k \<in> set ks \<and> l_expiry e < now then None else Some e
       | None \<Rightarrow> None)"
    using sweep_loop_map [of "\<lambda>_ l. l_expiry l < now" ks "lease_map t" "[]"]
    by (simp add: lease_expire_old_def case_prod_beta)
  show "e \<in> set (fst (lease_expire_old now ks t)) \<longleftrightarrow>
      (\<exists>k \<in> set ks. lease_map t k = Some e \<and> l_expiry e < now)"
    using sweep_loop_set [of "\<lambda>_ l. l_expiry l < now" ks "lease_map t" "[]"]
    by (auto simp: lease_expire_old_def image_iff split: prod.splits)
  show "distinct ks \<Longrightarrow> fst (lease_expire_old now ks t) =
      filter (\<lambda>e. l_expiry e < now) (map snd (range_map ks (lease_map t)))"
    using sweep_loop_out [of ks "\<lambda>_ l. l_expiry l < now" "lease_map t" "[]"]
    by (simp add: lease_expire_old_def case_prod_unfold filter_map comp_def)
qed

section \<open>Invariant\<close>

text \<open>
  Every lease is stored under the text of its own hardware address and carries a 4-byte address,
  and no two leases name one address, lapsed ones included.
\<close>

definition lease_wf :: "lease_store \<Rightarrow> bool" where
  "lease_wf s \<longleftrightarrow> finite (dom (lease_map s)) \<and>
     (\<forall>k l. lease_map s k = Some l \<longrightarrow> k = mac_string (l_mac l) \<and> length (l_ip l) = 4) \<and>
     inj_rows l_ip (lease_map s)"

lemma lease_wf_entry:
  "lease_wf s \<Longrightarrow> lease_map s k = Some l \<Longrightarrow> k = mac_string (l_mac l) \<and> length (l_ip l) = 4"
  by (simp add: lease_wf_def)

lemma lease_wf_sub: "lease_wf s \<Longrightarrow> lease_map s' \<subseteq>\<^sub>m lease_map s \<Longrightarrow> lease_wf s'"
  unfolding lease_wf_def by (auto intro: finite_dom_sub inj_rows_sub dest: map_leD)

lemma lease_wf_put:
  assumes "lease_wf s" and "length (l_ip l) = 4"
    and "\<forall>k' l'. lease_map s k' = Some l' \<longrightarrow> k' \<noteq> mac_string (l_mac l) \<longrightarrow> l_ip l' \<noteq> l_ip l"
    and "lease_map s' = (lease_map s)(mac_string (l_mac l) \<mapsto> l)"
  shows "lease_wf s'"
  using assms by (simp add: lease_wf_def inj_rows_upd)

section \<open>Granting a lease\<close>

text \<open>
  The map after \<open>add\<close>: the leases on other addresses, and the client's new lease. No two leases
  name one address afterwards, whatever the table was.
\<close>

definition leases_elsewhere :: "ip \<Rightarrow> lease_store \<Rightarrow> string \<rightharpoonup> lease" where
  "leases_elsewhere ip s =
     (\<lambda>k. case lease_map s k of
            Some l \<Rightarrow> if ip_equal (l_ip l) (to4 ip) then None else Some l
          | None \<Rightarrow> None)"

lemma leases_elsewhereD:
  "leases_elsewhere ip s k = Some l \<Longrightarrow> lease_map s k = Some l \<and> \<not> ip_equal (l_ip l) (to4 ip)"
  by (simp add: leases_elsewhere_def split: option.splits if_splits)

lemma leases_elsewhere_sub: "leases_elsewhere ip s \<subseteq>\<^sub>m lease_map s"
  unfolding map_le_def by (metis domD leases_elsewhereD)

lemma lease_add_map:
  assumes "iter_order ks (lease_map s)"
  shows "lease_map (snd (lease_add ks mac ip d granted s)) =
    (leases_elsewhere ip s)(mac_string mac \<mapsto>
       \<lparr>l_mac = mac, l_ip = to4 ip, l_expiry = granted + d, l_granted = granted\<rparr>)"
  using assms sweep_loop_map
    [of "\<lambda>k l. ip_equal (l_ip l) (to4 ip) \<and> k \<noteq> mac_string mac" ks "lease_map s" "[]"]
  by (auto simp: lease_add_def leases_elsewhere_def Let_def case_prod_beta fun_eq_iff
      iter_order_def dom_def split: option.splits)

lemma lease_add_path [simp]: "lease_path (snd (lease_add ks mac ip d granted s)) = lease_path s"
  by (simp add: lease_add_def Let_def case_prod_beta)

lemma lease_add_wf:
  assumes "lease_wf s" and "iter_order ks (lease_map s)" and "to4 ip \<noteq> []"
  shows "lease_wf (snd (lease_add ks mac ip d granted s))"
proof -
  let ?s = "s\<lparr>lease_map := leases_elsewhere ip s\<rparr>"
  have len: "length (to4 ip) = 4" using assms(3) by (simp add: length_to4)
  have "lease_wf ?s"
    by (rule lease_wf_sub [OF assms(1)]) (simp add: leases_elsewhere_sub)
  moreover have "l_ip l' \<noteq> to4 ip" if "leases_elsewhere ip s k' = Some l'" for k' l'
    using leases_elsewhereD [OF that] by auto
  ultimately show ?thesis
    using lease_wf_put [of ?s
        "\<lparr>l_mac = mac, l_ip = to4 ip, l_expiry = granted + d, l_granted = granted\<rparr>"
        "snd (lease_add ks mac ip d granted s)"]
    by (simp add: lease_add_map [OF assms(2)] len)
qed

text \<open>
  When no other client holds the address, \<open>add\<close> only replaces the client's own lease, and evicts
  at most that one.
\<close>

definition ip_unheld :: "string \<Rightarrow> ip \<Rightarrow> lease_store \<Rightarrow> bool" where
  "ip_unheld key ip s \<longleftrightarrow> (\<forall>k l. lease_map s k = Some l \<longrightarrow> k \<noteq> key \<longrightarrow> l_ip l \<noteq> to4 ip)"

lemma lease_add_unheld:
  assumes wf: "lease_wf s" and un: "ip_unheld (mac_string mac) ip s" and v4: "to4 ip \<noteq> []"
  shows "lease_add ks mac ip d granted s =
    ((case lease_map s (mac_string mac) of
        None \<Rightarrow> []
      | Some l \<Rightarrow> if l_ip l = to4 ip then [] else [\<lparr>ev_mac = mac_string mac, ev_ip = l_ip l\<rparr>]),
     s\<lparr>lease_map := (lease_map s)(mac_string mac \<mapsto>
         \<lparr>l_mac = mac, l_ip = to4 ip, l_expiry = granted + d, l_granted = granted\<rparr>)\<rparr>)"
proof -
  let ?P = "\<lambda>k l. ip_equal (l_ip l) (to4 ip) \<and> k \<noteq> mac_string mac"
  have len: "length (to4 ip) = 4" using v4 by (simp add: length_to4)
  have eq: "ip_equal (l_ip l) (to4 ip) \<longleftrightarrow> l_ip l = to4 ip" if "lease_map s k = Some l" for k l
    using len lease_wf_entry [OF wf that] by simp
  have none: "\<not> ?P k l" if "lease_map s k = Some l" for k l
    using un that eq [OF that] by (auto simp: ip_unheld_def)
  have "sweep_loop ?P ks (lease_map s) [] = ([], lease_map s)"
    using none by (induction ks) (auto split: option.splits)
  then show ?thesis
    using eq by (auto simp: lease_add_def Let_def split: option.splits)
qed

end
