(* ===== verification/Go_Json.thy ===== *)
theory Go_Json
  imports Prelude
begin

text \<open>
  \<open>encoding/json\<close> on texts: the printer of \<open>MarshalIndent(v, "", "  ")\<close>, the parser behind
  \<open>Unmarshal\<close> and the decoding of object fields into Go structs. Texts are byte strings; bytes above
  127 are copied, as they are for valid UTF-8 without U+2028 and U+2029. The parser recurses on fuel; twice the length of
  the text is enough, because more fuel never changes its result. Printing and parsing is the
  identity.
\<close>

section \<open>Values\<close>

datatype json =
    JNull
  | JBool bool
  | JNum string
  | JStr string
  | JArr "json list"
  | JObj "(string \<times> json) list"

definition c_quote :: char where "c_quote = CHR 0x22"
definition c_bslash :: char where "c_bslash = CHR 0x5C"
definition c_newline :: char where "c_newline = CHR 0x0A"

lemmas c_defs = c_quote_def c_bslash_def c_newline_def

section \<open>Printing\<close>

definition json_escape_char :: "char \<Rightarrow> string" where
  "json_escape_char c = (let n = (of_char c :: nat) in
     if c = c_quote \<or> c = c_bslash then [c_bslash, c]
     else if n = 8 then [c_bslash, CHR ''b'']
     else if n = 12 then [c_bslash, CHR ''f'']
     else if n = 10 then [c_bslash, CHR ''n'']
     else if n = 13 then [c_bslash, CHR ''r'']
     else if n = 9 then [c_bslash, CHR ''t'']
     else if n < 32 \<or> c = CHR ''<'' \<or> c = CHR ''>'' \<or> c = CHR ''&''
     then [c_bslash, CHR ''u'', CHR ''0'', CHR ''0'', digit_char (n div 16), digit_char (n mod 16)]
     else [c])"

definition print_string :: "string \<Rightarrow> string" where
  "print_string s = c_quote # concat (map json_escape_char s) @ [c_quote]"

definition nl :: "nat \<Rightarrow> string" where
  "nl l = c_newline # replicate (2 * l) (CHR '' '')"

fun print_json :: "nat \<Rightarrow> json \<Rightarrow> string" where
  "print_json l JNull = ''null''"
| "print_json l (JBool b) = (if b then ''true'' else ''false'')"
| "print_json l (JNum t) = t"
| "print_json l (JStr s) = print_string s"
| "print_json l (JArr xs) =
     (if xs = [] then ''[]''
      else CHR ''['' # nl (l + 1) @ join (CHR '','' # nl (l + 1)) (map (print_json (l + 1)) xs)
             @ nl l @ '']'')"
| "print_json l (JObj kvs) =
     (if kvs = [] then ''{}''
      else CHR ''{'' # nl (l + 1)
             @ join (CHR '','' # nl (l + 1))
                 (map (\<lambda>(k, v). print_string k @ '': '' @ print_json (l + 1) v) kvs)
             @ nl l @ ''}'')"

definition json_marshal_indent :: "json \<Rightarrow> string" where
  "json_marshal_indent j = print_json 0 j"

section \<open>Parsing\<close>

definition is_ws :: "char \<Rightarrow> bool" where
  "is_ws c \<longleftrightarrow> c = CHR '' '' \<or> c = c_newline \<or> c = CHR 0x09 \<or> c = CHR 0x0D"

definition skip_ws :: "string \<Rightarrow> string" where
  "skip_ws s = dropWhile is_ws s"

text \<open>The UTF-8 bytes of a code point, and surrogate pairs.\<close>

definition utf8 :: "nat \<Rightarrow> string" where
  "utf8 n =
     (if n < 128 then [char_of n]
      else if n < 2048 then [char_of (192 + n div 64), char_of (128 + n mod 64)]
      else if n < 65536
      then [char_of (224 + n div 4096), char_of (128 + n div 64 mod 64), char_of (128 + n mod 64)]
      else [char_of (240 + n div 262144), char_of (128 + n div 4096 mod 64),
            char_of (128 + n div 64 mod 64), char_of (128 + n mod 64)])"

definition hex4 :: "char \<Rightarrow> char \<Rightarrow> char \<Rightarrow> char \<Rightarrow> nat option" where
  "hex4 a b c d = do { w \<leftarrow> hex_val a; x \<leftarrow> hex_val b; y \<leftarrow> hex_val c; z \<leftarrow> hex_val d;
     Some (((w * 16 + x) * 16 + y) * 16 + z) }"

definition simple_escape :: "char \<Rightarrow> char option" where
  "simple_escape c =
     (if c = c_quote \<or> c = c_bslash \<or> c = CHR ''/'' then Some c
      else if c = CHR ''b'' then Some (CHR 0x08)
      else if c = CHR ''f'' then Some (CHR 0x0C)
      else if c = CHR ''n'' then Some (CHR 0x0A)
      else if c = CHR ''r'' then Some (CHR 0x0D)
      else if c = CHR ''t'' then Some (CHR 0x09)
      else None)"

definition low_surrogate :: "string \<Rightarrow> (nat \<times> string) option" where
  "low_surrogate s = (case s of
     e # u # a # b # c # d # r \<Rightarrow>
       if e = c_bslash \<and> u = CHR ''u'' then
         (case hex4 a b c d of
            Some n \<Rightarrow> if 56320 \<le> n \<and> n < 57344 then Some (n, r) else None
          | None \<Rightarrow> None)
       else None
   | _ \<Rightarrow> None)"

lemma low_surrogate_length: "low_surrogate s = Some (n, r) \<Longrightarrow> length r < length s"
  by (auto simp: low_surrogate_def split: list.splits if_splits option.splits)

text \<open>The text after an opening quote: the decoded string and what follows the closing quote.\<close>

function (sequential) p_string :: "string \<Rightarrow> (string \<times> string) option" where
  "p_string [] = None"
| "p_string (c # cs) =
     (if c = c_quote then Some ([], cs)
      else if c = c_bslash then
        (case cs of
           [] \<Rightarrow> None
         | e # r \<Rightarrow>
             if e = CHR ''u'' then
               (case r of
                  a # b # x # d # r' \<Rightarrow>
                    (case hex4 a b x d of
                       None \<Rightarrow> None
                     | Some n \<Rightarrow>
                         (case (if 55296 \<le> n \<and> n < 56320 then low_surrogate r' else None) of
                            Some (n', r'') \<Rightarrow>
                              map_option (\<lambda>(t, q). (utf8 (65536 + (n - 55296) * 1024 + (n' - 56320)) @ t, q))
                                (p_string r'')
                          | None \<Rightarrow>
                              map_option (\<lambda>(t, q).
                                  (utf8 (if 55296 \<le> n \<and> n < 57344 then 65533 else n) @ t, q))
                                (p_string r')))
                | _ \<Rightarrow> None)
             else
               (case simple_escape e of
                  None \<Rightarrow> None
                | Some x \<Rightarrow> map_option (\<lambda>(t, q). (x # t, q)) (p_string r)))
      else if (of_char c :: nat) < 32 then None
      else map_option (\<lambda>(t, q). (c # t, q)) (p_string cs))"
  by pat_completeness auto
termination
  by (relation "measure length") (auto dest!: low_surrogate_length split: if_splits)

definition p_digits1 :: "string \<Rightarrow> (string \<times> string) option" where
  "p_digits1 s =
     (if takeWhile is_digit s = [] then None else Some (takeWhile is_digit s, dropWhile is_digit s))"

definition p_int :: "string \<Rightarrow> (string \<times> string) option" where
  "p_int s = (case s of
     [] \<Rightarrow> None
   | c # cs \<Rightarrow> if c = CHR ''0'' then Some ([c], cs) else p_digits1 s)"

definition p_frac :: "string \<Rightarrow> (string \<times> string) option" where
  "p_frac s = (case s of
     c # cs \<Rightarrow> if c = CHR ''.'' then map_option (\<lambda>(d, r). (c # d, r)) (p_digits1 cs) else Some ([], s)
   | [] \<Rightarrow> Some ([], s))"

definition p_exp :: "string \<Rightarrow> (string \<times> string) option" where
  "p_exp s = (case s of
     c # cs \<Rightarrow>
       if c = CHR ''e'' \<or> c = CHR ''E'' then
         (case cs of
            g # gs \<Rightarrow>
              if g = CHR ''+'' \<or> g = CHR ''-''
              then map_option (\<lambda>(d, r). (c # g # d, r)) (p_digits1 gs)
              else map_option (\<lambda>(d, r). (c # d, r)) (p_digits1 cs)
          | [] \<Rightarrow> None)
       else Some ([], s)
   | [] \<Rightarrow> Some ([], s))"

definition p_number :: "string \<Rightarrow> (string \<times> string) option" where
  "p_number s =
     (let (sg, s1) = (case s of c # cs \<Rightarrow> if c = CHR ''-'' then ([c], cs) else ([], s) | [] \<Rightarrow> ([], s)) in
      do { (i, s2) \<leftarrow> p_int s1; (f, s3) \<leftarrow> p_frac s2; (e, s4) \<leftarrow> p_exp s3;
           Some (sg @ i @ f @ e, s4) })"

definition p_lit :: "string \<Rightarrow> json \<Rightarrow> string \<Rightarrow> (json \<times> string) option" where
  "p_lit w v s = (if take (length w) s = w then Some (v, drop (length w) s) else None)"

fun p_value :: "nat \<Rightarrow> string \<Rightarrow> (json \<times> string) option"
  and p_elems :: "nat \<Rightarrow> string \<Rightarrow> (json list \<times> string) option"
  and p_members :: "nat \<Rightarrow> string \<Rightarrow> ((string \<times> json) list \<times> string) option" where
  "p_value 0 s = None"
| "p_value (Suc n) s =
     (case skip_ws s of
        [] \<Rightarrow> None
      | c # cs \<Rightarrow>
          if c = c_quote then map_option (\<lambda>(t, r). (JStr t, r)) (p_string cs)
          else if c = CHR ''['' then
            (case skip_ws cs of
               [] \<Rightarrow> None
             | d # r \<Rightarrow>
                 if d = CHR '']'' then Some (JArr [], r)
                 else map_option (\<lambda>(xs, q). (JArr xs, q)) (p_elems n cs))
          else if c = CHR ''{'' then
            (case skip_ws cs of
               [] \<Rightarrow> None
             | d # r \<Rightarrow>
                 if d = CHR ''}'' then Some (JObj [], r)
                 else map_option (\<lambda>(kvs, q). (JObj kvs, q)) (p_members n cs))
          else if c = CHR ''n'' then p_lit ''null'' JNull (c # cs)
          else if c = CHR ''t'' then p_lit ''true'' (JBool True) (c # cs)
          else if c = CHR ''f'' then p_lit ''false'' (JBool False) (c # cs)
          else map_option (\<lambda>(t, r). (JNum t, r)) (p_number (c # cs)))"
| "p_elems 0 s = None"
| "p_elems (Suc n) s =
     (case p_value n s of
        None \<Rightarrow> None
      | Some (v, r) \<Rightarrow>
          (case skip_ws r of
             [] \<Rightarrow> None
           | c # cs \<Rightarrow>
               if c = CHR '','' then map_option (\<lambda>(vs, q). (v # vs, q)) (p_elems n cs)
               else if c = CHR '']'' then Some ([v], cs)
               else None))"
| "p_members 0 s = None"
| "p_members (Suc n) s =
     (case skip_ws s of
        [] \<Rightarrow> None
      | c # cs \<Rightarrow>
          if c \<noteq> c_quote then None
          else (case p_string cs of
                  None \<Rightarrow> None
                | Some (k, r) \<Rightarrow>
                    (case skip_ws r of
                       [] \<Rightarrow> None
                     | e # r1 \<Rightarrow>
                         if e \<noteq> CHR '':'' then None
                         else (case p_value n r1 of
                                 None \<Rightarrow> None
                               | Some (v, r2) \<Rightarrow>
                                   (case skip_ws r2 of
                                      [] \<Rightarrow> None
                                    | f # r3 \<Rightarrow>
                                        if f = CHR '','' then
                                          map_option (\<lambda>(kvs, q). ((k, v) # kvs, q)) (p_members n r3)
                                        else if f = CHR ''}'' then Some ([(k, v)], r3)
                                        else None)))))"

definition json_parse :: "string \<Rightarrow> json option" where
  "json_parse s =
     (case p_value (2 * length s + 1) s of
        None \<Rightarrow> None
      | Some (v, r) \<Rightarrow> if skip_ws r = [] then Some v else None)"

section \<open>The fuel is enough\<close>

lemma skip_ws_length: "skip_ws s = c # cs \<Longrightarrow> length cs < length s"
  using length_dropWhile_le [of is_ws s] by (simp add: skip_ws_def)

lemma p_string_length: "p_string s = Some (t, r) \<Longrightarrow> length r < length s"
proof (induction s arbitrary: t r rule: p_string.induct)
  case (2 c cs)
  show ?case
    using "2.prems" "2.IH"
    by (fastforce split: if_splits list.splits option.splits prod.splits dest: low_surrogate_length)
qed simp

lemma p_digits1_length: "p_digits1 s = Some (t, r) \<Longrightarrow> length r < length s"
proof -
  assume a: "p_digits1 s = Some (t, r)"
  have "length s = length (takeWhile is_digit s) + length (dropWhile is_digit s)"
    by (metis length_append takeWhile_dropWhile_id)
  with a show ?thesis by (auto simp: p_digits1_def split: if_splits)
qed

lemma p_number_length: "p_number s = Some (t, r) \<Longrightarrow> length r < length s"
proof -
  assume a: "p_number s = Some (t, r)"
  have i: "p_int s = Some (t, r) \<Longrightarrow> length r < length s" for s t r
    by (auto simp: p_int_def dest: p_digits1_length split: list.splits if_splits)
  have f: "p_frac s = Some (t, r) \<Longrightarrow> length r \<le> length s" for s t r
    by (auto simp: p_frac_def dest: p_digits1_length split: list.splits if_splits)
  have e: "p_exp s = Some (t, r) \<Longrightarrow> length r \<le> length s" for s t r
    by (auto simp: p_exp_def dest: p_digits1_length split: list.splits if_splits)
  from a show ?thesis
    by (auto simp: p_number_def Let_def elim!: bind_SomeE split: list.splits if_splits prod.splits
        dest!: i f e)
qed

lemma p_lit_length: "p_lit w v s = Some (t, r) \<Longrightarrow> w \<noteq> [] \<Longrightarrow> length r < length s"
  by (cases s; cases w) (auto simp: p_lit_def split: if_splits)

lemma p_length:
  "p_value n s = Some (v, r) \<Longrightarrow> length r < length s"
  "p_elems n s = Some (vs, r) \<Longrightarrow> length r < length s"
  "p_members n s = Some (kvs, r) \<Longrightarrow> length r < length s"
proof (induction n s and n s and n s arbitrary: v r and vs r and kvs r
    rule: p_value_p_elems_p_members.induct)
  case (2 n s)
  show ?case
    using "2.prems" "2.IH"
    by (auto split: list.splits if_splits prod.splits
        dest!: skip_ws_length p_string_length p_number_length p_lit_length) fastforce+
next
  case (4 n s)
  then show ?case
    by (fastforce split: option.splits prod.splits list.splits if_splits dest: skip_ws_length)
next
  case (6 n s)
  then show ?case
    by (fastforce split: option.splits prod.splits list.splits if_splits
        dest: skip_ws_length p_string_length)
qed simp_all

lemma fuel_enough_all:
  "(\<forall>n m. 2 * length s + 1 \<le> n \<longrightarrow> 2 * length s + 1 \<le> m \<longrightarrow> p_value n s = p_value m s) \<and>
   (\<forall>n m. 2 * length s + 2 \<le> n \<longrightarrow> 2 * length s + 2 \<le> m \<longrightarrow> p_elems n s = p_elems m s) \<and>
   (\<forall>n m. 2 * length s + 2 \<le> n \<longrightarrow> 2 * length s + 2 \<le> m \<longrightarrow> p_members n s = p_members m s)"
proof (induction s rule: length_induct)
  case (1 s)
  have shorter: "p_value n t = p_value m t" "p_elems n' t = p_elems m' t" "p_members n' t = p_members m' t"
    if "length t < length s" "2 * length s \<le> n" "2 * length s \<le> m" "2 * length s \<le> n'" "2 * length s \<le> m'"
    for t n m n' m'
    using 1 that by auto
  have value_eq: "p_value n s = p_value m s" if n: "2 * length s + 1 \<le> n" and m: "2 * length s + 1 \<le> m" for n m
  proof -
    obtain n' m' where "n = Suc n'" "m = Suc m'" using n m by (cases n; cases m) auto
    with n m show ?thesis
      by (auto split: list.splits intro!: arg_cong [where f = "map_option _"] shorter(2,3)
          dest!: skip_ws_length)
  qed
  have elems_eq: "p_elems n s = p_elems m s" if n: "2 * length s + 2 \<le> n" and m: "2 * length s + 2 \<le> m" for n m
  proof -
    obtain n' m' where nm: "n = Suc n'" "m = Suc m'" using n m by (cases n; cases m) auto
    then have "p_value n' s = p_value m' s" using n m by (intro value_eq) auto
    with n m nm show ?thesis
      by (auto split: option.splits list.splits intro!: arg_cong [where f = "map_option _"] shorter(2)
          dest!: skip_ws_length p_length(1))
  qed
  have members_eq: "p_members n s = p_members m s"
    if n: "2 * length s + 2 \<le> n" and m: "2 * length s + 2 \<le> m" for n m
  proof -
    obtain n' m' where nm: "n = Suc n'" "m = Suc m'" using n m by (cases n; cases m) auto
    have v: "p_value n' t = p_value m' t" if "length t < length s" for t
      using that n m nm by (intro shorter(1)) auto
    have w: "p_members n' t = p_members m' t" if "length t < length s" for t
      using that n m nm by (intro shorter(3)) auto
    have len: "length r1 < length s \<and> length r3 < length s"
      if "skip_ws s = c # cs" "p_string cs = Some (k, r)" "skip_ws r = e # r1"
        "p_value m' r1 = Some (x, r2)" "skip_ws r2 = f # r3" for c cs k r e r1 x r2 f r3
      using that skip_ws_length [of s] skip_ws_length [of r] skip_ws_length [of r2]
        p_string_length [of cs] p_length(1) [of m' r1] by fastforce
    have len1: "length r1 < length s"
      if "skip_ws s = c # cs" "p_string cs = Some (k, r)" "skip_ws r = e # r1" for c cs k r e r1
      using that skip_ws_length [of s] skip_ws_length [of r] p_string_length [of cs] by fastforce
    show ?thesis
    proof (cases "skip_ws s")
      case (Cons c cs)
      show ?thesis
      proof (cases "p_string cs")
        case (Some kr)
        obtain k r where kr: "kr = (k, r)" by (cases kr)
        show ?thesis
        proof (cases "skip_ws r")
          case (Cons e r1)
          have "p_value n' r1 = p_value m' r1"
            by (rule v) (rule len1 [OF \<open>skip_ws s = c # cs\<close> Some [unfolded kr] Cons])
          then show ?thesis
            using \<open>skip_ws s = c # cs\<close> Some Cons nm kr
            by (auto split: option.splits list.splits intro!: arg_cong [where f = "map_option _"] w
                dest: len)
        qed (use \<open>skip_ws s = c # cs\<close> Some nm kr in simp)
      qed (use Cons nm in simp)
    qed (use nm in simp)
  qed
  show ?case using value_eq elems_eq members_eq by blast
qed

lemma p_value_fuel: "2 * length s + 1 \<le> n \<Longrightarrow> p_value n s = p_value (2 * length s + 1) s"
  using fuel_enough_all [of s] by blast

section \<open>Printing and parsing is the identity\<close>

lemma of_char_less [simp]: "(of_char c :: nat) < 256"
  by (cases c) (simp add: of_char_def horner_sum_simps)

lemma control_chars:
  "char_of (8 :: nat) = CHR 0x08" "char_of (9 :: nat) = CHR 0x09" "char_of (10 :: nat) = CHR 0x0A"
  "char_of (12 :: nat) = CHR 0x0C" "char_of (13 :: nat) = CHR 0x0D"
  by code_simp+

lemma p_string_escape_char:
  "p_string (json_escape_char c @ s) = map_option (\<lambda>(t, q). (c # t, q)) (p_string s)"
proof -
  let ?n = "of_char c :: nat"
  have ch: "c = char_of m" if "?n = m" for m using that by (metis char_of_char)
  show ?thesis
  proof (cases "c = c_quote \<or> c = c_bslash \<or> ?n \<in> {8, 9, 10, 12, 13}")
    case True
    then have "c \<in> {c_quote, c_bslash, CHR 0x08, CHR 0x09, CHR 0x0A, CHR 0x0C, CHR 0x0D}"
      by (auto dest: ch simp: control_chars)
    then show ?thesis
      by (elim insertE emptyE; simp add: json_escape_char_def simple_escape_def c_defs)
  next
    case False
    show ?thesis
    proof (cases "?n < 32 \<or> c = CHR ''<'' \<or> c = CHR ''>'' \<or> c = CHR ''&''")
      case True
      then have n: "?n < 64" by auto
      then have "hex4 (CHR ''0'') (CHR ''0'') (digit_char (?n div 16)) (digit_char (?n mod 16)) = Some ?n"
        by (simp add: hex4_def hex_val_def Let_def less_mult_imp_div_less
            hex_val_char [unfolded hex_val_def Let_def] del: hex_val_char)
      moreover have "json_escape_char c = [c_bslash, CHR ''u'', CHR ''0'', CHR ''0'',
          digit_char (?n div 16), digit_char (?n mod 16)]"
        using True False by (auto simp: json_escape_char_def Let_def)
      moreover have "utf8 ?n = [c]" using n by (simp add: utf8_def)
      ultimately show ?thesis using n
        by (simp add: c_defs)
    next
      case F: False
      with False have "json_escape_char c = [c]" by (auto simp: json_escape_char_def Let_def)
      with F False show ?thesis by simp
    qed
  qed
qed

lemma p_string_print: "p_string (concat (map json_escape_char s) @ c_quote # rest) = Some (s, rest)"
proof (induction s)
  case (Cons c s)
  show ?case by (simp add: p_string_escape_char Cons.IH)
qed simp

text \<open>
  Values the program writes: its only numbers are non-negative integers. A number must not be
  followed by a character that would extend it.
\<close>

fun json_plain :: "json \<Rightarrow> bool" where
  "json_plain (JNum t) \<longleftrightarrow> (\<exists>n. t = dec n)"
| "json_plain (JArr xs) \<longleftrightarrow> (\<forall>x \<in> set xs. json_plain x)"
| "json_plain (JObj kvs) \<longleftrightarrow> (\<forall>kv \<in> set kvs. json_plain (snd kv))"
| "json_plain _ \<longleftrightarrow> True"

definition num_end :: "string \<Rightarrow> bool" where
  "num_end s \<longleftrightarrow> (case s of [] \<Rightarrow> True
     | c # _ \<Rightarrow> \<not> is_digit c \<and> c \<noteq> CHR ''.'' \<and> c \<noteq> CHR ''e'' \<and> c \<noteq> CHR ''E'')"

lemma skip_ws_nl [simp]: "skip_ws (nl l @ s) = skip_ws s"
proof -
  have "\<forall>c \<in> set (nl l). is_ws c" by (auto simp: nl_def is_ws_def)
  then show ?thesis by (simp add: skip_ws_def dropWhile_append2)
qed

lemma skip_ws_cons: "\<not> is_ws c \<Longrightarrow> skip_ws (c # s) = c # s"
  by (simp add: skip_ws_def)

lemma not_ws [simp]:
  "\<not> is_ws c_quote" "\<not> is_ws (CHR '','')" "\<not> is_ws (CHR '':'')" "\<not> is_ws (CHR '']'')"
  "\<not> is_ws (CHR ''}'')" "\<not> is_ws (CHR ''['')" "\<not> is_ws (CHR ''{'')" "\<not> is_ws (CHR ''n'')"
  "\<not> is_ws (CHR ''t'')" "\<not> is_ws (CHR ''f'')"
  by (simp_all add: is_ws_def c_defs)

lemma is_digit_not: "is_digit c \<Longrightarrow> \<not> is_ws c \<and> c \<noteq> c_quote \<and> c \<noteq> CHR ''['' \<and> c \<noteq> CHR ''{'' \<and>
    c \<noteq> CHR ''n'' \<and> c \<noteq> CHR ''t'' \<and> c \<noteq> CHR ''f'' \<and> c \<noteq> CHR ''-''"
  by (auto simp: is_digit_def is_ws_def c_defs)

lemma hd_dec_zero: "hd (dec n) = CHR ''0'' \<Longrightarrow> dec n = ''0''"
proof (induction n rule: dec.induct)
  case (1 n)
  show ?case
  proof (cases "n < 10")
    case True
    then have "n = 0" using "1.prems" less_10_cases [OF True] by (auto simp: dec_1 digit_char_def)
    then show ?thesis by (simp add: dec_1 digit_char_def)
  next
    case False
    then have d: "dec n = dec (n div 10) @ [digit_char (n mod 10)]" by (subst dec.simps) simp
    then have "hd (dec (n div 10)) = CHR ''0''" using "1.prems" by simp
    with "1.IH" False have "dec (n div 10) = ''0''" by simp
    then have "undec 0 (dec (n div 10)) = Some 0" by (simp add: is_digit_def digit_val_def)
    with False show ?thesis by simp
  qed
qed

lemma p_number_dec: "num_end s \<Longrightarrow> p_number (dec n @ s) = Some (dec n, s)"
proof -
  assume e: "num_end s"
  obtain c cs where d: "dec n = c # cs" by (cases "dec n") auto
  then have dig: "is_digit c" "\<forall>x \<in> set (dec n). is_digit x" using dec_digits [of _ n] by auto
  have tw: "takeWhile is_digit (dec n @ s) = dec n" "dropWhile is_digit (dec n @ s) = s"
    using dig e by (auto simp: num_end_def takeWhile_append dropWhile_append split: list.splits)
  have "p_int (dec n @ s) = Some (dec n, s)"
  proof (cases "c = CHR ''0''")
    case True
    then have "dec n = ''0''" using hd_dec_zero [of n] d by simp
    then show ?thesis by (simp add: p_int_def)
  next
    case False
    then show ?thesis using tw d by (simp add: p_int_def p_digits1_def)
  qed
  moreover have "p_frac s = Some ([], s)" "p_exp s = Some ([], s)"
    using e by (auto simp: p_frac_def p_exp_def num_end_def split: list.splits)
  ultimately show ?thesis using dig is_digit_not [OF dig(1)] d
    by (simp add: p_number_def)
qed

lemma num_end_nl [simp]: "num_end (nl l @ s)" "num_end (CHR '','' # s)"
  by (simp_all add: num_end_def nl_def c_newline_def is_digit_def)

text \<open>Enough fuel parses a printed value and leaves what follows it.\<close>

definition parses :: "(nat \<Rightarrow> 'a option) \<Rightarrow> 'a \<Rightarrow> bool" where
  "parses f x \<longleftrightarrow> (\<exists>N. \<forall>n \<ge> N. f n = Some x)"

lemma parses_Suc: "parses (\<lambda>n. f (Suc n)) x \<Longrightarrow> parses f x"
  unfolding parses_def by (metis Suc_le_D Suc_le_mono)

lemma parses_const: "(\<And>n. f n = Some x) \<Longrightarrow> parses f x"
  by (simp add: parses_def)

lemma parses_from: "(\<And>n. N \<le> n \<Longrightarrow> f n = Some x) \<Longrightarrow> parses f x"
  by (auto simp: parses_def)

lemma parses_map: "parses f x \<Longrightarrow> parses (\<lambda>n. map_option g (f n)) (g x)"
  by (auto simp: parses_def)

lemma parses_elems:
  assumes "\<And>x rest. x \<in> set xs \<Longrightarrow> num_end rest \<Longrightarrow> parses (\<lambda>n. p_value n (pr x @ rest)) (x, rest)"
    and "xs \<noteq> []"
  shows "parses (\<lambda>n. p_elems n (join (CHR '','' # nl l) (map pr xs) @ nl l' @ CHR '']'' # rest)) (xs, rest)"
  using assms
proof (induction xs)
  case (Cons x xs)
  show ?case
  proof (cases xs)
    case Nil
    from Cons.prems(1) [of x "nl l' @ CHR '']'' # rest"]
    obtain N where "\<forall>n \<ge> N. p_value n (pr x @ nl l' @ CHR '']'' # rest) = Some (x, nl l' @ CHR '']'' # rest)"
      by (auto simp: parses_def)
    then show ?thesis
      by - (rule parses_Suc [OF parses_from [of N]], simp add: Nil skip_ws_cons)
  next
    case (Cons y ys)
    let ?tl = "join (CHR '','' # nl l) (map pr xs) @ nl l' @ CHR '']'' # rest"
    have j: "join (CHR '','' # nl l) (map pr (x # xs)) @ nl l' @ CHR '']'' # rest =
        pr x @ CHR '','' # nl l @ ?tl" by (simp add: Cons)
    from Cons.prems(1) [of x "CHR '','' # nl l @ ?tl"]
    obtain N where N: "\<forall>n \<ge> N. p_value n (pr x @ CHR '','' # nl l @ ?tl) = Some (x, CHR '','' # nl l @ ?tl)"
      by (auto simp: parses_def)
    have "p_elems n (nl l @ t) = p_elems n t" for n t
    proof (cases n)
      case (Suc m)
      have "p_value m (nl l @ t) = p_value m t" by (cases m) simp_all
      then show ?thesis using Suc by simp
    qed simp
    moreover obtain M where M: "\<forall>n \<ge> M. p_elems n ?tl = Some (xs, rest)"
      using Cons.IH Cons.prems Cons by (auto simp: parses_def)
    ultimately show ?thesis unfolding j using N
      by - (rule parses_Suc [OF parses_from [of "max N M"]], simp add: skip_ws_cons)
  qed
qed simp

lemma parses_members:
  assumes "\<And>k v rest. (k, v) \<in> set kvs \<Longrightarrow> num_end rest \<Longrightarrow> parses (\<lambda>n. p_value n (pr v @ rest)) (v, rest)"
    and "kvs \<noteq> []"
  shows "parses (\<lambda>n. p_members n
      (join (CHR '','' # nl l) (map (\<lambda>(k, v). print_string k @ '': '' @ pr v) kvs) @ nl l' @ CHR ''}'' # rest))
      (kvs, rest)"
  using assms
proof (induction kvs)
  case (Cons kv kvs)
  obtain k v where kv: "kv = (k, v)" by (cases kv)
  have sp: "p_value n (CHR '' '' # t) = p_value n t" for n t
    by (cases n) (simp_all add: skip_ws_def is_ws_def)
  have key: "skip_ws (print_string k @ t) = c_quote # concat (map json_escape_char k) @ c_quote # t" for t
    by (simp add: print_string_def skip_ws_cons)
  show ?case
  proof (cases kvs)
    case Nil
    from Cons.prems(1) [of k v "nl l' @ CHR ''}'' # rest"]
    obtain N where "\<forall>n \<ge> N. p_value n (pr v @ nl l' @ CHR ''}'' # rest) = Some (v, nl l' @ CHR ''}'' # rest)"
      by (auto simp: parses_def kv)
    then show ?thesis
      by - (rule parses_Suc [OF parses_from [of N]],
          simp add: Nil kv key sp p_string_print skip_ws_cons)
  next
    case (Cons y ys)
    let ?f = "\<lambda>(k, v). print_string k @ '': '' @ pr v"
    let ?tl = "join (CHR '','' # nl l) (map ?f kvs) @ nl l' @ CHR ''}'' # rest"
    have j: "join (CHR '','' # nl l) (map ?f (kv # kvs)) @ nl l' @ CHR ''}'' # rest =
        print_string k @ '': '' @ pr v @ CHR '','' # nl l @ ?tl" by (simp add: Cons kv)
    from Cons.prems(1) [of k v "CHR '','' # nl l @ ?tl"]
    obtain N where N: "\<forall>n \<ge> N. p_value n (pr v @ CHR '','' # nl l @ ?tl) = Some (v, CHR '','' # nl l @ ?tl)"
      by (auto simp: parses_def kv)
    have "p_members n (nl l @ t) = p_members n t" for n t
      by (cases n) simp_all
    moreover have "parses (\<lambda>n. p_members n ?tl) (kvs, rest)"
      by (rule Cons.IH) (use Cons.prems(1) Cons in auto)
    then obtain M where M: "\<forall>n \<ge> M. p_members n ?tl = Some (kvs, rest)"
      unfolding parses_def by blast
    ultimately show ?thesis unfolding j using N
      by - (rule parses_Suc [OF parses_from [of "max N M"]],
          simp add: key sp p_string_print skip_ws_cons kv)
  qed
qed simp

lemma print_json_head:
  "json_plain j \<Longrightarrow> \<exists>c cs. print_json l j = c # cs \<and> \<not> is_ws c \<and> c \<noteq> CHR '']''"
proof (cases j)
  case (JNum t)
  assume "json_plain j"
  with JNum obtain k where t: "t = dec k" by auto
  obtain c cs where d: "dec k = c # cs" by (cases "dec k") auto
  then have "is_digit c" using dec_digits [of c k] by simp
  moreover from this have "c \<noteq> CHR '']''" by (auto simp: is_digit_def)
  ultimately show ?thesis using is_digit_not [of c] d t JNum by simp
next
  case (JArr xs)
  then show ?thesis by (cases "xs = []") (simp_all add: is_ws_def c_newline_def)
next
  case (JObj kvs)
  then show ?thesis by (cases "kvs = []") (simp_all add: is_ws_def c_newline_def)
next
  case (JBool b)
  then show ?thesis by (cases b) (simp_all add: is_ws_def c_newline_def)
qed (simp_all add: print_string_def c_quote_def is_ws_def c_newline_def)

lemma parses_print:
  "json_plain j \<Longrightarrow> num_end rest \<Longrightarrow> parses (\<lambda>n. p_value n (print_json l j @ rest)) (j, rest)"
proof (induction j arbitrary: l rest)
  case (JNum t)
  then obtain k where t: "t = dec k" by auto
  obtain c cs where d: "dec k = c # cs" by (cases "dec k") auto
  then have "is_digit c" using dec_digits [of c k] by simp
  then have "p_value (Suc n) (dec k @ rest) = Some (JNum t, rest)" for n
    using is_digit_not [of c] p_number_dec [OF JNum.prems(2), of k] d
    by (simp add: skip_ws_cons t)
  then show ?case by (intro parses_Suc [OF parses_const]) (simp add: t)
next
  case (JStr s)
  show ?case
    by (rule parses_Suc [OF parses_const]) (simp add: print_string_def skip_ws_cons p_string_print)
next
  case (JArr xs)
  show ?case
  proof (cases xs)
    case Nil
    then show ?thesis
      by (intro parses_Suc [OF parses_const]) (simp add: skip_ws_cons c_quote_def)
  next
    case (Cons x ys)
    let ?b = "join (CHR '','' # nl (l + 1)) (map (print_json (l + 1)) xs) @ nl l @ CHR '']'' # rest"
    have "parses (\<lambda>n. p_elems n ?b) (xs, rest)"
      by (rule parses_elems) (use JArr Cons in auto)
    then obtain N where N: "\<forall>n \<ge> N. p_elems n ?b = Some (xs, rest)" unfolding parses_def by blast
    obtain c cs where c: "?b = c # cs" "\<not> is_ws c" "c \<noteq> CHR '']''"
      using print_json_head [of x "l + 1"] JArr.prems Cons by (cases ys) auto
    have e: "p_elems n (nl (l + 1) @ t) = p_elems n t" for n t
    proof (cases n)
      case (Suc m)
      have "p_value m (nl (l + 1) @ t) = p_value m t" by (cases m) (simp_all del: nl_def)
      then show ?thesis using Suc by simp
    qed simp
    have "print_json l (JArr xs) @ rest = CHR ''['' # nl (l + 1) @ ?b" by (simp add: Cons)
    moreover have "p_value (Suc n) (CHR ''['' # nl (l + 1) @ ?b) = Some (JArr xs, rest)" if "N \<le> n" for n
      using that N c e [of n ?b] by (simp add: skip_ws_cons c_quote_def)
    ultimately show ?thesis
      by (intro parses_Suc [OF parses_from [of N]]) simp
  qed
next
  case (JObj kvs)
  show ?case
  proof (cases kvs)
    case Nil
    then show ?thesis
      by (intro parses_Suc [OF parses_const]) (simp add: skip_ws_cons c_quote_def)
  next
    case (Cons x ys)
    let ?f = "\<lambda>(k, v). print_string k @ '': '' @ print_json (l + 1) v"
    let ?b = "join (CHR '','' # nl (l + 1)) (map ?f kvs) @ nl l @ CHR ''}'' # rest"
    have "parses (\<lambda>n. p_members n ?b) (kvs, rest)"
      by (rule parses_members) (use JObj Cons in \<open>force+\<close>)
    then obtain N where N: "\<forall>n \<ge> N. p_members n ?b = Some (kvs, rest)" unfolding parses_def by blast
    obtain cs where c: "?b = c_quote # cs"
      using Cons by (cases x; cases ys) (auto simp: print_string_def)
    have e: "p_members n (nl (l + 1) @ t) = p_members n t" for n t
      by (cases n) simp_all
    have b: "skip_ws (nl (l + 1) @ ?b) = c_quote # cs" "c_quote \<noteq> CHR ''}''"
      "CHR ''{'' \<noteq> c_quote" "skip_ws (CHR ''{'' # t) = CHR ''{'' # t" for t
      unfolding c by (simp_all add: skip_ws_cons) (simp_all add: c_quote_def)
    have "print_json l (JObj kvs) @ rest = CHR ''{'' # nl (l + 1) @ ?b" by (simp add: Cons)
    moreover have "p_value (Suc n) (CHR ''{'' # nl (l + 1) @ ?b) = Some (JObj kvs, rest)" if "N \<le> n" for n
      using N [rule_format, OF that] e [of n ?b] b
      by (simp only: p_value.simps list.case prod.case if_False if_True char.inject HOL.simp_thms
          option.map refl if_not_P)
    ultimately show ?thesis
      by (intro parses_Suc [OF parses_from [of N]]) simp
  qed
qed (rule parses_Suc [OF parses_const], simp add: skip_ws_cons c_quote_def p_lit_def)+

lemma json_parse_marshal: "json_plain j \<Longrightarrow> json_parse (json_marshal_indent j) = Some j"
proof -
  assume p: "json_plain j"
  let ?s = "print_json 0 j"
  obtain N where N: "\<forall>n \<ge> N. p_value n ?s = Some (j, [])"
    using parses_print [OF p, of "[]" 0] by (auto simp: parses_def num_end_def)
  have "p_value (2 * length ?s + 1) ?s = p_value (max N (2 * length ?s + 1)) ?s"
    using p_value_fuel [of ?s "max N (2 * length ?s + 1)"] by simp
  also have "\<dots> = Some (j, [])" using N by simp
  finally show ?thesis by (simp add: json_parse_def json_marshal_indent_def skip_ws_def)
qed

section \<open>Decoding into structs\<close>

text \<open>
  A field name matches a key up to the case of ASCII letters. A later member overwrites an
  earlier one, \<open>null\<close> leaves the field alone, a value of another type makes \<open>Unmarshal\<close>
  return an error (\<open>None\<close>), and members that name no field are skipped.
\<close>

definition lower_ascii :: "char \<Rightarrow> char" where
  "lower_ascii c = (let n = (of_char c :: nat) in if 65 \<le> n \<and> n \<le> 90 then char_of (n + 32) else c)"

definition field_is :: "string \<Rightarrow> string \<Rightarrow> bool" where
  "field_is name k \<longleftrightarrow> map lower_ascii k = map lower_ascii name"

definition json_string :: "json \<Rightarrow> string \<Rightarrow> string option" where
  "json_string v cur = (case v of JStr s \<Rightarrow> Some s | JNull \<Rightarrow> Some cur | _ \<Rightarrow> None)"

fun json_strings :: "json list \<Rightarrow> string list option" where
  "json_strings [] = Some []"
| "json_strings (v # vs) = do { s \<leftarrow> json_string v []; ss \<leftarrow> json_strings vs; Some (s # ss) }"

text \<open>A slice of strings: \<open>null\<close> is the nil slice.\<close>

definition json_string_slice :: "json \<Rightarrow> string list option" where
  "json_string_slice v = (case v of JArr vs \<Rightarrow> json_strings vs | JNull \<Rightarrow> Some [] | _ \<Rightarrow> None)"

fun decode_field :: "(json \<Rightarrow> 'a \<Rightarrow> 'a option) \<Rightarrow> string \<Rightarrow> (string \<times> json) list \<Rightarrow> 'a \<Rightarrow> 'a option" where
  "decode_field dc name [] cur = Some cur"
| "decode_field dc name ((k, v) # ms) cur =
     (if field_is name k then do { x \<leftarrow> dc v cur; decode_field dc name ms x }
      else decode_field dc name ms cur)"

definition members_of :: "json \<Rightarrow> (string \<times> json) list option" where
  "members_of v = (case v of JObj ms \<Rightarrow> Some ms | JNull \<Rightarrow> Some [] | _ \<Rightarrow> None)"

lemma json_strings_map [simp]: "json_strings (map JStr ss) = Some ss"
  by (induction ss) (simp_all add: json_string_def)

definition json_bool :: "json \<Rightarrow> bool \<Rightarrow> bool option" where
  "json_bool v cur = (case v of JBool b \<Rightarrow> Some b | JNull \<Rightarrow> Some cur | _ \<Rightarrow> None)"

text \<open>A slice of structs: \<open>null\<close> is the nil slice, and a \<open>null\<close> element the zero struct.\<close>

fun decode_all :: "(json \<Rightarrow> 'a option) \<Rightarrow> json list \<Rightarrow> 'a list option" where
  "decode_all dc [] = Some []"
| "decode_all dc (v # vs) = do { x \<leftarrow> dc v; xs \<leftarrow> decode_all dc vs; Some (x # xs) }"

definition decode_slice :: "(json \<Rightarrow> 'a option) \<Rightarrow> json \<Rightarrow> 'a list \<Rightarrow> 'a list option" where
  "decode_slice dc v cur = (case v of JArr vs \<Rightarrow> decode_all dc vs | JNull \<Rightarrow> Some [] | _ \<Rightarrow> None)"

definition string_slice :: "json \<Rightarrow> string list \<Rightarrow> string list option" where
  "string_slice v cur = json_string_slice v"

lemma decode_all_map: "(\<And>x. dc (f x) = Some x) \<Longrightarrow> decode_all dc (map f xs) = Some xs"
  by (induction xs) simp_all

lemma decode_slice_map: "(\<And>x. dc (f x) = Some x) \<Longrightarrow> decode_slice dc (JArr (map f xs)) cur = Some xs"
  by (simp add: decode_slice_def decode_all_map)

lemma string_slice_map [simp]: "string_slice (JArr (map JStr ss)) cur = Some ss"
  by (simp add: string_slice_def json_string_slice_def)

end
