(* ===== verification/Go_Time.thy ===== *)
theory Go_Time
  imports Prelude
begin

text \<open>
  Go's \<open>time\<close> as the lease file uses it: the proleptic Gregorian calendar,
  \<open>Format(time.RFC3339)\<close> and \<open>Parse(time.RFC3339, _)\<close>. Formatting drops the fraction of a
  second and writes the offset of the instant's location, which is an argument (in seconds).
  Parsing accepts what the library accepts: a one-digit hour, a fraction after the seconds, an
  offset up to \<open>24:60\<close>. Parsing a formatted instant gives it back, cut to the second.
\<close>

section \<open>The calendar\<close>

text \<open>
  Days are counted from 1 March of year 0 in cycles of 400 years; a year of the count starts in
  March, so the leap day is its last. \<open>march_year\<close> gives the year and the day in it.
\<close>

definition march_year :: "int \<Rightarrow> int \<times> int" where
  "march_year d =
     (let era = d div 146097; doe = d mod 146097;
          c = min 3 (doe div 36524); doc = doe - c * 36524;
          q = doc div 1461; doq = doc - q * 1461;
          a = min 3 (doq div 365)
      in (400 * era + 100 * c + 4 * q + a, doq - a * 365))"

definition march_days :: "int \<Rightarrow> int \<Rightarrow> int" where
  "march_days y doy = 365 * y + y div 4 - y div 100 + y div 400 + doy"

text \<open>Month (0 is March) and day of the month of a day of the year.\<close>

definition march_month :: "int \<Rightarrow> int \<times> int" where
  "march_month doy =
     (let m = (5 * doy + 2) div 153 in (m, doy - (153 * m + 2) div 5 + 1))"

definition civil_of_days :: "int \<Rightarrow> int \<times> int \<times> int" where
  "civil_of_days z =
     (let (y, doy) = march_year (z + 719468); (mp, d) = march_month doy
      in if mp < 10 then (y, mp + 3, d) else (y + 1, mp - 9, d))"

definition days_of_civil :: "int \<Rightarrow> int \<Rightarrow> int \<Rightarrow> int" where
  "days_of_civil y m d =
     (let (y', mp) = (if m \<le> 2 then (y - 1, m + 9) else (y, m - 3))
      in march_days y' ((153 * mp + 2) div 5 + d - 1) - 719468)"

definition is_leap :: "int \<Rightarrow> bool" where
  "is_leap y \<longleftrightarrow> y mod 4 = 0 \<and> (y mod 100 \<noteq> 0 \<or> y mod 400 = 0)"

definition days_in :: "int \<Rightarrow> int \<Rightarrow> int" where
  "days_in m y =
     (if m = 2 then (if is_leap y then 29 else 28)
      else if m = 4 \<or> m = 6 \<or> m = 9 \<or> m = 11 then 30 else 31)"

section \<open>Formatting\<close>

definition pad :: "nat \<Rightarrow> nat \<Rightarrow> string" where
  "pad w n = replicate (w - length (dec n)) (CHR ''0'') @ dec n"

definition append_int :: "int \<Rightarrow> nat \<Rightarrow> string" where
  "append_int x w = (if x < 0 then CHR ''-'' # pad w (nat (- x)) else pad w (nat x))"

definition zone_text :: "int \<Rightarrow> string" where
  "zone_text off =
     (if off = 0 then ''Z''
      else (let zn = \<bar>off\<bar> div 60 in
            (if off < 0 \<and> zn \<noteq> 0 then CHR ''-'' else CHR ''+'') #
            pad 2 (nat (zn div 60)) @ '':'' @ pad 2 (nat (zn mod 60))))"

text \<open>Date and time up to the second; the fraction of RFC3339Nano, without trailing zeros.\<close>

definition format_seconds :: "int \<Rightarrow> time \<Rightarrow> string" where
  "format_seconds off t =
     (let s = t div second + off;
          (y, m, d) = civil_of_days (s div 86400);
          sod = s mod 86400
      in append_int y 4 @ ''-'' @ pad 2 (nat m) @ ''-'' @ pad 2 (nat d) @ ''T'' @
         pad 2 (nat (sod div 3600)) @ '':'' @ pad 2 (nat (sod div 60 mod 60)) @ '':'' @
         pad 2 (nat (sod mod 60)))"

definition trim_zeros :: "string \<Rightarrow> string" where
  "trim_zeros s = rev (dropWhile (\<lambda>c. c = CHR ''0'') (rev s))"

definition fraction_text :: "int \<Rightarrow> string" where
  "fraction_text ns = (if ns = 0 then [] else CHR ''.'' # trim_zeros (pad 9 (nat ns)))"

definition format_rfc3339 :: "int \<Rightarrow> time \<Rightarrow> string" where
  "format_rfc3339 off t = format_seconds off t @ zone_text off"

definition format_rfc3339_nano :: "int \<Rightarrow> time \<Rightarrow> string" where
  "format_rfc3339_nano off t = format_seconds off t @ fraction_text (t mod second) @ zone_text off"

section \<open>Parsing\<close>

definition lit :: "char \<Rightarrow> string \<Rightarrow> string option" where
  "lit c s = (case s of [] \<Rightarrow> None | x # xs \<Rightarrow> if x = c then Some xs else None)"

text \<open>\<open>getnum\<close>: two digits, or one when the layout does not fix the width.\<close>

definition getnum :: "bool \<Rightarrow> string \<Rightarrow> (nat \<times> string) option" where
  "getnum fixed s =
     (case s of
        [] \<Rightarrow> None
      | a # r \<Rightarrow>
          if \<not> is_digit a then None
          else (case r of
                  b # r' \<Rightarrow> if is_digit b then Some (digit_val a * 10 + digit_val b, r')
                            else if fixed then None else Some (digit_val a, r)
                | [] \<Rightarrow> if fixed then None else Some (digit_val a, [])))"

definition in_range :: "nat \<Rightarrow> nat \<Rightarrow> nat \<times> string \<Rightarrow> (nat \<times> string) option" where
  "in_range lo hi p = (if lo \<le> fst p \<and> fst p \<le> hi then Some p else None)"

definition get_year :: "string \<Rightarrow> (nat \<times> string) option" where
  "get_year s =
     (if length s < 4 then None else map_option (\<lambda>n. (n, drop 4 s)) (undec 0 (take 4 s)))"

text \<open>A fraction after the seconds, in nanoseconds; digits past the ninth are ignored.\<close>

definition get_fraction :: "string \<Rightarrow> int \<times> string" where
  "get_fraction s =
     (case s of
        c # r \<Rightarrow>
          (let ds = takeWhile is_digit r in
           if (c = CHR ''.'' \<or> c = CHR '','') \<and> ds \<noteq> []
           then (int (the (undec 0 (take 9 ds))) * 10 ^ (9 - length (take 9 ds)), dropWhile is_digit r)
           else (0, s))
      | [] \<Rightarrow> (0, s))"

definition get_zone :: "string \<Rightarrow> (int \<times> string) option" where
  "get_zone s =
     (case s of
        [] \<Rightarrow> None
      | sg # r \<Rightarrow>
          if sg = CHR ''Z'' then Some (0, r)
          else do { (h, r1) \<leftarrow> Option.bind (getnum True r) (in_range 0 24);
                    r2 \<leftarrow> lit (CHR '':'') r1;
                    (m, r3) \<leftarrow> Option.bind (getnum True r2) (in_range 0 60);
                    if sg = CHR ''+'' then Some ((int h * 60 + int m) * 60, r3)
                    else if sg = CHR ''-'' then Some (- ((int h * 60 + int m) * 60), r3)
                    else None })"

definition parse_rfc3339 :: "string \<Rightarrow> time option" where
  "parse_rfc3339 s0 =
     do { (y, s) \<leftarrow> get_year s0; s \<leftarrow> lit (CHR ''-'') s;
          (mo, s) \<leftarrow> Option.bind (getnum True s) (in_range 1 12); s \<leftarrow> lit (CHR ''-'') s;
          (d, s) \<leftarrow> getnum True s; s \<leftarrow> lit (CHR ''T'') s;
          (h, s) \<leftarrow> Option.bind (getnum False s) (in_range 0 23); s \<leftarrow> lit (CHR '':'') s;
          (mi, s) \<leftarrow> Option.bind (getnum True s) (in_range 0 59); s \<leftarrow> lit (CHR '':'') s;
          (se, s) \<leftarrow> Option.bind (getnum True s) (in_range 0 59);
          let (ns, s) = get_fraction s;
          (off, s) \<leftarrow> get_zone s;
          if s \<noteq> [] then None
          else if d < 1 \<or> days_in (int mo) (int y) < int d then None
          else Some ((days_of_civil (int y) (int mo) (int d) * 86400
                        + (int h * 3600 + int mi * 60 + int se) - off) * second + ns) }"

section \<open>The calendar is inverted\<close>

lemma march_year_ok:
  assumes "march_year d = (y, doy)"
  shows "march_days y doy = d" and "0 \<le> doy" and "doy \<le> 365" and "doy = 365 \<Longrightarrow> is_leap (y + 1)"
proof -
  define era doe where "era = d div 146097" and "doe = d mod 146097"
  define c where "c = min 3 (doe div 36524)"
  define doc where "doc = doe - c * 36524"
  define q where "q = doc div 1461"
  define doq where "doq = doc - q * 1461"
  define a where "a = min 3 (doq div 365)"
  have "(y, doy) = (400 * era + 100 * c + 4 * q + a, doq - a * 365)"
    unfolding assms [symmetric] march_year_def Let_def era_def doe_def c_def doc_def q_def doq_def a_def ..
  then have y: "y = 400 * era + 100 * c + 4 * q + a" and doy: "doy = doq - a * 365" by blast+
  have d: "d = 146097 * era + doe" by (simp add: era_def doe_def)
  have doe: "0 \<le> doe" "doe < 146097" by (simp_all add: doe_def)
  have c: "0 \<le> c" "c \<le> 3" "0 \<le> doc" "doc \<le> 36524" "c < 3 \<Longrightarrow> doc < 36524"
    using doe by (auto simp: c_def doc_def min_def split: if_splits)
  have q: "0 \<le> q" "q \<le> 24" "0 \<le> doq" "doq \<le> 1460" using c by (simp_all add: q_def doq_def)
  have a: "0 \<le> a" "a \<le> 3" "0 \<le> doy" "doy \<le> 365" "doy = 365 \<Longrightarrow> a = 3"
    using q by (auto simp: a_def doy min_def split: if_splits)
  have "y div 4 = 100 * era + 25 * c + q" using y q a by linarith
  moreover have "y div 100 = 4 * era + c" using y q a by linarith
  moreover have "y div 400 = era" using y c q a by linarith
  ultimately have "march_days y doy = 146097 * era + 36524 * c + 1461 * q + 365 * a + doy"
    using y by (simp add: march_days_def)
  then show "march_days y doy = d" using d by (simp add: doy doq_def doc_def)
  show "0 \<le> doy" "doy \<le> 365" using a by auto
  show "is_leap (y + 1)" if "doy = 365"
  proof -
    have a3: "a = 3" using a(5) that .
    then have y1: "y + 1 = 400 * era + 100 * c + 4 * (q + 1)" using y by simp
    have doq: "doq = 1460" using doy that a3 by simp
    have "y + 1 = 4 * (100 * era + 25 * c + q + 1)" using y1 by simp
    then have "(y + 1) mod 4 = 0" by simp
    moreover have "(y + 1) mod 100 \<noteq> 0 \<or> (y + 1) mod 400 = 0"
    proof (cases "q = 24")
      case True
      then have "doc = 36524" using doq by (simp add: doq_def)
      then have "c = 3" using c by fastforce
      then have "y + 1 = 400 * (era + 1)" using y1 True by simp
      then have "(y + 1) mod 400 = 0" by (simp only: mod_mult_self1_is_0)
      then show ?thesis ..
    next
      case False
      have "y + 1 = 4 * (q + 1) + 100 * (4 * era + c)" using y1 by simp
      then have "(y + 1) mod 100 = 4 * (q + 1) mod 100" by (simp only: mod_mult_self2)
      then show ?thesis using q False by simp
    qed
    ultimately show ?thesis by (simp add: is_leap_def)
  qed
qed

definition month_ok :: "int \<Rightarrow> bool" where
  "month_ok doy = (case march_month doy of (mp, d) \<Rightarrow> 0 \<le> mp \<and> mp \<le> 11 \<and> 1 \<le> d \<and>
     (153 * mp + 2) div 5 + d - 1 = doy \<and>
     d \<le> (if mp = 11 then (if doy = 365 then 29 else 28)
          else if mp \<in> {1, 3, 6, 8} then 30 else 31))"

lemma month_ok_all: "\<forall>doy \<in> set [0..365]. month_ok doy"
  by code_simp

lemma civil_of_days_ok:
  assumes "civil_of_days z = (y, m, d)"
  shows "days_of_civil y m d = z" and "1 \<le> m" and "m \<le> 12" and "1 \<le> d" and "d \<le> days_in m y"
    and "d \<le> 31"
proof -
  obtain y' doy where my: "march_year (z + 719468) = (y', doy)" by fastforce
  note ok = march_year_ok [OF my]
  obtain mp d' where mm: "march_month doy = (mp, d')" by fastforce
  have "doy \<in> set [0..365]" using ok by simp
  then have "month_ok doy" using month_ok_all by blast
  then have mo: "0 \<le> mp" "mp \<le> 11" "1 \<le> d'" "(153 * mp + 2) div 5 + d' - 1 = doy"
    "d' \<le> (if mp = 11 then (if doy = 365 then 29 else 28) else if mp \<in> {1, 3, 6, 8} then 30 else 31)"
    by (simp_all add: month_ok_def mm)
  have eq: "(y, m, d) = (if mp < 10 then (y', mp + 3, d') else (y' + 1, mp - 9, d'))"
    using assms by (simp add: civil_of_days_def my mm)
  have m: "mp = (if m \<le> 2 then m + 9 else m - 3)" "y' = (if m \<le> 2 then y - 1 else y)" "d' = d"
    using eq mo by (auto split: if_splits)
  show "days_of_civil y m d = z"
    using m mo(4) ok(1) by (auto simp: days_of_civil_def split: if_splits)
  show "1 \<le> m" "m \<le> 12" "1 \<le> d" using eq mo by (auto split: if_splits)
  show "d \<le> days_in m y"
  proof (cases "m \<le> 2")
    case True
    then have "mp = m + 9" "y' + 1 = y" using m by auto
    then show ?thesis using True mo(5) m(3) ok(4) \<open>1 \<le> m\<close> by (auto simp: days_in_def split: if_splits)
  next
    case False
    then show ?thesis using mo(5) m \<open>m \<le> 12\<close> by (auto simp: days_in_def split: if_splits)
  qed
  show "d \<le> 31" using mo(5) m(3) by (auto split: if_splits)
qed

section \<open>Texts of fixed width\<close>

lemma undec_zeros: "undec 0 (replicate k (CHR ''0'') @ s) = undec 0 s"
  by (induction k) (simp_all add: is_digit_def digit_val_def)

lemma length_dec_le: "n < 10 ^ k \<Longrightarrow> 0 < k \<Longrightarrow> length (dec n) \<le> k"
proof (induction k arbitrary: n)
  case (Suc k)
  show ?case
  proof (cases "n < 10")
    case False
    then have "k \<noteq> 0" using Suc.prems by (cases k) auto
    moreover have "n div 10 < 10 ^ k" using Suc.prems(1) by (simp add: less_mult_imp_div_less mult.commute)
    ultimately have "length (dec (n div 10)) \<le> k" using Suc.IH by blast
    then show ?thesis using False by (subst dec.simps) simp
  qed (simp add: dec_1)
qed simp

lemma pad_text:
  assumes "n < 10 ^ w" and "0 < w"
  shows "length (pad w n) = w" and "undec 0 (pad w n) = Some n" and "\<forall>c \<in> set (pad w n). is_digit c"
  using length_dec_le [OF assms]
  by (auto simp: pad_def undec_zeros dest: dec_digits) (simp add: is_digit_def)

lemma get_year_pad: "n < 10000 \<Longrightarrow> get_year (pad 4 n @ s) = Some (n, s)"
  using pad_text [of n 4] by (simp add: get_year_def)

lemma getnum_pad: "n < 100 \<Longrightarrow> getnum f (pad 2 n @ s) = Some (n, s)"
proof -
  assume n: "n < 100"
  then have len: "length (pad 2 n) = 2" and val: "undec 0 (pad 2 n) = Some n"
    and dig: "\<forall>c \<in> set (pad 2 n). is_digit c" using pad_text [of n 2] by auto
  obtain a b where ab: "pad 2 n = [a, b]" using len by (auto simp: length_Suc_conv numeral_eq_Suc)
  then have "is_digit a" "is_digit b" "digit_val a * 10 + digit_val b = n" using val dig by auto
  then show ?thesis by (simp add: getnum_def ab)
qed

lemma lit_cons [simp]: "lit c (c # s) = Some s"
  by (simp add: lit_def)

lemma get_fraction_none: "s = [] \<or> (hd s \<noteq> CHR ''.'' \<and> hd s \<noteq> CHR '','') \<Longrightarrow> get_fraction s = (0, s)"
  by (cases s) (auto simp: get_fraction_def)

text \<open>Offsets of whole minutes up to a day survive.\<close>

definition offset_ok :: "int \<Rightarrow> bool" where
  "offset_ok off \<longleftrightarrow> off mod 60 = 0 \<and> \<bar>off\<bar> < 86400"

lemma get_zone_text:
  assumes "offset_ok off"
  shows "get_zone (zone_text off) = Some (off, [])"
    and "hd (zone_text off) \<noteq> CHR ''.'' \<and> hd (zone_text off) \<noteq> CHR '',''"
proof -
  define zn where "zn = \<bar>off\<bar> div 60"
  have abs: "zn * 60 = \<bar>off\<bar>" and lt: "0 \<le> zn" "zn < 1440"
    using assms by (auto simp: offset_ok_def zn_def abs_if split: if_splits)
  define H M where "H = nat (zn div 60)" and "M = nat (zn mod 60)"
  have hm: "H < 24" "M < 60" and "int H * 60 + int M = zn" using lt by (auto simp: H_def M_def)
  then have o: "int H * 3600 + int M * 60 = \<bar>off\<bar>" using abs by linarith
  have g: "getnum True (pad 2 H @ s) = Some (H, s)" "getnum True (pad 2 M) = Some (M, [])" for s
    using getnum_pad [of H True s] getnum_pad [of M True "[]"] hm by auto
  show "get_zone (zone_text off) = Some (off, [])"
  proof (cases "off = 0")
    case True
    then show ?thesis by (simp add: get_zone_def zone_text_def)
  next
    case False
    then have "zn \<noteq> 0" using abs by auto
    then have zt: "zone_text off = (if off < 0 then CHR ''-'' else CHR ''+'') # pad 2 H @ CHR '':'' # pad 2 M"
      using False by (simp add: zone_text_def Let_def zn_def [symmetric] H_def [symmetric] M_def [symmetric])
    have "get_zone (zone_text off) = Some ((if off < 0 then - 1 else 1) * (int H * 3600 + int M * 60), [])"
      using hm unfolding zt by (simp add: get_zone_def g in_range_def)
    then show ?thesis unfolding o by (simp split: if_splits)
  qed
  show "hd (zone_text off) \<noteq> CHR ''.'' \<and> hd (zone_text off) \<noteq> CHR '',''"
    by (simp add: zone_text_def Let_def)
qed

definition year_ok :: "int \<Rightarrow> time \<Rightarrow> bool" where
  "year_ok off t \<longleftrightarrow> (case civil_of_days ((t div second + off) div 86400) of
     (y, _) \<Rightarrow> 0 \<le> y \<and> y \<le> 9999)"

lemma undec_many_zeros: "undec acc (replicate k (CHR ''0'')) = Some (acc * 10 ^ k)"
  by (induction k arbitrary: acc) (auto simp: is_digit_def digit_val_def algebra_simps)

lemma undec_trailing: "undec acc (s @ replicate k (CHR ''0'')) = map_option (\<lambda>n. n * 10 ^ k) (undec acc s)"
  by (auto simp: undec_append undec_many_zeros split: option.splits)

lemma trim_zeros_split: "\<exists>k. s = trim_zeros s @ replicate k (CHR ''0'')"
proof -
  have "rev s = takeWhile (\<lambda>c. c = CHR ''0'') (rev s) @ dropWhile (\<lambda>c. c = CHR ''0'') (rev s)" by simp
  then have "s = trim_zeros s @ rev (takeWhile (\<lambda>c. c = CHR ''0'') (rev s))"
    unfolding trim_zeros_def by (metis rev_append rev_rev_ident)
  moreover have "takeWhile (\<lambda>c. c = CHR ''0'') xs = replicate (length (takeWhile (\<lambda>c. c = CHR ''0'') xs)) (CHR ''0'')"
    for xs by (induction xs) auto
  ultimately show ?thesis by (metis rev_replicate)
qed

lemma get_fraction_text:
  assumes "0 \<le> ns" and "ns < second" and z: "s = [] \<or> \<not> is_digit (hd s) \<and> hd s \<noteq> CHR ''.'' \<and> hd s \<noteq> CHR '',''"
  shows "get_fraction (fraction_text ns @ s) = (ns, s)"
proof (cases "ns = 0")
  case True
  then show ?thesis using z get_fraction_none [of s] by (auto simp: fraction_text_def)
next
  case False
  let ?p = "pad 9 (nat ns)"
  define ds where "ds = trim_zeros ?p"
  obtain k where k: "?p = ds @ replicate k (CHR ''0'')" using trim_zeros_split [of ?p] ds_def by blast
  have "nat ns < 10 ^ 9" using assms(1,2) by (simp add: second_def nat_less_iff)
  note p = pad_text [OF this, simplified]
  have len: "length ?p = 9" and dig: "\<forall>c \<in> set ?p. is_digit c" and "undec 0 ?p = Some (nat ns)"
    using p by simp_all
  then obtain n where n: "undec 0 ds = Some n" "n * 10 ^ k = nat ns" unfolding k undec_trailing by auto
  have ne: "ds \<noteq> []" using n False assms(1) by auto
  have kl: "k = 9 - length ds" "length ds \<le> 9" using arg_cong [OF k, of length] len by simp_all
  have dd: "\<forall>c \<in> set ds. is_digit c" using dig k by (metis UnCI set_append)
  have tw: "takeWhile is_digit (ds @ s) = ds" "dropWhile is_digit (ds @ s) = s"
    using dd z by (cases s; simp add: takeWhile_append2 dropWhile_append2)+
  have "int n * 10 ^ k = ns" using arg_cong [OF n(2), of int] assms(1) by simp
  then show ?thesis using False ne kl tw n
    by (simp add: fraction_text_def get_fraction_def ds_def [symmetric] Let_def)
qed

lemma parse_civil:
  assumes zo: "offset_ok off" and "year_ok off t" and fr: "get_fraction rest = (ns, zone_text off)"
  shows "parse_rfc3339 (format_seconds off t @ rest) = Some (t div second * second + ns)"
proof -
  define s where "s = t div second + off"
  obtain y m d where c: "civil_of_days (s div 86400) = (y, m, d)" using prod_cases3 by blast
  note ok = civil_of_days_ok [OF c]
  have y: "0 \<le> y" "y \<le> 9999" using assms(2) c by (simp_all add: year_ok_def s_def)
  define sod where "sod = s mod 86400"
  have sod: "0 \<le> sod" "sod < 86400" by (simp_all add: sod_def)
  define h mi se where "h = nat (sod div 3600)" and "mi = nat (sod div 60 mod 60)" and "se = nat (sod mod 60)"
  have "sod div 60 div 60 * 60 + int mi = sod div 60" and "sod div 60 * 60 + int se = sod"
    by (simp_all add: mi_def se_def)
  moreover have h: "int h = sod div 60 div 60"
    using sod by (simp add: h_def zdiv_zmult2_eq [of 60 sod 60, simplified])
  ultimately have hms: "int h * 3600 + int mi * 60 + int se = sod" by linarith
  have bounds: "h < 24" "mi < 60" "se < 60" using sod by (auto simp: mi_def se_def h_def nat_less_iff)
  have f: "format_seconds off t @ rest = pad 4 (nat y) @ CHR ''-'' # pad 2 (nat m) @ CHR ''-'' # pad 2 (nat d)
      @ CHR ''T'' # pad 2 h @ CHR '':'' # pad 2 mi @ CHR '':'' # pad 2 se @ rest"
    using y by (simp add: format_seconds_def Let_def s_def [symmetric] c sod_def [symmetric] append_int_def
        h_def mi_def se_def)
  have "Suc 0 \<le> nat m \<and> nat m \<le> 12" "nat y < 10000" "nat m < 100" "nat d < 100" "h < 100" "mi < 100" "se < 100"
    using y ok bounds by auto
  then have "parse_rfc3339 (format_seconds off t @ rest) =
      Some ((days_of_civil y m d * 86400 + sod - off) * second + ns)"
    using ok y bounds hms get_zone_text [OF zo] fr
    by (simp add: f parse_rfc3339_def get_year_pad getnum_pad in_range_def Let_def)
  also have "days_of_civil y m d * 86400 + sod - off = t div second"
    using ok(1) by (simp add: s_def sod_def)
  finally show ?thesis .
qed

lemma parse_format_rfc3339:
  "offset_ok off \<Longrightarrow> year_ok off t \<Longrightarrow> parse_rfc3339 (format_rfc3339 off t) = Some (t div second * second)"
  using parse_civil [of off t "zone_text off" 0] get_zone_text(2) [of off]
  by (simp add: format_rfc3339_def get_fraction_none)

lemma zone_no_digit: "\<not> is_digit (hd (zone_text off))"
  by (simp add: zone_text_def Let_def is_digit_def)

lemma parse_format_nano:
  assumes "offset_ok off" and "year_ok off t"
  shows "parse_rfc3339 (format_rfc3339_nano off t) = Some t"
proof -
  have "get_fraction (fraction_text (t mod second) @ zone_text off) = (t mod second, zone_text off)"
    using get_zone_text(2) [OF assms(1)] zone_no_digit
    by (intro get_fraction_text) (simp_all add: second_def)
  from parse_civil [OF assms this] show ?thesis
    by (simp add: format_rfc3339_nano_def)
qed

end
