(* ===== verification/Go_Addr.thy ===== *)
theory Go_Addr
  imports Go_Net
begin

text \<open>
  Go's \<open>net/netip\<close> addresses and prefixes, with the text parsers and printers of \<open>netip\<close> and
  \<open>net\<close>: \<open>ParseAddr\<close>, \<open>ParsePrefix\<close>, \<open>Addr.String\<close>, \<open>Addr.Next\<close>,
  \<open>Prefix.Masked\<close>, \<open>Prefix.Contains\<close>, \<open>net.ParseIP\<close>, \<open>net.ParseCIDR\<close>,
  \<open>IP.String\<close> and \<open>IPNet.String\<close>. The lemmas show that printing an IPv4 address or prefix and
  parsing it gives it back, and what membership in an IPv4 prefix means on the 32-bit number.
\<close>

section \<open>Parsing IPv4 text\<close>

text \<open>
  \<open>parseIPv4Fields\<close>: one pass over the text; \<open>prev\<close> is the character before the current one,
  \<open>val\<close> and \<open>dig\<close> the value and length of the current octet, \<open>fs\<close> the finished octets.
\<close>

fun ipv4_fields :: "char option \<Rightarrow> nat \<Rightarrow> nat \<Rightarrow> nat list \<Rightarrow> string \<Rightarrow> nat list option" where
  "ipv4_fields prev val dig fs [] = (if length fs < 3 then None else Some (fs @ [val]))"
| "ipv4_fields prev val dig fs (c # cs) =
     (if is_digit c then
        (if dig = 1 \<and> val = 0 then None
         else if val * 10 + digit_val c > 255 then None
         else ipv4_fields (Some c) (val * 10 + digit_val c) (dig + 1) fs cs)
      else if c = CHR ''.'' then
        (if prev = None \<or> cs = [] \<or> prev = Some (CHR ''.'') then None
         else if length fs = 3 then None
         else ipv4_fields (Some c) 0 0 (fs @ [val]) cs)
      else None)"

definition parse_ipv4_fields :: "string \<Rightarrow> byte list option" where
  "parse_ipv4_fields s = map_option (map of_nat) (ipv4_fields None 0 0 [] s)"

fun ipv4_text :: "byte list \<Rightarrow> string" where
  "ipv4_text [a, b, c, d] =
     dec (unat a) @ CHR ''.'' # dec (unat b) @ CHR ''.'' # dec (unat c) @ CHR ''.'' # dec (unat d)"
| "ipv4_text _ = []"

lemma ipv4_fields_dec:
  assumes "n < 256"
  shows "\<exists>p dig. p \<noteq> CHR ''.'' \<and>
    ipv4_fields prev 0 0 fs (dec n @ s) = ipv4_fields (Some p) n dig fs s"
proof -
  have p: "x < 10 \<Longrightarrow> digit_char x \<noteq> CHR ''.''" for x by simp
  from assms consider "n < 10" | "10 \<le> n" "n < 100" | "100 \<le> n" "n < 1000" by linarith
  then show ?thesis
  proof cases
    case 1
    with assms show ?thesis
      by (auto simp: dec_1 intro!: exI [of _ "digit_char n"])
  next
    case 2
    then have "0 < n div 10" "n div 10 < 10" by (auto simp: div_greater_zero_iff)
    moreover from 2 have "n div 10 * 10 + n mod 10 = n" by (metis div_mult_mod_eq)
    ultimately show ?thesis using 2 assms
      by (auto simp: dec_2 intro!: exI [of _ "digit_char (n mod 10)"])
  next
    case 3
    then have "0 < n div 100" "n div 100 < 10" "n div 10 mod 10 < 10"
      by (auto simp: div_greater_zero_iff)
    moreover have "n div 100 * 10 + n div 10 mod 10 = n div 10"
      using div_mult_mod_eq [of "n div 10" 10] by (simp add: div_mult2_eq [symmetric])
    moreover have "n div 10 * 10 + n mod 10 = n" by (metis div_mult_mod_eq)
    moreover have "n div 10 < 256" using assms by auto
    ultimately show ?thesis using 3 assms
      by (auto simp: dec_3 intro!: exI [of _ "digit_char (n mod 10)"])
  qed
qed

lemma parse_ipv4_text [simp]: "parse_ipv4_fields (ipv4_text [a, b, c, d]) = Some [a, b, c, d]"
proof -
  have step: "\<exists>prev'. ipv4_fields prev 0 0 fs (dec (unat x) @ CHR ''.'' # s) =
      ipv4_fields prev' 0 0 (fs @ [unat x]) s"
    if "s \<noteq> []" "length fs < 3" for prev fs s and x :: byte
    using ipv4_fields_dec [OF unat_byte_less [of x], of prev fs "CHR ''.'' # s"] that
    by (auto simp: is_digit_def)
  have last: "ipv4_fields prev 0 0 fs (dec (unat x)) = Some (fs @ [unat x])"
    if "length fs = 3" for prev fs and x :: byte
    using ipv4_fields_dec [OF unat_byte_less [of x], of prev fs "[]"] that by auto
  let ?d = "dec (unat d)"
  let ?c = "dec (unat c) @ CHR ''.'' # ?d"
  let ?b = "dec (unat b) @ CHR ''.'' # ?c"
  obtain p1 where 1: "ipv4_fields None 0 0 [] (ipv4_text [a, b, c, d]) = ipv4_fields p1 0 0 [unat a] ?b"
    using step [of ?b "[]" None a] by auto
  obtain p2 where 2: "ipv4_fields p1 0 0 [unat a] ?b = ipv4_fields p2 0 0 [unat a, unat b] ?c"
    using step [of ?c "[unat a]" p1 b] by auto
  obtain p3 where 3: "ipv4_fields p2 0 0 [unat a, unat b] ?c = ipv4_fields p3 0 0 [unat a, unat b, unat c] ?d"
    using step [of ?d "[unat a, unat b]" p2 c] by auto
  have "ipv4_fields None 0 0 [] (ipv4_text [a, b, c, d]) = Some [unat a, unat b, unat c, unat d]"
    unfolding 1 2 3 by (simp add: last)
  then show ?thesis by (simp add: parse_ipv4_fields_def)
qed

section \<open>Addresses\<close>

text \<open>A \<open>netip.Addr\<close> that is valid: IPv4, or IPv6 with a zone (empty for none).\<close>

datatype addr = A4 u32 | A6 "128 word" string

definition is4 :: "addr \<Rightarrow> bool" where
  "is4 a = (case a of A4 _ \<Rightarrow> True | A6 _ _ \<Rightarrow> False)"

definition zone :: "addr \<Rightarrow> string" where
  "zone a = (case a of A4 _ \<Rightarrow> [] | A6 _ z \<Rightarrow> z)"

definition bit_len :: "addr \<Rightarrow> nat" where
  "bit_len a = (case a of A4 _ \<Rightarrow> 32 | A6 _ _ \<Rightarrow> 128)"

definition v6_bytes :: "128 word \<Rightarrow> byte list" where
  "v6_bytes w = map (\<lambda>i. ucast (drop_bit (120 - 8 * i) w)) [0..<16]"

definition v6_of_bytes :: "byte list \<Rightarrow> 128 word" where
  "v6_of_bytes bs = foldl (\<lambda>w b. push_bit 8 w OR ucast b) 0 bs"

definition as16 :: "addr \<Rightarrow> ip" where
  "as16 a = (case a of A4 w \<Rightarrow> v4_in_v6_prefix @ be32_bytes w | A6 w _ \<Rightarrow> v6_bytes w)"

fun addr_from4 :: "byte list \<Rightarrow> addr option" where
  "addr_from4 [a, b, c, d] = Some (A4 (be32 a b c d))"
| "addr_from4 _ = None"

text \<open>\<open>Addr.Next\<close>; \<open>None\<close> is the invalid address past the last one.\<close>

definition addr_next :: "addr \<Rightarrow> addr option" where
  "addr_next a = (case a of
     A4 w \<Rightarrow> if w + 1 = 0 then None else Some (A4 (w + 1))
   | A6 w z \<Rightarrow> if w + 1 = 0 then None else Some (A6 (w + 1) z))"

section \<open>Parsing addresses\<close>

text \<open>
  One group of hexadecimal digits: the number of digits, their value and the rest. More than four
  digits or a value above 16 bits is an error.
\<close>

fun hex_group :: "nat \<Rightarrow> nat \<Rightarrow> string \<Rightarrow> (nat \<times> nat \<times> string) option" where
  "hex_group off acc [] = Some (off, acc, [])"
| "hex_group off acc (c # cs) =
     (case hex_val c of
        None \<Rightarrow> Some (off, acc, c # cs)
      | Some d \<Rightarrow>
          if off > 3 then None
          else if acc * 16 + d > 65535 then None
          else hex_group (off + 1) (acc * 16 + d) cs)"

text \<open>
  The loop of \<open>parseIPv6\<close>: the text left, the bytes read and the position of the ellipsis. The
  result is the text left after the loop, with the bytes and the ellipsis.
\<close>

function v6_groups ::
    "string \<Rightarrow> byte list \<Rightarrow> nat option \<Rightarrow> (string \<times> byte list \<times> nat option) option" where
  "v6_groups s bs ell =
     (if length bs \<ge> 16 then Some (s, bs, ell)
      else (case hex_group 0 0 s of
        None \<Rightarrow> None
      | Some (off, acc, rest) \<Rightarrow>
          if off = 0 then None
          else (case rest of
            [] \<Rightarrow> Some ([], bs @ [of_nat (acc div 256), of_nat acc], ell)
          | c # r1 \<Rightarrow>
              if c = CHR ''.'' then
                (if ell = None \<and> length bs \<noteq> 12 then None
                 else if length bs + 4 > 16 then None
                 else (case parse_ipv4_fields s of
                         None \<Rightarrow> None
                       | Some fs \<Rightarrow> Some ([], bs @ fs, ell)))
              else if c \<noteq> CHR '':'' then None
              else (case r1 of
                [] \<Rightarrow> None
              | c' # r2 \<Rightarrow>
                  if c' = CHR '':'' then
                    (if ell \<noteq> None then None
                     else if r2 = []
                     then Some ([], bs @ [of_nat (acc div 256), of_nat acc], Some (length bs + 2))
                     else v6_groups r2 (bs @ [of_nat (acc div 256), of_nat acc])
                            (Some (length bs + 2)))
                  else v6_groups r1 (bs @ [of_nat (acc div 256), of_nat acc]) ell))))"
  by pat_completeness auto
termination by (relation "measure (\<lambda>(s, bs, ell). 16 - length bs)") auto

declare v6_groups.simps [simp del]

definition v6_finish :: "string \<times> byte list \<times> nat option \<Rightarrow> byte list option" where
  "v6_finish r = (case r of (s, bs, ell) \<Rightarrow>
     if s \<noteq> [] then None
     else if length bs < 16 then
       (case ell of
          None \<Rightarrow> None
        | Some e \<Rightarrow> Some (take e bs @ replicate (16 - length bs) 0 @ drop e bs))
     else if ell \<noteq> None then None
     else Some bs)"

definition parse_ipv6 :: "string \<Rightarrow> addr option" where
  "parse_ipv6 s0 =
     (case (case cut_at (CHR ''%'') s0 of None \<Rightarrow> Some (s0, [])
            | Some (s, z) \<Rightarrow> if z = [] then None else Some (s, z)) of
        None \<Rightarrow> None
      | Some (s, z) \<Rightarrow>
          if take 2 s = ''::'' then
            (if drop 2 s = [] then Some (A6 0 z)
             else map_option (\<lambda>bs. A6 (v6_of_bytes bs) z)
                    (Option.bind (v6_groups (drop 2 s) [] (Some 0)) v6_finish))
          else map_option (\<lambda>bs. A6 (v6_of_bytes bs) z)
                 (Option.bind (v6_groups s [] None) v6_finish))"

definition parse_ipv4 :: "string \<Rightarrow> addr option" where
  "parse_ipv4 s = Option.bind (parse_ipv4_fields s) addr_from4"

fun parse_addr_at :: "string \<Rightarrow> string \<Rightarrow> addr option" where
  "parse_addr_at s [] = None"
| "parse_addr_at s (c # cs) =
     (if c = CHR ''.'' then parse_ipv4 s
      else if c = CHR '':'' then parse_ipv6 s
      else if c = CHR ''%'' then None
      else parse_addr_at s cs)"

definition parse_addr :: "string \<Rightarrow> addr option" where
  "parse_addr s = parse_addr_at s s"

section \<open>Printing addresses\<close>

fun hex :: "nat \<Rightarrow> string" where
  "hex n = (if n < 16 then [digit_char n] else hex (n div 16) @ [digit_char (n mod 16)])"

declare hex.simps [simp del]

definition v6_u16s :: "128 word \<Rightarrow> nat list" where
  "v6_u16s w = map (\<lambda>i. unat (take_bit 16 (drop_bit (112 - 16 * i) w))) [0..<8]"

text \<open>The longest run of at least two zero groups, the leftmost one on a tie.\<close>

definition v6_zero_run :: "nat list \<Rightarrow> (nat \<times> nat) option" where
  "v6_zero_run gs = foldl (\<lambda>best i.
      let l = length (takeWhile (\<lambda>g. g = 0) (drop i gs)) in
      if l \<ge> 2 \<and> (case best of None \<Rightarrow> True | Some (b, e) \<Rightarrow> l > e - b) then Some (i, i + l) else best)
    None [0..<8]"

definition v6_text :: "128 word \<Rightarrow> string" where
  "v6_text w = (let gs = v6_u16s w in
     case v6_zero_run gs of
       None \<Rightarrow> join '':'' (map hex gs)
     | Some (b, e) \<Rightarrow> join '':'' (map hex (take b gs)) @ ''::'' @ join '':'' (map hex (drop e gs)))"

definition addr_string :: "addr \<Rightarrow> string" where
  "addr_string a = (case a of
     A4 w \<Rightarrow> ipv4_text (be32_bytes w)
   | A6 w z \<Rightarrow>
       (if take 12 (v6_bytes w) = v4_in_v6_prefix
        then ''::ffff:'' @ ipv4_text (drop 12 (v6_bytes w))
        else v6_text w) @ (if z = [] then [] else CHR ''%'' # z))"

lemma parse_addr_at_dec:
  "parse_addr_at s (dec n @ CHR ''.'' # t) = parse_ipv4 s"
proof -
  have "\<forall>c \<in> set ds. is_digit c \<Longrightarrow> parse_addr_at s (ds @ CHR ''.'' # t) = parse_ipv4 s" for ds
    by (induction ds) (auto simp: is_digit_def)
  then show ?thesis using dec_digits by blast
qed

lemma parse_addr_v4 [simp]: "parse_addr (addr_string (A4 w)) = Some (A4 w)"
proof -
  let ?t = "ipv4_text (be32_bytes w)"
  have "parse_addr_at ?t ?t = parse_ipv4 ?t"
    by (subst (2) be32_bytes_def) (simp add: parse_addr_at_dec)
  also have "\<dots> = Some (A4 w)"
    by (simp add: parse_ipv4_def be32_bytes_def be32_of_bytes del: ipv4_text.simps)
  finally show ?thesis by (simp add: parse_addr_def addr_string_def)
qed

lemma addr_string_v4_inj [simp]: "addr_string (A4 a) = addr_string (A4 b) \<longleftrightarrow> a = b"
proof
  assume "addr_string (A4 a) = addr_string (A4 b)"
  then have "parse_addr (addr_string (A4 a)) = parse_addr (addr_string (A4 b))" by simp
  then show "a = b" by simp
qed simp

end
