(* ===== verification/Go_Prefix.thy ===== *)
theory Go_Prefix
  imports Go_Addr
begin

text \<open>
  \<open>netip.Prefix\<close> (\<open>ParsePrefix\<close>, \<open>Masked\<close>, \<open>Contains\<close>) and the older \<open>net\<close> API on byte
  slices (\<open>ParseIP\<close>, \<open>IP.String\<close>, \<open>CIDRMask\<close>, \<open>IP.Mask\<close>, \<open>ParseCIDR\<close>,
  \<open>IPNet.String\<close>). The lemmas give the meaning of masking and membership of an IPv4 prefix as
  division of the address by the size of the prefix.
\<close>

section \<open>\<open>netip.Prefix\<close>\<close>

datatype prefix = Prefix (prefix_addr: addr) (prefix_bits: nat)

definition parse_bits :: "string \<Rightarrow> nat option" where
  "parse_bits s =
     (if s = [] then None
      else if length s > 1 \<and> (hd s = CHR ''0'' \<or> \<not> is_digit (hd s)) then None
      else undec 0 s)"

definition parse_prefix :: "string \<Rightarrow> prefix option" where
  "parse_prefix s =
     (case cut_last (CHR ''/'') s of
        None \<Rightarrow> None
      | Some (a, b) \<Rightarrow>
          (case parse_addr a of
             None \<Rightarrow> None
           | Some ad \<Rightarrow>
               if zone ad \<noteq> [] then None
               else (case parse_bits b of
                       None \<Rightarrow> None
                     | Some n \<Rightarrow> if n > bit_len ad then None else Some (Prefix ad n))))"

definition masked :: "prefix \<Rightarrow> prefix" where
  "masked p = (case p of Prefix a n \<Rightarrow> Prefix (case a of
      A4 w \<Rightarrow> A4 (w AND NOT (mask (32 - n)))
    | A6 w z \<Rightarrow> A6 (w AND NOT (mask (128 - n))) []) n)"

definition prefix_contains :: "prefix \<Rightarrow> addr \<Rightarrow> bool" where
  "prefix_contains p a = (case p of Prefix b n \<Rightarrow>
     (case (b, a) of
        (A4 v, A4 w) \<Rightarrow> drop_bit (32 - n) (v XOR w) = 0
      | (A6 v _, A6 w z) \<Rightarrow> z = [] \<and> drop_bit (128 - n) (v XOR w) = 0
      | _ \<Rightarrow> False))"

definition prefix_string :: "prefix \<Rightarrow> string" where
  "prefix_string p = addr_string (prefix_addr p) @ CHR ''/'' # dec (prefix_bits p)"

section \<open>The byte-slice API of \<open>net\<close>\<close>

definition parse_ip :: "string \<Rightarrow> ip" where
  "parse_ip s = (case parse_addr s of
     None \<Rightarrow> [] | Some a \<Rightarrow> if zone a \<noteq> [] then [] else as16 a)"

fun hex_bytes :: "byte list \<Rightarrow> string" where
  "hex_bytes [] = []"
| "hex_bytes (b # bs) = hex2 b @ hex_bytes bs"

definition ip_string :: "ip \<Rightarrow> string" where
  "ip_string ip =
     (if ip = [] then ''<nil>''
      else if length ip \<noteq> 4 \<and> length ip \<noteq> 16 then ''?'' @ hex_bytes ip
      else if to4 ip \<noteq> [] then ipv4_text (to4 ip)
      else addr_string (A6 (v6_of_bytes ip) []))"

definition cidr_mask :: "nat \<Rightarrow> nat \<Rightarrow> byte list" where
  "cidr_mask ones bits = map (\<lambda>i. NOT (mask (8 * Suc i - ones))) [0..<bits div 8]"

definition ip_mask :: "ip \<Rightarrow> byte list \<Rightarrow> ip" where
  "ip_mask ip0 m0 =
     (let m = (if length m0 = 16 \<and> length ip0 = 4 \<and> take 12 m0 = replicate 12 255
               then drop 12 m0 else m0);
          ip = (if length m = 4 \<and> length ip0 = 16 \<and> take 12 ip0 = v4_in_v6_prefix
                then drop 12 ip0 else ip0)
      in if length ip \<noteq> length m then [] else map2 (AND) ip m)"

record ipnet =
  net_ip :: ip
  net_mask :: "byte list"

text \<open>\<open>dtoi\<close> must consume the whole text after the first slash; it accepts leading zeros.\<close>

definition parse_cidr :: "string \<Rightarrow> (ip \<times> ipnet) option" where
  "parse_cidr s =
     (case cut_at (CHR ''/'') s of
        None \<Rightarrow> None
      | Some (a, m) \<Rightarrow>
          (case parse_addr a of
             None \<Rightarrow> None
           | Some ad \<Rightarrow>
               if zone ad \<noteq> [] then None
               else (case (if m = [] then None else undec 0 m) of
                       None \<Rightarrow> None
                     | Some n \<Rightarrow>
                         if n > bit_len ad then None
                         else Some (as16 ad, \<lparr>net_ip = ip_mask (as16 ad) (cidr_mask n (bit_len ad)),
                                             net_mask = cidr_mask n (bit_len ad)\<rparr>))))"

fun leading_ones :: "nat \<Rightarrow> byte \<Rightarrow> nat" where
  "leading_ones 0 b = 0"
| "leading_ones (Suc k) b = (if bit b 7 then Suc (leading_ones k (push_bit 1 b)) else 0)"

text \<open>\<open>simpleMaskLength\<close>; \<open>None\<close> is -1, a mask that is not ones followed by zeros.\<close>

fun simple_mask_length :: "byte list \<Rightarrow> nat option" where
  "simple_mask_length [] = Some 0"
| "simple_mask_length (v # vs) =
     (if v = 255 then map_option (\<lambda>n. n + 8) (simple_mask_length vs)
      else if push_bit (leading_ones 8 v) v \<noteq> 0 \<or> (\<exists>w \<in> set vs. w \<noteq> 0) then None
      else Some (leading_ones 8 v))"

definition network_number_and_mask :: "ipnet \<Rightarrow> (ip \<times> byte list) option" where
  "network_number_and_mask n =
     (let ip4 = to4 (net_ip n);
          ip = (if ip4 = [] then net_ip n else ip4);
          m = net_mask n
      in if ip4 = [] \<and> length ip \<noteq> 16 then None
         else if length m = 4 then (if length ip \<noteq> 4 then None else Some (ip, m))
         else if length m = 16 then Some (ip, if length ip = 4 then drop 12 m else m)
         else None)"

definition ipnet_string :: "ipnet \<Rightarrow> string" where
  "ipnet_string n =
     (case network_number_and_mask n of
        None \<Rightarrow> ''<nil>''
      | Some (ip, m) \<Rightarrow>
          (case simple_mask_length m of
             None \<Rightarrow> ip_string ip @ CHR ''/'' # hex_bytes m
           | Some l \<Rightarrow> ip_string ip @ CHR ''/'' # dec l))"

section \<open>Text round trips\<close>

lemma ip_string_4: "ip_string (be32_bytes w) = addr_string (A4 w)"
proof -
  have "be32_bytes w \<noteq> []" by (simp add: be32_bytes_def)
  then show ?thesis by (simp add: ip_string_def addr_string_def)
qed

lemma bytes4_be32:
  assumes "length ip = 4"
  obtains w where "ip = be32_bytes w"
proof -
  from assms obtain a b c d where "ip = [a, b, c, d]"
    by (auto simp: length_Suc_conv numeral_eq_Suc)
  then have "ip = be32_bytes (be32 a b c d)" by simp
  then show thesis ..
qed

lemma parse_ip_v4 [simp]: "to4 (parse_ip (addr_string (A4 w))) = be32_bytes w"
  by (simp add: parse_ip_def zone_def as16_def to4_def v4_in_v6_prefix_def)

lemma parse_ip_string: "length ip = 4 \<Longrightarrow> to4 (parse_ip (ip_string ip)) = ip"
  by (erule bytes4_be32) (simp add: ip_string_4)

lemma parse_bits_dec: "parse_bits (dec n) = Some n"
proof -
  have "hd (dec n) \<noteq> CHR ''0''" if "1 < length (dec n)"
    using that
  proof (induction n rule: dec.induct)
    case (1 n)
    show ?case
    proof (cases "n < 10")
      case True
      with 1 show ?thesis by (simp add: dec_1)
    next
      case ge: False
      then have d: "dec n = dec (n div 10) @ [digit_char (n mod 10)]" by (subst dec.simps) simp
      show ?thesis
      proof (cases "n div 10 < 10")
        case True
        with ge have "n div 10 \<in> {1, 2, 3, 4, 5, 6, 7, 8, 9}"
          using less_10_cases [OF True] by (auto simp: div_eq_0_iff)
        then show ?thesis by (auto simp: d dec_1 digit_char_def)
      next
        case False
        then have "1 < length (dec (n div 10))"
          by (subst dec.simps) (simp add: Suc_lessI)
        with 1 ge show ?thesis by (simp add: d)
      qed
    qed
  qed
  moreover have "is_digit (hd (dec n))" by (rule dec_digits) (rule hd_in_set, rule dec_nonempty)
  ultimately show ?thesis by (auto simp: parse_bits_def)
qed

lemma slash_notin_v4: "CHR ''/'' \<notin> set (addr_string (A4 w))"
  by (auto simp: addr_string_def be32_bytes_def dec_no_punct)

lemma parse_prefix_v4 [simp]:
  "n \<le> 32 \<Longrightarrow> parse_prefix (prefix_string (Prefix (A4 w) n)) = Some (Prefix (A4 w) n)"
  by (simp add: parse_prefix_def prefix_string_def cut_last_append dec_no_punct parse_bits_dec
      zone_def bit_len_def)

lemma parse_prefix_bits: "parse_prefix s = Some (Prefix a n) \<Longrightarrow> n \<le> bit_len a"
  by (auto simp: parse_prefix_def split: option.splits prod.splits if_splits)

section \<open>IPv4 prefixes as blocks of numbers\<close>

definition net4 :: "u32 \<Rightarrow> nat \<Rightarrow> u32" where
  "net4 w n = w AND NOT (mask (32 - n))"

lemma masked_v4: "masked (Prefix (A4 w) n) = Prefix (A4 (net4 w n)) n"
  by (simp add: masked_def net4_def)

lemma net4_push_drop: "net4 w n = push_bit (32 - n) (drop_bit (32 - n) w)"
  by (rule bit_word_eqI) (auto simp: net4_def bit_simps)

lemma unat_net4: "unat (net4 w n) = unat w div 2 ^ (32 - n) * 2 ^ (32 - n)"
proof -
  let ?h = "2 ^ (32 - n) :: nat"
  have "unat w div ?h * ?h \<le> unat w" by simp
  also have "unat w < 2 ^ 32" using unsigned_less [of w, where ?'a = nat] by simp
  finally have "take_bit 32 (unat w div ?h * ?h) = unat w div ?h * ?h"
    by (rule take_bit_nat_eq_self)
  then show ?thesis
    unfolding net4_push_drop unsigned_push_bit_eq unat_drop_bit_eq
    by (simp add: push_bit_eq_mult drop_bit_eq_div)
qed

lemma xor_zero_iff: "a XOR b = 0 \<longleftrightarrow> a = b" for a b :: "'a::len word"
  by (auto simp: bit_eq_iff bit_simps)

lemma contains_v4:
  "prefix_contains (Prefix (A4 v) n) (A4 w) \<longleftrightarrow>
   unat v div 2 ^ (32 - n) = unat w div 2 ^ (32 - n)"
proof -
  have "drop_bit (32 - n) (v XOR w) = 0 \<longleftrightarrow> drop_bit (32 - n) v = drop_bit (32 - n) w"
    by (simp add: xor_zero_iff)
  also have "\<dots> \<longleftrightarrow> unat v div 2 ^ (32 - n) = unat w div 2 ^ (32 - n)"
    unfolding word_unat_eq_iff unat_drop_bit_eq by (simp add: drop_bit_eq_div)
  finally show ?thesis by (simp add: prefix_contains_def)
qed

lemma contains_net4:
  "prefix_contains (Prefix (A4 v) n) (A4 w) \<longleftrightarrow>
   unat (net4 v n) \<le> unat w \<and> unat w < unat (net4 v n) + 2 ^ (32 - n)"
proof -
  have "(a div m = b div m) = (a div m * m \<le> b \<and> b < a div m * m + m)" if "0 < m" for a b m :: nat
    using that div_nat_eqI [of m "a div m" b]
    by (metis add.commute div_mult_mod_eq div_times_less_eq_dividend dividend_less_div_times
        mult.commute mult_Suc_right nat_add_left_cancel_less mod_less_divisor add_less_cancel_left)
  then show ?thesis by (simp add: contains_v4 unat_net4)
qed

end
