(* ===== verification/Os_File.thy ===== *)
theory Os_File
  imports Prelude
begin

unbundle bit_operations_syntax

text \<open>
  The files the program reads and writes, and \<open>utils/file.go\<close>. A file system maps paths to files
  with their bytes and permission bits. The outcome of each system call (it may fail, and a failed
  write may leave part of the data) is an argument, so every result is a branch of the model. The
  lemmas show that \<open>WriteFileAtomic\<close> replaces the whole file or leaves it alone, also when the
  process dies between two system calls.
\<close>

section \<open>Files and system calls\<close>

type_synonym file_mode = u32

record os_file =
  f_data :: string
  f_perm :: file_mode

type_synonym fs = "path \<rightharpoonup> os_file"

text \<open>
  A write either completes, or fails leaving the path untouched (\<open>None\<close>) or holding the given bytes.
  An existing file keeps its permission bits, a new one gets those the umask lets through.
\<close>

datatype write_outcome = WriteDone | WriteFailed "string option"

record disk =
  dk_write :: write_outcome
  dk_umask :: file_mode
  dk_chmod :: bool
  dk_rename :: bool
  dk_remove :: bool

definition created_perm :: "file_mode \<Rightarrow> fs \<Rightarrow> path \<Rightarrow> file_mode \<Rightarrow> file_mode" where
  "created_perm umask s p perm =
     (case s p of None \<Rightarrow> perm AND NOT umask | Some f \<Rightarrow> f_perm f)"

definition os_write_file :: "disk \<Rightarrow> path \<Rightarrow> string \<Rightarrow> file_mode \<Rightarrow> fs \<Rightarrow> bool \<times> fs" where
  "os_write_file d p data perm s =
     (let mode = created_perm (dk_umask d) s p perm in
      case dk_write d of
        WriteDone \<Rightarrow> (True, s(p \<mapsto> \<lparr>f_data = data, f_perm = mode\<rparr>))
      | WriteFailed None \<Rightarrow> (False, s)
      | WriteFailed (Some part) \<Rightarrow> (False, s(p \<mapsto> \<lparr>f_data = part, f_perm = mode\<rparr>)))"

definition os_chmod :: "disk \<Rightarrow> path \<Rightarrow> file_mode \<Rightarrow> fs \<Rightarrow> bool \<times> fs" where
  "os_chmod d p perm s =
     (case s p of
        None \<Rightarrow> (False, s)
      | Some f \<Rightarrow> if dk_chmod d then (True, s(p \<mapsto> f\<lparr>f_perm := perm\<rparr>)) else (False, s))"

definition os_rename :: "disk \<Rightarrow> path \<Rightarrow> path \<Rightarrow> fs \<Rightarrow> bool \<times> fs" where
  "os_rename d p q s =
     (case s p of
        None \<Rightarrow> (False, s)
      | Some f \<Rightarrow> if dk_rename d then (True, (s(q \<mapsto> f))(p := if p = q then Some f else None))
                 else (False, s))"

definition os_remove :: "disk \<Rightarrow> path \<Rightarrow> fs \<Rightarrow> bool \<times> fs" where
  "os_remove d p s =
     (if s p \<noteq> None \<and> dk_remove d then (True, s(p := None)) else (False, s))"

section \<open>\<open>WriteFileAtomic\<close>\<close>

datatype file_error = WriteErr | ChmodErr | RenameErr

text \<open>The result is the error, or \<open>None\<close> for a nil error, and the file system left.\<close>

definition write_file_atomic ::
    "disk \<Rightarrow> path \<Rightarrow> string \<Rightarrow> file_mode \<Rightarrow> fs \<Rightarrow> file_error option \<times> fs" where
  "write_file_atomic d path data perm s0 =
     (let tmp = path @ ''.tmp'';
          (ok1, s1) = os_write_file d tmp data perm s0
      in if \<not> ok1 then (Some WriteErr, s1)
         else let (ok2, s2) = os_chmod d tmp perm s1
      in if \<not> ok2 then (Some ChmodErr, s2)
         else let (ok3, s3) = os_rename d tmp path s2
      in if \<not> ok3 then (let (_, s4) = os_remove d tmp s3 in (Some RenameErr, s4))
         else (None, s3))"

definition disk_ok :: disk where
  "disk_ok = \<lparr>dk_write = WriteDone, dk_umask = 18, dk_chmod = True, dk_rename = True, dk_remove = True\<rparr>"

lemma tmp_neq [simp]: "path @ ''.tmp'' \<noteq> path"
  by simp

lemma write_file_atomic_cases:
  "case write_file_atomic d path data perm s of
     (None, s') \<Rightarrow> s' path = Some \<lparr>f_data = data, f_perm = perm\<rparr> \<and> s' (path @ ''.tmp'') = None
   | (Some e, s') \<Rightarrow> s' path = s path"
  by (auto simp: write_file_atomic_def os_write_file_def os_chmod_def os_rename_def os_remove_def
      Let_def split: write_outcome.splits option.splits if_splits)

lemma write_file_atomic_frame:
  "q \<noteq> path \<Longrightarrow> q \<noteq> path @ ''.tmp'' \<Longrightarrow> snd (write_file_atomic d path data perm s) q = s q"
  by (auto simp: write_file_atomic_def os_write_file_def os_chmod_def os_rename_def os_remove_def
      Let_def split: write_outcome.splits option.splits if_splits prod.splits)

section \<open>The interface: a file replaced as a whole\<close>

locale atomic_file =
  fixes put :: "'d \<Rightarrow> path \<Rightarrow> string \<Rightarrow> file_mode \<Rightarrow> fs \<Rightarrow> 'e option \<times> fs"
  assumes put_ok: "put d p data perm s = (None, s') \<Longrightarrow> s' p = Some \<lparr>f_data = data, f_perm = perm\<rparr>"
    and put_err: "put d p data perm s = (Some e, s') \<Longrightarrow> s' p = s p"
begin

text \<open>What a reader of the path sees: the new bytes or exactly what was there.\<close>

lemma put_read:
  "map_option f_data (snd (put d p data perm s) p) =
     (if fst (put d p data perm s) = None then Some data else map_option f_data (s p))"
proof (cases "put d p data perm s")
  case (Pair r s')
  then show ?thesis using put_ok [of d p data perm s s'] put_err [of d p data perm s _ s']
    by (cases r) auto
qed

text \<open>After any sequence of writes the path holds the data of the last one that succeeded.\<close>

lemma put_many:
  "map_option f_data (foldl (\<lambda>s (d, data). snd (put d p data perm s)) s0 ws p) \<in>
     insert (map_option f_data (s0 p)) (Some ` snd ` set ws)"
proof (induction ws rule: rev_induct)
  case (snoc w ws)
  then show ?case by (cases w) (auto simp: put_read)
qed simp

end

interpretation wfa: atomic_file write_file_atomic
proof
  show "write_file_atomic d p data perm s = (None, s') \<Longrightarrow> s' p = Some \<lparr>f_data = data, f_perm = perm\<rparr>"
    for d p data perm s s' using write_file_atomic_cases [where d = d and path = p and data = data and perm = perm and s = s] by simp
  show "write_file_atomic d p data perm s = (Some e, s') \<Longrightarrow> s' p = s p"
    for d p data perm s e s' using write_file_atomic_cases [where d = d and path = p and data = data and perm = perm and s = s] by simp
qed

section \<open>Crashes\<close>

text \<open>
  The system calls of \<open>WriteFileAtomic\<close> one at a time, the write byte by byte; the process may die
  in any state this relation reaches.
\<close>

datatype write_pc = Start | Writing nat | Written | Chmodded | Renamed | Failed

inductive atomic_step ::
    "path \<Rightarrow> string \<Rightarrow> file_mode \<Rightarrow> write_pc \<times> fs \<Rightarrow> write_pc \<times> fs \<Rightarrow> bool"
  for path :: path and data :: string and perm :: file_mode where
  open_tmp: "atomic_step path data perm (Start, s)
     (Writing 0, s(path @ ''.tmp'' \<mapsto> \<lparr>f_data = [], f_perm = created_perm um s (path @ ''.tmp'') perm\<rparr>))"
| write_byte: "k < length data \<Longrightarrow> s (path @ ''.tmp'') = Some f \<Longrightarrow>
     atomic_step path data perm (Writing k, s)
       (Writing (Suc k), s(path @ ''.tmp'' \<mapsto> f\<lparr>f_data := take (Suc k) data\<rparr>))"
| close_tmp: "atomic_step path data perm (Writing (length data), s) (Written, s)"
| chmod_tmp: "s (path @ ''.tmp'') = Some f \<Longrightarrow>
     atomic_step path data perm (Written, s)
       (Chmodded, s(path @ ''.tmp'' \<mapsto> f\<lparr>f_perm := perm\<rparr>))"
| rename_tmp: "s (path @ ''.tmp'') = Some f \<Longrightarrow>
     atomic_step path data perm (Chmodded, s)
       (Renamed, (s(path \<mapsto> f))(path @ ''.tmp'' := None))"
| fail: "pc \<noteq> Renamed \<Longrightarrow> atomic_step path data perm (pc, s) (Failed, s)"
| remove_tmp: "atomic_step path data perm (Failed, s) (Failed, s(path @ ''.tmp'' := None))"

inductive atomic_reach ::
    "path \<Rightarrow> string \<Rightarrow> file_mode \<Rightarrow> fs \<Rightarrow> write_pc \<times> fs \<Rightarrow> bool"
  for path :: path and data :: string and perm :: file_mode and s0 :: fs where
  reach_start: "atomic_reach path data perm s0 (Start, s0)"
| reach_step: "atomic_reach path data perm s0 c \<Longrightarrow> atomic_step path data perm c c' \<Longrightarrow>
     atomic_reach path data perm s0 c'"

text \<open>What is known at each point: the temporary file holds what was written, the path is old until
  the rename and new after it.\<close>

fun atomic_inv :: "path \<Rightarrow> string \<Rightarrow> file_mode \<Rightarrow> fs \<Rightarrow> write_pc \<times> fs \<Rightarrow> bool" where
  "atomic_inv path data perm s0 (pc, s) \<longleftrightarrow>
     (if pc = Renamed then s path = Some \<lparr>f_data = data, f_perm = perm\<rparr> else s path = s0 path) \<and>
     (case pc of
        Writing k \<Rightarrow> \<exists>f. s (path @ ''.tmp'') = Some f \<and> f_data f = take k data
      | Written \<Rightarrow> \<exists>f. s (path @ ''.tmp'') = Some f \<and> f_data f = data
      | Chmodded \<Rightarrow> \<exists>f. s (path @ ''.tmp'') = Some f \<and> f_data f = data \<and> f_perm f = perm
      | _ \<Rightarrow> True)"

lemma atomic_step_inv:
  "atomic_step path data perm c c' \<Longrightarrow> atomic_inv path data perm s0 c \<Longrightarrow>
   atomic_inv path data perm s0 c'"
proof (induction rule: atomic_step.induct)
  case (rename_tmp s f)
  then have "f = \<lparr>f_data = data, f_perm = perm\<rparr>" by auto
  then show ?case by simp
next
  case (close_tmp s)
  then show ?case by auto
qed (auto split: write_pc.splits)

lemma atomic_reach_inv: "atomic_reach path data perm s0 c \<Longrightarrow> atomic_inv path data perm s0 c"
proof (induction rule: atomic_reach.induct)
  case reach_start
  show ?case by simp
qed (blast intro: atomic_step_inv)

end
