(* ===== verification/Lease_File.thy ===== *)
theory Lease_File
  imports Lease_Store Go_Json Go_Time Go_Prefix Os_File
begin

text \<open>
  \<open>save\<close> and \<open>load\<close> of \<open>dhcp/lease.go\<close>: the lease table as JSON text in a file replaced
  atomically. The offset from UTC in which an instant is written is an argument, for the location of
  a Go time is not part of the model's instants. The lemmas show that loading a saved table gives
  back the unexpired leases, with the expiry cut to the second.
\<close>

section \<open>Entries\<close>

record lease_entry =
  le_mac :: string
  le_ip :: string
  le_expiry :: string

definition lease_entry_of :: "(time \<Rightarrow> int) \<Rightarrow> lease \<Rightarrow> lease_entry" where
  "lease_entry_of loc l =
     \<lparr>le_mac = mac_string (l_mac l), le_ip = ip_string (l_ip l),
      le_expiry = format_rfc3339 (loc (l_expiry l)) (l_expiry l)\<rparr>"

definition lease_entry_json :: "lease_entry \<Rightarrow> json" where
  "lease_entry_json e =
     JObj [(''mac'', JStr (le_mac e)), (''ip'', JStr (le_ip e)), (''expiry'', JStr (le_expiry e))]"

definition decode_lease_entry :: "json \<Rightarrow> lease_entry option" where
  "decode_lease_entry v =
     do { ms \<leftarrow> members_of v;
          m \<leftarrow> decode_field json_string ''mac'' ms [];
          i \<leftarrow> decode_field json_string ''ip'' ms [];
          x \<leftarrow> decode_field json_string ''expiry'' ms [];
          Some \<lparr>le_mac = m, le_ip = i, le_expiry = x\<rparr> }"

fun decode_lease_list :: "json list \<Rightarrow> lease_entry list option" where
  "decode_lease_list [] = Some []"
| "decode_lease_list (v # vs) =
     do { e \<leftarrow> decode_lease_entry v; es \<leftarrow> decode_lease_list vs; Some (e # es) }"

definition decode_lease_entries :: "string \<Rightarrow> lease_entry list option" where
  "decode_lease_entries data =
     do { v \<leftarrow> json_parse data;
          case v of JArr vs \<Rightarrow> decode_lease_list vs | JNull \<Rightarrow> Some [] | _ \<Rightarrow> None }"

section \<open>Saving\<close>

definition lease_file_perm :: file_mode where "lease_file_perm = 420"

text \<open>A table without leases is a nil slice, which marshals as \<open>null\<close>.\<close>

definition lease_data :: "(time \<Rightarrow> int) \<Rightarrow> string list \<Rightarrow> lease_store \<Rightarrow> string" where
  "lease_data loc ks s =
     (let entries = map (\<lambda>(k, l). lease_entry_of loc l) (range_map ks (lease_map s)) in
      json_marshal_indent (if entries = [] then JNull else JArr (map lease_entry_json entries)))"

definition lease_save ::
    "(time \<Rightarrow> int) \<Rightarrow> disk \<Rightarrow> string list \<Rightarrow> lease_store \<Rightarrow> fs \<Rightarrow> file_error option \<times> fs" where
  "lease_save loc d ks s files =
     write_file_atomic d (lease_path s) (lease_data loc ks s) lease_file_perm files"

section \<open>Loading\<close>

datatype load_error = NotExist | ReadFailed | ParseFailed

fun load_entries :: "time \<Rightarrow> lease_entry list \<Rightarrow> (string \<rightharpoonup> lease) \<Rightarrow> (string \<rightharpoonup> lease)" where
  "load_entries now [] m = m"
| "load_entries now (e # es) m =
     (case parse_mac (le_mac e) of
        None \<Rightarrow> load_entries now es m
      | Some mac \<Rightarrow>
          (let ip = to4 (parse_ip (le_ip e)) in
           if ip = [] then load_entries now es m
           else (case parse_rfc3339 (le_expiry e) of
                   None \<Rightarrow> load_entries now es m
                 | Some expiry \<Rightarrow>
                     if now > expiry then load_entries now es m
                     else load_entries now es (m(mac_string mac \<mapsto>
                         \<lparr>l_mac = mac, l_ip = ip, l_expiry = expiry, l_granted = zero_time\<rparr>)))))"

text \<open>\<open>readable\<close> says whether reading an existing file succeeds.\<close>

definition lease_load :: "time \<Rightarrow> bool \<Rightarrow> fs \<Rightarrow> lease_store \<Rightarrow> load_error option \<times> lease_store" where
  "lease_load now readable files s =
     (case files (lease_path s) of
        None \<Rightarrow> (Some NotExist, s)
      | Some f \<Rightarrow>
          if \<not> readable then (Some ReadFailed, s)
          else (case decode_lease_entries (f_data f) of
                  None \<Rightarrow> (Some ParseFailed, s)
                | Some es \<Rightarrow> (None, s\<lparr>lease_map := load_entries now es (lease_map s)\<rparr>)))"

section \<open>Loading what was saved\<close>

lemma field_is_lease [simp]:
  "field_is ''mac'' ''mac''" "\<not> field_is ''mac'' ''ip''" "\<not> field_is ''mac'' ''expiry''"
  "\<not> field_is ''ip'' ''mac''" "field_is ''ip'' ''ip''" "\<not> field_is ''ip'' ''expiry''"
  "\<not> field_is ''expiry'' ''mac''" "\<not> field_is ''expiry'' ''ip''" "field_is ''expiry'' ''expiry''"
  by code_simp+

lemma decode_lease_entry_json [simp]: "decode_lease_entry (lease_entry_json e) = Some e"
  by (simp add: decode_lease_entry_def lease_entry_json_def members_of_def json_string_def)

lemma decode_lease_list_map [simp]: "decode_lease_list (map lease_entry_json es) = Some es"
  by (induction es) simp_all

lemma decode_lease_data:
  "decode_lease_entries (lease_data loc ks s) =
     Some (map (\<lambda>(k, l). lease_entry_of loc l) (range_map ks (lease_map s)))"
proof -
  let ?es = "map (\<lambda>(k, l). lease_entry_of loc l) (range_map ks (lease_map s))"
  have "json_plain (if ?es = [] then JNull else JArr (map lease_entry_json ?es))"
    by (auto simp: lease_entry_json_def)
  from json_parse_marshal [OF this] show ?thesis
    by (simp add: decode_lease_entries_def lease_data_def Let_def del: map_map)
qed

text \<open>What comes back of one lease, and when its expiry can be written.\<close>

definition reloaded :: "lease \<Rightarrow> lease" where
  "reloaded l = l\<lparr>l_expiry := l_expiry l div second * second, l_granted := zero_time\<rparr>"

definition writable_lease :: "(time \<Rightarrow> int) \<Rightarrow> lease \<Rightarrow> bool" where
  "writable_lease loc l \<longleftrightarrow> length (l_mac l) \<in> {6, 8, 20} \<and> length (l_ip l) = 4 \<and>
     offset_ok (loc (l_expiry l)) \<and> year_ok (loc (l_expiry l)) (l_expiry l)"

lemma load_entries_one:
  assumes "writable_lease loc l"
  shows "load_entries now (lease_entry_of loc l # es) m =
    load_entries now es (if l_expiry (reloaded l) < now then m else m(mac_string (l_mac l) \<mapsto> reloaded l))"
proof -
  have "parse_mac (mac_string (l_mac l)) = Some (l_mac l)"
    using assms by (intro parse_mac_string) (simp add: writable_lease_def)
  moreover have "to4 (parse_ip (ip_string (l_ip l))) = l_ip l" "l_ip l \<noteq> []"
    using assms parse_ip_string [of "l_ip l"] by (auto simp: writable_lease_def)
  moreover have "parse_rfc3339 (format_rfc3339 (loc (l_expiry l)) (l_expiry l)) =
      Some (l_expiry l div second * second)"
    using assms by (intro parse_format_rfc3339) (simp_all add: writable_lease_def)
  moreover have "reloaded l =
      \<lparr>l_mac = l_mac l, l_ip = l_ip l, l_expiry = l_expiry l div second * second, l_granted = zero_time\<rparr>"
    by (simp add: reloaded_def)
  ultimately show ?thesis by (simp add: lease_entry_of_def Let_def)
qed

lemma load_entries_saved:
  assumes "\<forall>k l. lease_map s k = Some l \<longrightarrow> k = mac_string (l_mac l) \<and> writable_lease loc l"
  shows "load_entries now (map (\<lambda>(k, l). lease_entry_of loc l) (range_map ks (lease_map s))) m k =
    (case lease_map s k of
       None \<Rightarrow> m k
     | Some l \<Rightarrow> if k \<in> set ks \<and> now \<le> l_expiry (reloaded l) then Some (reloaded l) else m k)"
proof (induction ks arbitrary: m)
  case (Cons k' ks)
  show ?case
  proof (cases "lease_map s k'")
    case (Some l)
    then have "k' = mac_string (l_mac l)" "writable_lease loc l" using assms by auto
    with Some Cons.IH show ?thesis
      by (auto simp: load_entries_one simp del: load_entries.simps split: option.splits)
  qed (use Cons.IH in \<open>auto split: option.splits\<close>)
qed (auto split: option.splits)

section \<open>Loading any file\<close>

text \<open>Whatever the file holds, a loaded row is keyed by its hardware address and has an IPv4 address.\<close>

definition rows_named :: "(string \<rightharpoonup> lease) \<Rightarrow> bool" where
  "rows_named m \<longleftrightarrow> finite (dom m) \<and>
     (\<forall>k l. m k = Some l \<longrightarrow> k = mac_string (l_mac l) \<and> length (l_ip l) = 4)"

lemma load_entries_named: "rows_named m \<Longrightarrow> rows_named (load_entries now es m)"
proof (induction es arbitrary: m)
  case (Cons e es)
  have put: "rows_named (m(mac_string mac \<mapsto> \<lparr>l_mac = mac, l_ip = i, l_expiry = x, l_granted = g\<rparr>))"
    if "length i = 4" for mac i x g
    using Cons.prems that by (simp add: rows_named_def)
  show ?case
    by (auto simp: Let_def length_to4 Cons.prems split: option.splits intro!: Cons.IH put)
qed simp

lemma lease_wf_named: "lease_wf s \<longleftrightarrow> rows_named (lease_map s) \<and> inj_rows l_ip (lease_map s)"
  by (auto simp: lease_wf_def rows_named_def)

end
