(* ===== verification/Dhcp_Server.thy ===== *)
theory Dhcp_Server
  imports Ip_Pool Pending_Offers Lease_File
begin

text \<open>
  The server of \<open>dhcp/\<close>: its state, the construction of replies, and one definition per handler:
  DISCOVER, REQUEST, RELEASE, the cleanup tick, the restore at startup and the control endpoint.
  Every handler runs under the lifecycle mutex from its first to its last statement, so it is a function
  from server to server; \<open>None\<close> is a panic. What a run takes from outside is in a \<open>run\<close> record: the
  clock readings in the order of the code, the iteration orders of its ranges, and the outcome of
  every call that leaves the process, which is appended to the server's trace. The builder of
  replies, \<open>dhcpv4.NewReplyFromRequest\<close> followed by \<open>ToBytes\<close>, is third-party code and an argument.
\<close>

section \<open>Messages and configuration\<close>

text \<open>
  What the handlers read of a DHCP message: \<open>OpCode\<close>, \<open>MessageType()\<close>, \<open>ClientHWAddr\<close>, \<open>ClientIPAddr\<close>
  and \<open>RequestedIPAddress()\<close>; \<open>dm_rest\<close> stands for the remaining bytes, which only the reply builder reads.
\<close>

record dhcp_msg =
  dm_op :: byte
  dm_type :: byte
  dm_chaddr :: mac
  dm_ciaddr :: ip
  dm_requested :: ip
  dm_rest :: "byte list"

definition op_boot_request :: byte where "op_boot_request = 1"
definition type_discover :: byte where "type_discover = 1"
definition type_offer :: byte where "type_offer = 2"
definition type_request :: byte where "type_request = 3"
definition type_ack :: byte where "type_ack = 5"
definition type_nak :: byte where "type_nak = 6"
definition type_release :: byte where "type_release = 7"

lemmas dhcp_codes = op_boot_request_def type_discover_def type_offer_def type_request_def
  type_ack_def type_nak_def type_release_def

datatype reply_mod =
    WithMessageType byte
  | WithYourIP ip
  | WithServerIP ip
  | OptSubnetMask "byte list"
  | OptRouter ip
  | OptDNS "ip list"
  | OptIPAddressLeaseTime duration
  | OptServerIdentifier ip

type_synonym reply_builder = "dhcp_msg \<Rightarrow> reply_mod list \<Rightarrow> byte list option"

record dhcp_config =
  cf_interface :: string
  cf_gateway :: ip
  cf_mask :: "byte list"
  cf_dns :: "ip list"
  cf_lease_time :: duration
  cf_lease_file :: path
  cf_control_socket :: path

definition default_lease_time :: duration where "default_lease_time = 24 * 3600 * second"
definition offer_timeout_value :: duration where "offer_timeout_value = 60 * second"

section \<open>Calls that leave the process\<close>

text \<open>A \<open>net.Addr\<close>: a UDP address, or any other kind.\<close>

datatype peer = UdpPeer ip nat | OtherPeer string

record route =
  rt_dst :: ipnet
  rt_link :: int

datatype io_event =
    RouteReplace route bool
  | RouteDel route bool
  | SendPacket "byte list" peer bool
  | SaveLeases bool

definition host_route :: "ip \<Rightarrow> int \<Rightarrow> route" where
  "host_route ip link = \<lparr>rt_dst = \<lparr>net_ip = to4 ip, net_mask = cidr_mask 32 32\<rparr>, rt_link = link\<rparr>"

record dhcp_server =
  sv_conf :: dhcp_config
  sv_pool :: ip_pool
  sv_leases :: lease_store
  sv_offers :: pending_offers
  sv_link :: int
  sv_files :: fs
  sv_trace :: "io_event list"
  sv_total :: "string \<Rightarrow> nat"

text \<open>
  \<open>rn_clk n\<close> is the \<open>n\<close>-th clock reading, \<open>rn_io n\<close> the success of the call that becomes entry \<open>n\<close>
  of the trace; the orders are those of the ranges over the pool, the offers and the leases, the
  leases in the call of \<open>add\<close> and the leases in the call of \<open>save\<close>.
\<close>

record run =
  rn_clk :: "nat \<Rightarrow> time"
  rn_io :: "nat \<Rightarrow> bool"
  rn_disk :: disk
  rn_loc :: "time \<Rightarrow> int"
  rn_pool_order :: "u32 list"
  rn_offer_order :: "string list"
  rn_lease_order :: "string list"
  rn_add_order :: "string list"
  rn_save_order :: "string list"

definition emit :: "run \<Rightarrow> (bool \<Rightarrow> io_event) \<Rightarrow> dhcp_server \<Rightarrow> bool \<times> dhcp_server" where
  "emit e ev s = (let ok = rn_io e (length (sv_trace s)) in (ok, s\<lparr>sv_trace := sv_trace s @ [ev ok]\<rparr>))"

definition add_route :: "run \<Rightarrow> ip \<Rightarrow> dhcp_server \<Rightarrow> bool \<times> dhcp_server" where
  "add_route e ip s = emit e (RouteReplace (host_route ip (sv_link s))) s"

definition del_route :: "run \<Rightarrow> ip \<Rightarrow> dhcp_server \<Rightarrow> bool \<times> dhcp_server" where
  "del_route e ip s = emit e (RouteDel (host_route ip (sv_link s))) s"

definition send_packet :: "run \<Rightarrow> byte list \<Rightarrow> peer \<Rightarrow> dhcp_server \<Rightarrow> bool \<times> dhcp_server" where
  "send_packet e b peer s = emit e (SendPacket b peer) s"

text \<open>\<open>leases.save\<close> on the server's files; its outcome is decided by the disk, not by \<open>rn_io\<close>.\<close>

definition save_leases :: "run \<Rightarrow> dhcp_server \<Rightarrow> bool \<times> dhcp_server" where
  "save_leases e s =
     (case lease_save (rn_loc e) (rn_disk e) (rn_save_order e) (sv_leases s) (sv_files s) of
        (err, fs') \<Rightarrow> (err = None, s\<lparr>sv_files := fs', sv_trace := sv_trace s @ [SaveLeases (err = None)]\<rparr>))"

definition count_result :: "string \<Rightarrow> dhcp_server \<Rightarrow> dhcp_server" where
  "count_result r s = s\<lparr>sv_total := (sv_total s)(r := sv_total s r + 1)\<rparr>"

definition release_ip :: "ip \<Rightarrow> dhcp_server \<Rightarrow> dhcp_server option" where
  "release_ip ip s = do { p \<leftarrow> pool_release ip (sv_pool s); Some (s\<lparr>sv_pool := p\<rparr>) }"

section \<open>Replies: \<open>dhcp/reply.go\<close>\<close>

definition build_reply :: "reply_builder \<Rightarrow> dhcp_config \<Rightarrow> dhcp_msg \<Rightarrow> byte \<Rightarrow> ip \<Rightarrow> byte list option" where
  "build_reply nr c req t ip =
     nr req
       [WithMessageType t,
        WithYourIP ip,
        WithServerIP (cf_gateway c),
        OptSubnetMask (cf_mask c),
        OptRouter (cf_gateway c),
        OptDNS (cf_dns c),
        OptIPAddressLeaseTime (cf_lease_time c),
        OptServerIdentifier (cf_gateway c)]"

definition build_nak :: "reply_builder \<Rightarrow> dhcp_config \<Rightarrow> dhcp_msg \<Rightarrow> byte list option" where
  "build_nak nr c req =
     nr req [WithMessageType type_nak, WithServerIP (cf_gateway c), OptServerIdentifier (cf_gateway c)]"

definition send_nak :: "reply_builder \<Rightarrow> run \<Rightarrow> peer \<Rightarrow> dhcp_msg \<Rightarrow> dhcp_server \<Rightarrow> dhcp_server" where
  "send_nak nr e peer msg s =
     (case build_nak nr (sv_conf s) msg of
        None \<Rightarrow> s
      | Some b \<Rightarrow> snd (send_packet e b peer s))"

section \<open>DISCOVER: \<open>dhcp/discover.go\<close>\<close>

definition offer_ip :: "run \<Rightarrow> mac \<Rightarrow> dhcp_server \<Rightarrow> (ip \<times> dhcp_server) option" where
  "offer_ip e mac s =
     (case offers_ip_for_mac (rn_clk e 1) mac (sv_offers s) of
        ((ip, stale), offs) \<Rightarrow>
          do { s1 \<leftarrow> (if stale \<noteq> [] then release_ip stale (s\<lparr>sv_offers := offs\<rparr>)
                      else Some (s\<lparr>sv_offers := offs\<rparr>));
               let (ip2, s2) = (if ip \<noteq> [] then (ip, s1)
                 else (case pool_allocate (rn_pool_order e) (sv_pool s1) of
                         (i, p) \<Rightarrow> (i, s1\<lparr>sv_pool := p\<rparr>)));
               Some (if ip2 = [] then ([], s2)
                     else (ip2, s2\<lparr>sv_offers := offers_add (rn_clk e 2) mac ip2 (sv_offers s2)\<rparr>)) })"

definition handle_discover ::
    "reply_builder \<Rightarrow> run \<Rightarrow> peer \<Rightarrow> dhcp_msg \<Rightarrow> mac \<Rightarrow> dhcp_server \<Rightarrow> dhcp_server option" where
  "handle_discover nr e peer msg mac s =
     do { let leased = lease_ip_for_mac (rn_clk e 0) mac (sv_leases s);
          (ip, s1) \<leftarrow> (if leased = [] then offer_ip e mac s else Some (leased, s));
          Some (if ip = [] then s1
                else (case build_reply nr (sv_conf s1) msg type_offer ip of
                        None \<Rightarrow> s1
                      | Some b \<Rightarrow> snd (send_packet e b peer s1))) }"

section \<open>RELEASE: \<open>dhcp/release.go\<close>\<close>

definition free_ip :: "run \<Rightarrow> ip \<Rightarrow> dhcp_server \<Rightarrow> dhcp_server option" where
  "free_ip e ip s = release_ip ip (snd (del_route e ip s))"

text \<open>The result is whether a lease existed, whether an error is returned, and the server left.\<close>

definition release_lease :: "run \<Rightarrow> mac \<Rightarrow> dhcp_server \<Rightarrow> ((bool \<times> bool) \<times> dhcp_server) option" where
  "release_lease e mac s =
     (case lease_take mac (sv_leases s) of
        (None, ls) \<Rightarrow> Some ((False, False), s\<lparr>sv_leases := ls\<rparr>)
      | (Some l, ls) \<Rightarrow>
          (case save_leases e (s\<lparr>sv_leases := ls\<rparr>) of
             (ok, s1) \<Rightarrow>
               if \<not> ok then Some ((True, True), s1\<lparr>sv_leases := lease_restore_all [l] (sv_leases s1)\<rparr>)
               else do { s2 \<leftarrow> free_ip e (l_ip l) s1; Some ((True, False), s2) }))"

definition release_source_ok :: "peer \<Rightarrow> dhcp_msg \<Rightarrow> lease \<Rightarrow> bool" where
  "release_source_ok peer msg l =
     (case peer of
        UdpPeer src _ \<Rightarrow> ip_equal src (l_ip l) \<and> ip_equal (dm_ciaddr msg) (l_ip l)
      | OtherPeer _ \<Rightarrow> False)"

definition handle_release ::
    "run \<Rightarrow> peer \<Rightarrow> dhcp_msg \<Rightarrow> mac \<Rightarrow> time \<Rightarrow> dhcp_server \<Rightarrow> dhcp_server option" where
  "handle_release e peer msg mac arrived s =
     (case lease_active (rn_clk e 0) mac (sv_leases s) of
        None \<Rightarrow> Some s
      | Some l \<Rightarrow>
          if \<not> release_source_ok peer msg l then Some s
          else if l_granted l > arrived then Some s
          else map_option snd (release_lease e mac s))"

section \<open>REQUEST: \<open>dhcp/request.go\<close>\<close>

definition requested_ip :: "dhcp_msg \<Rightarrow> ip" where
  "requested_ip msg =
     (if dm_requested msg = [] \<or> is_unspecified (dm_requested msg) then dm_ciaddr msg
      else dm_requested msg)"

text \<open>The loop over the evicted leases: the client's own old address is freed, the rest is logged.\<close>

fun free_rebound :: "run \<Rightarrow> mac \<Rightarrow> evicted_lease list \<Rightarrow> dhcp_server \<Rightarrow> dhcp_server option" where
  "free_rebound e mac [] s = Some s"
| "free_rebound e mac (ev # evs) s =
     (if ev_mac ev = mac_string mac
      then do { s1 \<leftarrow> free_ip e (ev_ip ev) s; free_rebound e mac evs s1 }
      else free_rebound e mac evs s)"

text \<open>The client's offer is dropped; the address of an offer other than the granted one is released.\<close>

definition drop_offer :: "mac \<Rightarrow> ip \<Rightarrow> dhcp_server \<Rightarrow> dhcp_server option" where
  "drop_offer mac ip s =
     (case offers_remove mac (sv_offers s) of
        (old, offs) \<Rightarrow>
          if old \<noteq> [] \<and> \<not> ip_equal old ip then release_ip old (s\<lparr>sv_offers := offs\<rparr>)
          else Some (s\<lparr>sv_offers := offs\<rparr>))"

text \<open>\<open>add\<close> and the loop over what it evicted.\<close>

definition install_lease :: "run \<Rightarrow> mac \<Rightarrow> ip \<Rightarrow> time \<Rightarrow> dhcp_server \<Rightarrow> dhcp_server option" where
  "install_lease e mac ip arrived s =
     (case lease_add (rn_add_order e) mac ip (cf_lease_time (sv_conf s)) arrived (sv_leases s) of
        (evs, ls) \<Rightarrow> free_rebound e mac evs (s\<lparr>sv_leases := ls\<rparr>))"

text \<open>The transaction once the address is the client's: drop the offer, install the lease, save, send.\<close>

definition commit_lease ::
    "run \<Rightarrow> peer \<Rightarrow> mac \<Rightarrow> ip \<Rightarrow> byte list \<Rightarrow> time \<Rightarrow> dhcp_server \<Rightarrow> (bool \<times> dhcp_server) option" where
  "commit_lease e peer mac ip resp arrived s =
     do { s1 \<leftarrow> drop_offer mac ip s;
          s2 \<leftarrow> install_lease e mac ip arrived s1;
          let (saved, s3) = save_leases e s2;
          Some (if saved then send_packet e resp peer s3 else (False, s3)) }"

text \<open>\<open>unclaim\<close>: the error paths give back an address claimed by this run.\<close>

definition unclaim :: "bool \<Rightarrow> ip \<Rightarrow> dhcp_server \<Rightarrow> dhcp_server option" where
  "unclaim held ip s = (if held then Some s else release_ip ip s)"

text \<open>
  A grant attempt, from the check against other leases on. The result is whether the ACK reached the
  wire; clock readings 1, 2 and 3 are those of \<open>isLeasedToOther\<close>, \<open>isOfferedTo\<close> and \<open>isLeasedTo\<close>.
\<close>

definition already_held :: "run \<Rightarrow> mac \<Rightarrow> ip \<Rightarrow> dhcp_server \<Rightarrow> bool" where
  "already_held e mac ip s \<longleftrightarrow>
     is_offered_to (rn_clk e 2) mac ip (sv_offers s) \<or> is_leased_to (rn_clk e 3) mac ip (sv_leases s)"

definition grant ::
    "reply_builder \<Rightarrow> run \<Rightarrow> peer \<Rightarrow> dhcp_msg \<Rightarrow> mac \<Rightarrow> time \<Rightarrow> dhcp_server \<Rightarrow> (bool \<times> dhcp_server) option"
  where
  "grant nr e peer msg mac arrived s =
     (let ip = requested_ip msg in
      if is_leased_to_other (rn_clk e 1) (rn_lease_order e) mac ip (sv_leases s)
      then Some (False, send_nak nr e peer msg s)
      else
        (let held = already_held e mac ip s in
         do { (claimed, s1) \<leftarrow> (if held then Some (True, s)
                else do { (b, p) \<leftarrow> pool_try_claim ip (sv_pool s); Some (b, s\<lparr>sv_pool := p\<rparr>) });
              if \<not> claimed then Some (False, send_nak nr e peer msg s1)
              else (case build_reply nr (sv_conf s1) msg type_ack ip of
                      None \<Rightarrow> do { s2 \<leftarrow> unclaim held ip s1; Some (False, s2) }
                    | Some resp \<Rightarrow>
                        (case add_route e ip s1 of
                           (routed, s2) \<Rightarrow>
                             if \<not> routed
                             then do { s3 \<leftarrow> unclaim held ip s2; Some (False, send_nak nr e peer msg s3) }
                             else commit_lease e peer mac ip resp arrived s2)) }))"

definition overtaken :: "run \<Rightarrow> mac \<Rightarrow> time \<Rightarrow> dhcp_server \<Rightarrow> bool" where
  "overtaken e mac arrived s \<longleftrightarrow>
     (case lease_active (rn_clk e 0) mac (sv_leases s) of
        None \<Rightarrow> False | Some l \<Rightarrow> l_granted l > arrived)"

definition handle_request ::
    "reply_builder \<Rightarrow> run \<Rightarrow> peer \<Rightarrow> dhcp_msg \<Rightarrow> mac \<Rightarrow> time \<Rightarrow> dhcp_server \<Rightarrow> dhcp_server option" where
  "handle_request nr e peer msg mac arrived s =
     (if requested_ip msg = [] \<or> is_unspecified (requested_ip msg) then Some s
      else if overtaken e mac arrived s then Some s
      else do { (ok, s1) \<leftarrow> grant nr e peer msg mac arrived s;
                Some (count_result (if ok then ''ok'' else ''failed'') s1) })"

section \<open>Dispatch: \<open>dhcp/server.go\<close>\<close>

definition reply_peer :: "peer \<Rightarrow> peer" where
  "reply_peer peer =
     (case peer of
        UdpPeer src port \<Rightarrow> if src = [] \<or> is_unspecified src then UdpPeer ipv4_bcast port else peer
      | OtherPeer _ \<Rightarrow> peer)"

definition handler ::
    "reply_builder \<Rightarrow> run \<Rightarrow> peer \<Rightarrow> dhcp_msg \<Rightarrow> time \<Rightarrow> dhcp_server \<Rightarrow> dhcp_server option" where
  "handler nr e peer msg arrived s =
     (if dm_op msg \<noteq> op_boot_request then Some s
      else
        (let mac = dm_chaddr msg in
         if dm_type msg = type_discover then handle_discover nr e peer msg mac s
         else if dm_type msg = type_request then handle_request nr e peer msg mac arrived s
         else if dm_type msg = type_release then handle_release e peer msg mac arrived s
         else Some s))"

section \<open>Cleanup and restore: \<open>dhcp/cleanup.go\<close>\<close>

fun release_all :: "ip list \<Rightarrow> dhcp_server \<Rightarrow> dhcp_server option" where
  "release_all [] s = Some s"
| "release_all (ip # ips) s = do { s1 \<leftarrow> release_ip ip s; release_all ips s1 }"

fun free_all :: "run \<Rightarrow> lease list \<Rightarrow> dhcp_server \<Rightarrow> dhcp_server option" where
  "free_all e [] s = Some s"
| "free_all e (l # ls) s = do { s1 \<leftarrow> free_ip e (l_ip l) s; free_all e ls s1 }"

definition cleanup_tick :: "run \<Rightarrow> dhcp_server \<Rightarrow> dhcp_server option" where
  "cleanup_tick e s =
     do { let (ips, offs) = offers_expire_old (rn_clk e 0) (rn_offer_order e) (sv_offers s);
          s1 \<leftarrow> release_all ips (s\<lparr>sv_offers := offs\<rparr>);
          let (expired, ls) = lease_expire_old (rn_clk e 1) (rn_lease_order e) (sv_leases s1);
          let s2 = s1\<lparr>sv_leases := ls\<rparr>;
          let (saved, s3) = (if expired \<noteq> [] then save_leases e s2 else (True, s2));
          if \<not> saved then Some (s3\<lparr>sv_leases := lease_restore_all expired (sv_leases s3)\<rparr>)
          else free_all e expired s3 }"

fun restore_loop :: "run \<Rightarrow> lease list \<Rightarrow> dhcp_server \<Rightarrow> dhcp_server option" where
  "restore_loop e [] s = Some s"
| "restore_loop e (l # ls) s =
     do { (in_pool, p) \<leftarrow> pool_mark_used (l_ip l) (sv_pool s);
          let s1 = s\<lparr>sv_pool := p\<rparr>;
          restore_loop e ls
            (if \<not> in_pool
             then snd (del_route e (l_ip l) (s1\<lparr>sv_leases := snd (lease_take (l_mac l) (sv_leases s1))\<rparr>))
             else snd (add_route e (l_ip l) s1)) }"

definition restore_leases :: "run \<Rightarrow> dhcp_server \<Rightarrow> dhcp_server option" where
  "restore_leases e s = restore_loop e (active_leases (rn_clk e 1) (rn_lease_order e) (sv_leases s)) s"

section \<open>Construction and startup: \<open>New\<close> and \<open>Run\<close>\<close>

definition new_server :: "dhcp_config \<Rightarrow> ip list \<Rightarrow> fs \<Rightarrow> dhcp_server option" where
  "new_server c ips files =
     do { p \<leftarrow> new_ip_pool ips;
          Some \<lparr>sv_conf = c\<lparr>cf_lease_time :=
                   (if cf_lease_time c \<noteq> 0 then cf_lease_time c else default_lease_time)\<rparr>,
                sv_pool = p,
                sv_leases = new_lease_store (cf_lease_file c),
                sv_offers = new_pending_offers offer_timeout_value,
                sv_link = 0, sv_files = files, sv_trace = [], sv_total = (\<lambda>_. 0)\<rparr> }"

text \<open>
  \<open>Run\<close> up to the start of its goroutines: resolve the interface, load the lease file, and restore
  when it was read. A missing or unreadable file starts an empty table. \<open>link\<close> is the index
  netlink reports, \<open>readable\<close> whether reading an existing lease file succeeds; the result is \<open>Inl\<close>
  when \<open>Run\<close> returns an error.
\<close>

datatype run_error = ResolveInterface | StartControl | CreateConn

definition run_start ::
    "run \<Rightarrow> int option \<Rightarrow> bool \<Rightarrow> bool \<Rightarrow> bool \<Rightarrow> dhcp_server \<Rightarrow> (run_error + dhcp_server) option" where
  "run_start e link readable control_ok conn_ok s =
     (case link of
        None \<Rightarrow> Some (Inl ResolveInterface)
      | Some idx \<Rightarrow>
          (case lease_load (rn_clk e 0) readable (sv_files s) (sv_leases s) of
             (err, ls) \<Rightarrow>
               do { let s1 = s\<lparr>sv_link := idx, sv_leases := ls\<rparr>;
                    s2 \<leftarrow> (if err = None then restore_leases e s1 else Some s1);
                    Some (if \<not> control_ok then Inl StartControl
                          else if \<not> conn_ok then Inl CreateConn
                          else Inr s2) }))"

definition pool_available :: "dhcp_server \<Rightarrow> nat" where
  "pool_available s = pool_free_count (sv_pool s)"

definition active_lease_count :: "run \<Rightarrow> dhcp_server \<Rightarrow> nat" where
  "active_lease_count e s = active_count (rn_clk e 0) (rn_lease_order e) (sv_leases s)"

section \<open>The control endpoint: \<open>dhcp/control.go\<close>\<close>

text \<open>\<open>DELETE /v1/leases/{mac}\<close>: the status code and the server left.\<close>

definition handle_lease_control :: "run \<Rightarrow> string \<Rightarrow> dhcp_server \<Rightarrow> (nat \<times> dhcp_server) option" where
  "handle_lease_control e path_mac s =
     (case parse_mac path_mac of
        None \<Rightarrow> Some (400, s)
      | Some mac \<Rightarrow>
          do { ((found, failed), s1) \<leftarrow> release_lease e mac s;
               Some (if failed then 500 else 204, s1) })"

end
