(* ===== verification/Dhcp_Owner.thy ===== *)
theory Dhcp_Owner
  imports Dhcp_Server
begin

text \<open>
  Who owns an address: the pool's used set is split between the offers, the leases and the addresses
  held by the handler that is running. One lemma per table operation says which address changes
  hands; the handlers are sequences of these moves.
\<close>

section \<open>Owners\<close>

abbreviation offer_key :: "pending_offer \<Rightarrow> u32" where "offer_key o1 \<equiv> key4 (po_ip o1)"
abbreviation lease_key :: "lease \<Rightarrow> u32" where "lease_key l \<equiv> key4 (l_ip l)"

definition offer_keys :: "pending_offers \<Rightarrow> u32 set" where
  "offer_keys os = row_keys offer_key (offer_map os)"

definition lease_keys :: "lease_store \<Rightarrow> u32 set" where
  "lease_keys ls = row_keys lease_key (lease_map ls)"

text \<open>\<open>B\<close> is what the running handler holds; between handlers it is empty.\<close>

definition owns :: "u32 set \<Rightarrow> ip_pool \<Rightarrow> pending_offers \<Rightarrow> lease_store \<Rightarrow> bool" where
  "owns B p os ls \<longleftrightarrow>
     pool_wf p \<and> offers_wf os \<and> lease_wf ls \<and>
     pool_used p = offer_keys os \<union> lease_keys ls \<union> B \<and>
     offer_keys os \<inter> lease_keys ls = {} \<and> B \<inter> (offer_keys os \<union> lease_keys ls) = {}"

definition server_inv :: "dhcp_server \<Rightarrow> bool" where
  "server_inv s \<longleftrightarrow> owns {} (sv_pool s) (sv_offers s) (sv_leases s)"

lemma ownsD:
  "owns B p os ls \<Longrightarrow> pool_wf p" "owns B p os ls \<Longrightarrow> offers_wf os" "owns B p os ls \<Longrightarrow> lease_wf ls"
  by (simp_all add: owns_def)

lemma offers_wf_entry: "offers_wf os \<Longrightarrow> offer_map os k = Some o1 \<Longrightarrow> length (po_ip o1) = 4"
  by (simp add: offers_wf_def)

lemma offers_wf_sub: "offers_wf os \<Longrightarrow> offer_map os' \<subseteq>\<^sub>m offer_map os \<Longrightarrow> offers_wf os'"
  unfolding offers_wf_def by (auto intro: finite_dom_sub inj_rows_sub dest: map_leD)

lemma offers_inj_key: "offers_wf os \<Longrightarrow> inj_rows offer_key (offer_map os)"
  unfolding inj_rows_def
proof (intro allI impI)
  fix k k' o1 o2
  assume w: "offers_wf os" and r: "offer_map os k = Some o1" "offer_map os k' = Some o2"
    and e: "offer_key o1 = offer_key o2"
  then have "po_ip o1 = po_ip o2"
    using offers_wf_entry [OF w r(1)] offers_wf_entry [OF w r(2)] key4_eq_iff by blast
  then show "k = k'" using w r inj_rowsD [of po_ip "offer_map os"] by (simp add: offers_wf_def)
qed

lemma lease_inj_key: "lease_wf ls \<Longrightarrow> inj_rows lease_key (lease_map ls)"
  unfolding inj_rows_def
proof (intro allI impI)
  fix k k' l1 l2
  assume w: "lease_wf ls" and r: "lease_map ls k = Some l1" "lease_map ls k' = Some l2"
    and e: "lease_key l1 = lease_key l2"
  then have "l_ip l1 = l_ip l2"
    using lease_wf_entry [OF w r(1)] lease_wf_entry [OF w r(2)] key4_eq_iff by blast
  then show "k = k'" using w r inj_rowsD [of l_ip "lease_map ls"] by (simp add: lease_wf_def)
qed

lemma offer_keysI: "offer_map os k = Some o1 \<Longrightarrow> offer_key o1 \<in> offer_keys os"
  by (auto simp: offer_keys_def row_keys_iff)

lemma lease_keysI: "lease_map ls k = Some l \<Longrightarrow> lease_key l \<in> lease_keys ls"
  by (auto simp: lease_keys_def row_keys_iff)

lemma owns_empty: "pool_wf p \<Longrightarrow> pool_used p = {} \<Longrightarrow> offer_map os = Map.empty \<Longrightarrow>
    lease_map ls = Map.empty \<Longrightarrow> owns {} p os ls"
  by (simp add: owns_def offers_wf_def lease_wf_def offer_keys_def lease_keys_def)

section \<open>Moves of the pool\<close>

lemma owns_allocate:
  assumes "owns B p os ls" and "pool_allocate ks p = (ip, p')" and "ip \<noteq> []"
  shows "length ip = 4" and "key4 ip \<notin> offer_keys os \<union> lease_keys ls \<union> B"
    and "owns (insert (key4 ip) B) p' os ls"
proof -
  note t = ipp.take_some [OF assms(2) ownsD(1) [OF assms(1)] assms(3)]
  then show "length ip = 4" by simp
  show n: "key4 ip \<notin> offer_keys os \<union> lease_keys ls \<union> B"
    using t ipp.wf_disjoint [OF ownsD(1) [OF assms(1)]] assms(1) by (auto simp: owns_def)
  show "owns (insert (key4 ip) B) p' os ls" using t n assms(1) by (auto simp: owns_def)
qed

lemma owns_claim:
  assumes "owns B p os ls" and "pool_try_claim ip p = Some (True, p')"
  shows "to4 ip \<noteq> []" and "key4 ip \<notin> offer_keys os \<union> lease_keys ls \<union> B"
    and "owns (insert (key4 ip) B) p' os ls"
proof -
  note t = ipp.claim_yes [OF assms(2) ownsD(1) [OF assms(1)]]
  show "to4 ip \<noteq> []" using assms(2) ipp.claim_none [of ip p] by auto
  show n: "key4 ip \<notin> offer_keys os \<union> lease_keys ls \<union> B"
    using t ipp.wf_disjoint [OF ownsD(1) [OF assms(1)]] assms(1) by (auto simp: owns_def)
  show "owns (insert (key4 ip) B) p' os ls" using t n assms(1) by (auto simp: owns_def)
qed

lemma owns_release:
  assumes "owns B p os ls" and "pool_release ip p = Some p'" and "key4 ip \<in> B"
  shows "owns (B - {key4 ip}) p' os ls"
  using ipp.give_back_some [OF assms(2) ownsD(1) [OF assms(1)]] assms(1,3) by (auto simp: owns_def)

lemma owns_release_ex:
  assumes "owns B p os ls" and "to4 ip \<noteq> []" and "key4 ip \<in> B"
  obtains p' where "pool_release ip p = Some p'" and "owns (B - {key4 ip}) p' os ls"
  using ipp.give_back_none [of ip p] owns_release [OF assms(1) _ assms(3)] assms(2) by auto

section \<open>Moves of the offers\<close>

lemma offers_wf_put:
  assumes "offers_wf os" and "length (po_ip o1) = 4"
    and "\<forall>k' o'. offer_map os k' = Some o' \<longrightarrow> k' \<noteq> k \<longrightarrow> po_ip o' \<noteq> po_ip o1"
    and "offer_map os' = (offer_map os)(k \<mapsto> o1)"
  shows "offers_wf os'"
  using assms by (simp add: offers_wf_def inj_rows_upd)

lemma owns_offer_put:
  assumes o: "owns B p os ls" and len: "to4 ip \<noteq> []" and b: "key4 ip \<in> B"
    and free: "offer_map os (mac_string mac) = None"
  shows "owns (B - {key4 ip}) p (offers_add now mac ip os) ls"
proof -
  let ?o = "\<lparr>po_ip = to4 ip, po_expiry = now + offer_timeout os\<rparr>"
  have m: "offer_map (offers_add now mac ip os) = (offer_map os)(mac_string mac \<mapsto> ?o)"
    by (simp add: offers_add_def)
  have "offer_keys (offers_add now mac ip os) = insert (key4 ip) (offer_keys os)"
    by (simp add: offer_keys_def m row_keys_put free)
  moreover have "offers_wf (offers_add now mac ip os)"
  proof (rule offers_wf_put [OF ownsD(2) [OF o] _ _ m])
    show "length (po_ip ?o) = 4" using len by (simp add: length_to4)
    show "\<forall>k' o'. offer_map os k' = Some o' \<longrightarrow> k' \<noteq> mac_string mac \<longrightarrow> po_ip o' \<noteq> po_ip ?o"
      using o b offer_keysI by (fastforce simp: owns_def)
  qed
  ultimately show ?thesis using o b by (auto simp: owns_def)
qed

lemma owns_offer_refresh:
  assumes o: "owns B p os ls" and row: "offer_map os (mac_string mac) = Some o1"
  shows "owns B p (offers_add now mac (po_ip o1) os) ls"
proof -
  have len: "length (po_ip o1) = 4" using offers_wf_entry [OF ownsD(2) [OF o] row] .
  let ?o = "\<lparr>po_ip = po_ip o1, po_expiry = now + offer_timeout os\<rparr>"
  have m: "offer_map (offers_add now mac (po_ip o1) os) = (offer_map os)(mac_string mac \<mapsto> ?o)"
    using len by (simp add: offers_add_def)
  have "offer_keys (offers_add now mac (po_ip o1) os) = offer_keys os"
    unfolding offer_keys_def m by (rule row_keys_same [where v = o1]) (simp_all add: row)
  moreover have "offers_wf (offers_add now mac (po_ip o1) os)"
  proof (rule offers_wf_put [OF ownsD(2) [OF o] _ _ m])
    show "\<forall>k' o'. offer_map os k' = Some o' \<longrightarrow> k' \<noteq> mac_string mac \<longrightarrow> po_ip o' \<noteq> po_ip ?o"
      using ownsD(2) [OF o] row by (auto simp: offers_wf_def dest: inj_rowsD)
  qed (simp add: len)
  ultimately show ?thesis using o by (auto simp: owns_def)
qed

lemma owns_offer_drop:
  assumes o: "owns B p os ls" and row: "offer_map os k = Some o1"
    and m: "offer_map os' = (offer_map os)(k := None)"
  shows "owns (insert (offer_key o1) B) p os' ls"
proof -
  have "offer_keys os' = offer_keys os - {offer_key o1}"
    unfolding offer_keys_def m by (rule row_keys_del [OF offers_inj_key [OF ownsD(2) [OF o]] row])
  moreover have "offers_wf os'"
    by (rule offers_wf_sub [OF ownsD(2) [OF o]]) (simp add: m map_le_del)
  ultimately show ?thesis using o offer_keysI [OF row] by (auto simp: owns_def)
qed

lemma owns_offer_sweep:
  assumes o: "owns B p os ls"
  shows "owns (offer_key ` set (fst (offers_sweep now ks os)) \<union> B) p (snd (offers_sweep now ks os)) ls"
proof -
  have "offer_keys (snd (offers_sweep now ks os)) =
      offer_keys os - offer_key ` set (fst (offers_sweep now ks os))"
    unfolding offer_keys_def by (rule offers_table.sweep_keys [OF offers_inj_key [OF ownsD(2) [OF o]]])
  moreover have "offer_key ` set (fst (offers_sweep now ks os)) \<subseteq> offer_keys os"
    using offers_table.sweep_removed by (auto intro: offer_keysI)
  moreover have "offers_wf (snd (offers_sweep now ks os))"
    by (rule offers_wf_sub [OF ownsD(2) [OF o] offers_table.sweep_sub])
  ultimately show ?thesis using o by (auto simp: owns_def)
qed

section \<open>Moves of the leases\<close>

lemma owns_lease_put:
  assumes o: "owns B p os ls" and len: "length (l_ip l) = 4"
    and b: "lease_key l \<in> B" and free: "lease_map ls (mac_string (l_mac l)) = None"
    and m: "lease_map ls' = (lease_map ls)(mac_string (l_mac l) \<mapsto> l)"
  shows "owns (B - {lease_key l}) p os ls'"
proof -
  have "lease_keys ls' = insert (lease_key l) (lease_keys ls)"
    by (simp add: lease_keys_def m row_keys_put free)
  moreover have "lease_wf ls'"
  proof (rule lease_wf_put [OF ownsD(3) [OF o] len _ m])
    show "\<forall>k' l'. lease_map ls k' = Some l' \<longrightarrow> k' \<noteq> mac_string (l_mac l) \<longrightarrow> l_ip l' \<noteq> l_ip l"
      using o b lease_keysI by (fastforce simp: owns_def)
  qed
  ultimately show ?thesis using o b by (auto simp: owns_def)
qed

lemma owns_lease_renew:
  assumes o: "owns B p os ls" and row: "lease_map ls (mac_string (l_mac l)) = Some l0"
    and same: "l_ip l = l_ip l0"
    and m: "lease_map ls' = (lease_map ls)(mac_string (l_mac l) \<mapsto> l)"
  shows "owns B p os ls'"
proof -
  have "lease_keys ls' = lease_keys ls"
    unfolding lease_keys_def m by (rule row_keys_same [where v = l0]) (simp_all add: row same)
  moreover have "lease_wf ls'"
  proof (rule lease_wf_put [OF ownsD(3) [OF o] _ _ m])
    show "length (l_ip l) = 4" using lease_wf_entry [OF ownsD(3) [OF o] row] same by simp
    show "\<forall>k' l'. lease_map ls k' = Some l' \<longrightarrow> k' \<noteq> mac_string (l_mac l) \<longrightarrow> l_ip l' \<noteq> l_ip l"
      using ownsD(3) [OF o] row same by (auto simp: lease_wf_def dest: inj_rowsD)
  qed
  ultimately show ?thesis using o by (auto simp: owns_def)
qed

lemma owns_lease_drop:
  assumes o: "owns B p os ls" and row: "lease_map ls k = Some l"
    and m: "lease_map ls' = (lease_map ls)(k := None)"
  shows "owns (insert (lease_key l) B) p os ls'"
proof -
  have "lease_keys ls' = lease_keys ls - {lease_key l}"
    unfolding lease_keys_def m by (rule row_keys_del [OF lease_inj_key [OF ownsD(3) [OF o]] row])
  moreover have "lease_wf ls'"
    by (rule lease_wf_sub [OF ownsD(3) [OF o]]) (simp add: m map_le_del)
  ultimately show ?thesis using o lease_keysI [OF row] by (auto simp: owns_def)
qed

lemma owns_lease_sweep:
  assumes o: "owns B p os ls"
  shows "owns (lease_key ` set (fst (lease_expire_old now ks ls)) \<union> B) p os (snd (lease_expire_old now ks ls))"
proof -
  have "lease_keys (snd (lease_expire_old now ks ls)) =
      lease_keys ls - lease_key ` set (fst (lease_expire_old now ks ls))"
    unfolding lease_keys_def by (rule lease_table.sweep_keys [OF lease_inj_key [OF ownsD(3) [OF o]]])
  moreover have "lease_key ` set (fst (lease_expire_old now ks ls)) \<subseteq> lease_keys ls"
    using lease_table.sweep_removed by (auto intro: lease_keysI)
  moreover have "lease_wf (snd (lease_expire_old now ks ls))"
    by (rule lease_wf_sub [OF ownsD(3) [OF o] lease_table.sweep_sub])
  ultimately show ?thesis using o by (auto simp: owns_def)
qed

text \<open>
  \<open>add\<close>: the running handler holds the address, or the client already leases it. The address becomes
  the client's lease, and the handler is left with the client's previous address, if that was another.
\<close>

lemma owns_unheld:
  assumes o: "owns B p os ls" and len: "to4 ip \<noteq> []"
    and h: "key4 ip \<in> B \<or> (\<exists>l. lease_map ls (mac_string mac) = Some l \<and> l_ip l = to4 ip)"
  shows "ip_unheld (mac_string mac) ip ls"
  unfolding ip_unheld_def
proof (intro allI impI)
  fix k l assume l: "lease_map ls k = Some l" "k \<noteq> mac_string mac"
  show "l_ip l \<noteq> to4 ip"
  proof
    assume e: "l_ip l = to4 ip"
    then have "key4 ip = lease_key l" by simp
    then have "key4 ip \<notin> B" using o lease_keysI [OF l(1)] by (auto simp: owns_def)
    then obtain l' where "lease_map ls (mac_string mac) = Some l'" "l_ip l' = to4 ip" using h by blast
    with e l ownsD(3) [OF o] show False by (auto simp: lease_wf_def dest: inj_rowsD)
  qed
qed

definition rebound_ips :: "mac \<Rightarrow> ip \<Rightarrow> lease_store \<Rightarrow> ip list" where
  "rebound_ips mac ip ls = (case lease_map ls (mac_string mac) of
     None \<Rightarrow> [] | Some l \<Rightarrow> if l_ip l = to4 ip then [] else [l_ip l])"

lemma rebound_ipsD:
  "i \<in> set (rebound_ips mac ip ls) \<Longrightarrow>
   \<exists>l. lease_map ls (mac_string mac) = Some l \<and> i = l_ip l \<and> l_ip l \<noteq> to4 ip"
  unfolding rebound_ips_def by (cases "lease_map ls (mac_string mac)") (auto split: if_splits)

lemma owns_lease_add:
  assumes o: "owns B p os ls" and len: "to4 ip \<noteq> []"
    and h: "key4 ip \<in> B \<or> (\<exists>l. lease_map ls (mac_string mac) = Some l \<and> l_ip l = to4 ip)"
    and a: "lease_add ks mac ip d granted ls = (evs, ls')"
  shows "evs = map (\<lambda>i. \<lparr>ev_mac = mac_string mac, ev_ip = i\<rparr>) (rebound_ips mac ip ls)"
    and "lease_map ls' = (lease_map ls)(mac_string mac \<mapsto>
           \<lparr>l_mac = mac, l_ip = to4 ip, l_expiry = granted + d, l_granted = granted\<rparr>)"
    and "owns (key4 ` set (rebound_ips mac ip ls) \<union> (B - {key4 ip})) p os ls'"
proof -
  let ?l = "\<lparr>l_mac = mac, l_ip = to4 ip, l_expiry = granted + d, l_granted = granted\<rparr>"
  have len4: "length (to4 ip) = 4" using len by (simp add: length_to4)
  note un = lease_add_unheld [OF ownsD(3) [OF o] owns_unheld [OF o len h] len, of ks d granted]
  show "evs = map (\<lambda>i. \<lparr>ev_mac = mac_string mac, ev_ip = i\<rparr>) (rebound_ips mac ip ls)"
    using a un by (auto simp: rebound_ips_def split: option.splits)
  show m: "lease_map ls' = (lease_map ls)(mac_string mac \<mapsto> ?l)" using a un by auto
  show "owns (key4 ` set (rebound_ips mac ip ls) \<union> (B - {key4 ip})) p os ls'"
  proof (cases "lease_map ls (mac_string mac)")
    case None
    with h have "key4 ip \<in> B" by simp
    then show ?thesis
      using owns_lease_put [OF o, of ?l ls'] None m len4 by (simp add: rebound_ips_def)
  next
    case (Some l0)
    show ?thesis
    proof (cases "l_ip l0 = to4 ip")
      case True
      then have "key4 ip \<notin> B" using o lease_keysI [OF Some] by (auto simp: owns_def)
      then show ?thesis
        using owns_lease_renew [OF o, of ?l l0 ls'] Some True m by (simp add: rebound_ips_def)
    next
      case False
      with h Some have b: "key4 ip \<in> B" by simp
      let ?d = "ls\<lparr>lease_map := (lease_map ls)(mac_string mac := None)\<rparr>"
      have "owns (insert (lease_key l0) B) p os ?d" by (rule owns_lease_drop [OF o Some]) simp
      then have "owns (insert (lease_key l0) B - {key4 ip}) p os ls'"
        using owns_lease_put [of "insert (lease_key l0) B" p os ?d ?l ls'] b m len4 by simp
      moreover have "lease_key l0 \<noteq> key4 ip"
        using False lease_wf_entry [OF ownsD(3) [OF o] Some] len4 key4_eq_iff [of "l_ip l0" "to4 ip"] by simp
      ultimately show ?thesis using Some False by (simp add: rebound_ips_def insert_Diff_if)
    qed
  qed
qed

end
