(* ===== verification/Dhcp_Handlers.thy ===== *)
theory Dhcp_Handlers
  imports Dhcp_Owner
begin

text \<open>
  What every handler does to the server: it does not panic, it keeps the ownership of addresses
  (\<open>server_inv\<close>), and it touches no row of a client other than the one it runs for
  (\<open>only_client\<close>). The lemmas follow the handlers statement by statement.
\<close>

section \<open>Frames\<close>

text \<open>Everything but the rows of client \<open>m\<close> is as before, and the pool has the same addresses.\<close>

definition only_client :: "mac \<Rightarrow> dhcp_server \<Rightarrow> dhcp_server \<Rightarrow> bool" where
  "only_client m s s' \<longleftrightarrow>
     sv_conf s' = sv_conf s \<and> sv_link s' = sv_link s \<and>
     lease_path (sv_leases s') = lease_path (sv_leases s) \<and>
     offer_timeout (sv_offers s') = offer_timeout (sv_offers s) \<and>
     pool_keys (sv_pool s') = pool_keys (sv_pool s) \<and>
     (\<forall>k. k \<noteq> mac_string m \<longrightarrow>
        offer_map (sv_offers s') k = offer_map (sv_offers s) k \<and>
        lease_map (sv_leases s') k = lease_map (sv_leases s) k)"

lemma only_client_refl [simp]: "only_client m s s"
  by (simp add: only_client_def)

lemma only_client_trans [trans]: "only_client m s s' \<Longrightarrow> only_client m s' s'' \<Longrightarrow> only_client m s s''"
  by (simp add: only_client_def)

text \<open>The three tables and the addresses that owners hold, on the whole server.\<close>

definition owned :: "u32 set \<Rightarrow> dhcp_server \<Rightarrow> bool" where
  "owned B s \<longleftrightarrow> owns B (sv_pool s) (sv_offers s) (sv_leases s)"

lemma server_inv_owned: "server_inv s \<longleftrightarrow> owned {} s"
  by (simp add: server_inv_def owned_def)

definition same_tables :: "dhcp_server \<Rightarrow> dhcp_server \<Rightarrow> bool" where
  "same_tables s s' \<longleftrightarrow> sv_conf s' = sv_conf s \<and> sv_pool s' = sv_pool s \<and> sv_leases s' = sv_leases s \<and>
     sv_offers s' = sv_offers s \<and> sv_link s' = sv_link s"

lemma same_tables_owned: "same_tables s s' \<Longrightarrow> owned B s' \<longleftrightarrow> owned B s"
  by (simp add: same_tables_def owned_def)

lemma same_tables_only: "same_tables s s' \<Longrightarrow> only_client m s s'"
  by (simp add: same_tables_def only_client_def)

section \<open>Calls that leave the process change no table\<close>

lemma emit_same [simp]: "same_tables s (snd (emit e ev s))"
  by (simp add: emit_def same_tables_def Let_def)

lemma io_same [simp]:
  "same_tables s (snd (add_route e ip s))" "same_tables s (snd (del_route e ip s))"
  "same_tables s (snd (send_packet e b peer s))" "same_tables s (send_nak nr e peer msg s)"
  "same_tables s (count_result r s)"
  by (simp_all add: add_route_def del_route_def send_packet_def send_nak_def count_result_def
      same_tables_def emit_def Let_def split: option.splits)

lemma save_same [simp]: "same_tables s (snd (save_leases e s))"
  by (simp add: save_leases_def same_tables_def case_prod_beta)

lemma same_tables_fields:
  "same_tables s s' \<Longrightarrow> sv_pool s' = sv_pool s" "same_tables s s' \<Longrightarrow> sv_leases s' = sv_leases s"
  "same_tables s s' \<Longrightarrow> sv_offers s' = sv_offers s" "same_tables s s' \<Longrightarrow> sv_conf s' = sv_conf s"
  "same_tables s s' \<Longrightarrow> sv_link s' = sv_link s"
  by (simp_all add: same_tables_def)

lemmas tables_simps [simp] =
  same_tables_fields [OF io_same(1)] same_tables_fields [OF io_same(2)]
  same_tables_fields [OF io_same(3)] same_tables_fields [OF io_same(4)]
  same_tables_fields [OF io_same(5)] same_tables_fields [OF save_same]

section \<open>Pool moves on the server\<close>

lemma owned_used: "owned B s \<Longrightarrow> k \<in> B \<Longrightarrow> k \<in> pool_used (sv_pool s)"
  by (auto simp: owned_def owns_def)

lemma release_ip_ok:
  assumes "owned B s" and "to4 ip \<noteq> []" and "key4 ip \<in> B"
  obtains p where "release_ip ip s = Some (s\<lparr>sv_pool := p\<rparr>)" and "owned (B - {key4 ip}) (s\<lparr>sv_pool := p\<rparr>)"
    and "pool_keys p = pool_keys (sv_pool s)" and "key4 ip \<in> dom (pool_free p)"
    and "dom (pool_free (sv_pool s)) \<subseteq> dom (pool_free p)"
proof -
  from assms(1) have o: "owns B (sv_pool s) (sv_offers s) (sv_leases s)" by (simp add: owned_def)
  obtain p where p: "pool_release ip (sv_pool s) = Some p" "owns (B - {key4 ip}) p (sv_offers s) (sv_leases s)"
    by (rule owns_release_ex [OF o assms(2,3)])
  have "pool_keys p = pool_keys (sv_pool s)"
    using ipp.give_back_total [OF p(1) ownsD(1) [OF o]] owned_used [OF assms(1,3)]
    by (simp add: pool_keys_def)
  moreover have "key4 ip \<in> dom (pool_free p)" "dom (pool_free (sv_pool s)) \<subseteq> dom (pool_free p)"
    using ipp.give_back_some [OF p(1) ownsD(1) [OF o]] by auto
  ultimately show thesis using p that [of p] by (simp add: release_ip_def owned_def)
qed

lemma allocate_ok:
  assumes "owned B s" and "pool_allocate ks (sv_pool s) = (ip, p)" and "ip \<noteq> []"
  shows "length ip = 4" and "owned (insert (key4 ip) B) (s\<lparr>sv_pool := p\<rparr>)" and "key4 ip \<notin> B"
    and "pool_keys p = pool_keys (sv_pool s)"
proof -
  from assms(1) have o: "owns B (sv_pool s) (sv_offers s) (sv_leases s)" by (simp add: owned_def)
  show "length ip = 4" "owned (insert (key4 ip) B) (s\<lparr>sv_pool := p\<rparr>)" "key4 ip \<notin> B"
    using owns_allocate [OF o assms(2,3)] by (simp_all add: owned_def)
  show "pool_keys p = pool_keys (sv_pool s)"
    using ipp.take_total [OF assms(2) ownsD(1) [OF o]] by (simp add: pool_keys_def)
qed

lemma claim_ok:
  assumes "owned B s" and "to4 ip \<noteq> []"
  obtains p where "pool_try_claim ip (sv_pool s) = Some (False, p)" and "p = sv_pool s"
    and "key4 ip \<notin> dom (pool_free (sv_pool s))"
  | p where "pool_try_claim ip (sv_pool s) = Some (True, p)" and "key4 ip \<notin> B"
    and "owned (insert (key4 ip) B) (s\<lparr>sv_pool := p\<rparr>)" and "pool_keys p = pool_keys (sv_pool s)"
    and "key4 ip \<in> dom (pool_free (sv_pool s))"
proof -
  from assms(1) have o: "owns B (sv_pool s) (sv_offers s) (sv_leases s)" by (simp add: owned_def)
  from assms(2) ipp.claim_none [of ip "sv_pool s"] obtain b p
    where c: "pool_try_claim ip (sv_pool s) = Some (b, p)" by auto
  show thesis
  proof (cases b)
    case True
    with c have t: "pool_try_claim ip (sv_pool s) = Some (True, p)" by simp
    show thesis
      by (rule that(2) [OF t])
        (use owns_claim [OF o t] ipp.claim_total [OF t ownsD(1) [OF o]]
          ipp.claim_yes [OF t ownsD(1) [OF o]] in \<open>auto simp: owned_def pool_keys_def\<close>)
  next
    case False
    with c have t: "pool_try_claim ip (sv_pool s) = Some (False, p)" by simp
    show thesis by (rule that(1) [OF t]) (use ipp.claim_no [OF t ownsD(1) [OF o]] in auto)
  qed
qed

section \<open>DISCOVER\<close>

lemma offer_ip_ok:
  assumes inv: "server_inv s"
  obtains ip s' where "offer_ip e mac s = Some (ip, s')" and "server_inv s'" and "only_client mac s s'"
    and "sv_leases s' = sv_leases s" and "sv_trace s' = sv_trace s"
    and "sv_files s' = sv_files s" and "sv_total s' = sv_total s"
    and "ip \<noteq> [] \<Longrightarrow> length ip = 4 \<and> offer_map (sv_offers s') (mac_string mac) =
           Some \<lparr>po_ip = ip, po_expiry = rn_clk e 2 + offer_timeout (sv_offers s)\<rparr>"
    and "ip = [] \<Longrightarrow> distinct (rn_pool_order e) \<Longrightarrow> pool_keys (sv_pool s) \<subseteq> set (rn_pool_order e) \<Longrightarrow>
           dom (pool_free (sv_pool s)) = {}"
proof -
  note result = that
  let ?m = "mac_string mac"
  from inv have o: "owns {} (sv_pool s) (sv_offers s) (sv_leases s)" by (simp add: server_inv_def)
  have fresh: thesis
    if "offer_map (sv_offers t) ?m = None" and "owned {} t" and oc: "only_client mac s t"
      and "sv_leases t = sv_leases s" "sv_trace t = sv_trace s" "sv_files t = sv_files s"
        "sv_total t = sv_total s" and sub: "dom (pool_free (sv_pool s)) \<subseteq> dom (pool_free (sv_pool t))"
      and r: "offer_ip e mac s =
        (case pool_allocate (rn_pool_order e) (sv_pool t) of (i, p) \<Rightarrow>
           Some (if i = [] then ([], t\<lparr>sv_pool := p\<rparr>)
                 else (i, t\<lparr>sv_pool := p, sv_offers := offers_add (rn_clk e 2) mac i (sv_offers t)\<rparr>)))"
    for t
  proof -
    obtain i p where a: "pool_allocate (rn_pool_order e) (sv_pool t) = (i, p)" by fastforce
    show thesis
    proof (cases "i = []")
      case True
      have wf: "pool_wf (sv_pool t)" using that(2) ownsD(1) by (auto simp: owned_def)
      have "p = sv_pool t"
        using ipp.take_nil a True wf by auto
      moreover have "dom (pool_free (sv_pool s)) = {}"
        if "distinct (rn_pool_order e)" "pool_keys (sv_pool s) \<subseteq> set (rn_pool_order e)"
      proof -
        have "pool_keys (sv_pool t) = pool_keys (sv_pool s)" using oc by (simp add: only_client_def)
        then have "iter_order (rn_pool_order e) (pool_free (sv_pool t))"
          using that by (auto simp: iter_order_def pool_keys_def)
        from pool_allocate_nil [OF this wf] a True sub show ?thesis by simp
      qed
      ultimately show thesis using that r a True
        by (intro result [of "[]" t]) (simp_all add: server_inv_owned)
    next
      case False
      note al = allocate_ok [OF that(2) a False]
      have "owns {} p (offers_add (rn_clk e 2) mac i (sv_offers t)) (sv_leases t)"
        using owns_offer_put [where B = "{key4 i}" and p = p and os = "sv_offers t" and ls = "sv_leases t" and ip = i and mac = mac
            and now = "rn_clk e 2"] al that(1)
        by (simp add: owned_def) (metis list.size(3) to4_4 zero_neq_numeral)
      then show thesis using that(3-) al r a False
        by (intro result [of i "t\<lparr>sv_pool := p, sv_offers := offers_add (rn_clk e 2) mac i (sv_offers t)\<rparr>"])
          (simp_all add: server_inv_def only_client_def offers_add_def)
    qed
  qed
  show thesis
  proof (cases "offer_map (sv_offers s) ?m")
    case None
    then show thesis using inv
      by (intro fresh [of s]) (simp_all add: server_inv_owned offer_ip_def offers_ip_for_mac_def case_prod_unfold)
  next
    case (Some o1)
    note len = offers_wf_entry [OF ownsD(2) [OF o] Some]
    show thesis
    proof (cases "rn_clk e 1 < po_expiry o1")
      case True
      have r: "offer_ip e mac s = Some (po_ip o1, s\<lparr>sv_offers := offers_add (rn_clk e 2) mac (po_ip o1) (sv_offers s)\<rparr>)"
        using Some True len by (auto simp: offer_ip_def offers_ip_for_mac_def)
      show thesis
        using owns_offer_refresh [OF o Some, of "rn_clk e 2"] len
        by (intro result [OF r]) (simp_all add: server_inv_def only_client_def offers_add_def)
    next
      case False
      let ?d = "(sv_offers s)\<lparr>offer_map := (offer_map (sv_offers s))(?m := None)\<rparr>"
      let ?t = "s\<lparr>sv_offers := ?d\<rparr>"
      have "owned {offer_key o1} ?t"
        using owns_offer_drop [OF o Some, of ?d] by (simp add: owned_def)
      moreover have "to4 (po_ip o1) \<noteq> []" using len by auto
      ultimately obtain p where p: "release_ip (po_ip o1) ?t = Some (?t\<lparr>sv_pool := p\<rparr>)"
        "owned {} (?t\<lparr>sv_pool := p\<rparr>)" "pool_keys p = pool_keys (sv_pool ?t)"
        "dom (pool_free (sv_pool s)) \<subseteq> dom (pool_free p)"
        by (rule release_ip_ok [of "{offer_key o1}" ?t "po_ip o1"]) auto
      show thesis
        using p Some False len
        by (intro fresh [of "?t\<lparr>sv_pool := p\<rparr>"])
          (auto simp: offer_ip_def offers_ip_for_mac_def only_client_def case_prod_unfold)
    qed
  qed
qed

lemma handle_discover_ok:
  assumes inv: "server_inv s"
  obtains s' where "handle_discover nr e peer msg mac s = Some s'" and "server_inv s'"
    and "only_client mac s s'" and "sv_leases s' = sv_leases s" and "sv_files s' = sv_files s"
    and "sv_total s' = sv_total s"
proof -
  let ?l = "lease_ip_for_mac (rn_clk e 0) mac (sv_leases s)"
  obtain ip t where t: "(if ?l = [] then offer_ip e mac s else Some (?l, s)) = Some (ip, t)"
    "server_inv t" "only_client mac s t" "sv_leases t = sv_leases s" "sv_files t = sv_files s"
    "sv_total t = sv_total s"
  proof (cases "?l = []")
    case True
    with offer_ip_ok [OF inv, of e mac] that show thesis by metis
  qed (use inv that in auto)
  define s' where "s' = (if ip = [] then t
      else (case build_reply nr (sv_conf t) msg type_offer ip of
              None \<Rightarrow> t | Some b \<Rightarrow> snd (send_packet e b peer t)))"
  have same: "same_tables t s'" by (simp add: s'_def split: option.splits) (simp add: same_tables_def)
  show thesis
  proof (rule that [of s'])
    show "handle_discover nr e peer msg mac s = Some s'"
      using t(1) by (simp add: handle_discover_def Let_def s'_def)
    show "server_inv s'" using t(2) same_tables_owned [OF same] by (simp add: server_inv_owned)
    show "only_client mac s s'" using t(3) same_tables_only [OF same] only_client_trans by blast
    show "sv_leases s' = sv_leases s" using same t(4) by (simp add: same_tables_def)
    show "sv_files s' = sv_files s" "sv_total s' = sv_total s"
      using t by (simp_all add: s'_def send_packet_def emit_def Let_def split: option.splits)
  qed
qed

section \<open>RELEASE\<close>

lemma free_ip_ok:
  assumes "owned B s" and "to4 ip \<noteq> []" and "key4 ip \<in> B"
  obtains s' where "free_ip e ip s = Some s'" and "owned (B - {key4 ip}) s'" and "only_client m s s'"
    and "sv_leases s' = sv_leases s" and "sv_offers s' = sv_offers s" and "sv_files s' = sv_files s"
    and "sv_total s' = sv_total s" and "key4 ip \<in> dom (pool_free (sv_pool s'))"
    and "sv_trace s' = sv_trace s @
           [RouteDel (host_route ip (sv_link s)) (rn_io e (length (sv_trace s)))]"
proof -
  let ?t = "snd (del_route e ip s)"
  have "owned B ?t" using assms(1) same_tables_owned [OF io_same(2)] by blast
  then obtain p where p: "release_ip ip ?t = Some (?t\<lparr>sv_pool := p\<rparr>)" "owned (B - {key4 ip}) (?t\<lparr>sv_pool := p\<rparr>)"
    "pool_keys p = pool_keys (sv_pool ?t)" "key4 ip \<in> dom (pool_free p)"
    by (rule release_ip_ok [OF _ assms(2,3)])
  show thesis
    by (rule that [of "?t\<lparr>sv_pool := p\<rparr>"])
      (use p in \<open>simp_all add: free_ip_def only_client_def del_route_def emit_def Let_def\<close>)
qed

lemma save_leases_eq:
  "save_leases e s =
     (fst (save_leases e s),
      s\<lparr>sv_files := snd (lease_save (rn_loc e) (rn_disk e) (rn_save_order e) (sv_leases s) (sv_files s)),
        sv_trace := sv_trace s @ [SaveLeases (fst (save_leases e s))]\<rparr>)"
  by (simp add: save_leases_def case_prod_beta)

text \<open>The three outcomes: no lease, a failed save that restores the lease, a released address.\<close>

lemma release_lease_none:
  "lease_map (sv_leases s) (mac_string mac) = None \<Longrightarrow> release_lease e mac s = Some ((False, False), s)"
  by (simp add: release_lease_def lease_take_def)

lemma release_lease_fail:
  assumes inv: "server_inv s" and row: "lease_map (sv_leases s) (mac_string mac) = Some l"
    and fail: "\<not> fst (save_leases e (s\<lparr>sv_leases := snd (lease_take mac (sv_leases s))\<rparr>))"
  shows "\<exists>s'. release_lease e mac s = Some ((True, True), s') \<and> same_tables s s'"
proof -
  have wf: "lease_wf (sv_leases s)" using inv ownsD(3) by (auto simp: server_inv_def)
  have k: "mac_string (l_mac l) = mac_string mac" using lease_wf_entry [OF wf row] by simp
  let ?ls = "(sv_leases s)\<lparr>lease_map := (lease_map (sv_leases s))(mac_string mac := None)\<rparr>"
  have t: "lease_take mac (sv_leases s) = (Some l, ?ls)" by (simp add: lease_take_def row)
  have "lease_restore_all [l] ?ls = sv_leases s"
    using row k by (simp add: fun_upd_idem)
  then show ?thesis
    using fail save_leases_eq [of e "s\<lparr>sv_leases := ?ls\<rparr>"]
    by (auto simp: release_lease_def t same_tables_def case_prod_beta)
qed

lemma release_lease_done:
  assumes inv: "server_inv s" and row: "lease_map (sv_leases s) (mac_string mac) = Some l"
    and saved: "fst (save_leases e (s\<lparr>sv_leases := snd (lease_take mac (sv_leases s))\<rparr>))"
  obtains s' where "release_lease e mac s = Some ((True, False), s')" and "server_inv s'"
    and "only_client mac s s'" and "lease_map (sv_leases s') (mac_string mac) = None"
    and "sv_offers s' = sv_offers s" and "lease_key l \<in> dom (pool_free (sv_pool s'))"
    and "sv_trace s' = sv_trace s @ [SaveLeases True,
           RouteDel (host_route (l_ip l) (sv_link s)) (rn_io e (Suc (length (sv_trace s))))]"
    and "sv_files s' = snd (lease_save (rn_loc e) (rn_disk e) (rn_save_order e) (sv_leases s') (sv_files s))"
    and "sv_total s' = sv_total s"
proof -
  have o: "owns {} (sv_pool s) (sv_offers s) (sv_leases s)" using inv by (simp add: server_inv_def)
  let ?ls = "(sv_leases s)\<lparr>lease_map := (lease_map (sv_leases s))(mac_string mac := None)\<rparr>"
  have t: "lease_take mac (sv_leases s) = (Some l, ?ls)" by (simp add: lease_take_def row)
  let ?fs = "snd (lease_save (rn_loc e) (rn_disk e) (rn_save_order e) ?ls (sv_files s))"
  let ?t = "s\<lparr>sv_leases := ?ls, sv_files := ?fs, sv_trace := sv_trace s @ [SaveLeases True]\<rparr>"
  have sv: "save_leases e (s\<lparr>sv_leases := ?ls\<rparr>) = (True, ?t)"
    using save_leases_eq [of e "s\<lparr>sv_leases := ?ls\<rparr>"] saved t by simp
  have ot: "owned {lease_key l} ?t"
    using owns_lease_drop [OF o row, of ?ls] by (simp add: owned_def)
  have len: "length (l_ip l) = 4" using lease_wf_entry [OF ownsD(3) [OF o] row] by simp
  then have v4: "to4 (l_ip l) \<noteq> []" by auto
  obtain s' where s': "free_ip e (l_ip l) ?t = Some s'" "owned ({lease_key l} - {lease_key l}) s'"
    "only_client mac ?t s'" "sv_leases s' = sv_leases ?t" "sv_offers s' = sv_offers ?t"
    "sv_files s' = sv_files ?t" "sv_total s' = sv_total ?t" "lease_key l \<in> dom (pool_free (sv_pool s'))"
    "sv_trace s' = sv_trace ?t @ [RouteDel (host_route (l_ip l) (sv_link ?t)) (rn_io e (length (sv_trace ?t)))]"
    by (rule free_ip_ok [OF ot v4]) auto
  have "only_client mac s ?t" by (simp add: only_client_def)
  then show thesis
    using s' sv t by (intro that [of s'])
      (auto simp: release_lease_def server_inv_owned intro: only_client_trans)
qed

lemma same_tables_inv: "server_inv s \<Longrightarrow> same_tables s s' \<Longrightarrow> server_inv s'"
  by (simp add: server_inv_owned same_tables_owned)

lemma release_lease_ok:
  assumes inv: "server_inv s"
  obtains r s' where "release_lease e mac s = Some (r, s')" and "server_inv s'" and "only_client mac s s'"
    and "sv_offers s' = sv_offers s" and "sv_total s' = sv_total s"
proof (cases "lease_map (sv_leases s) (mac_string mac)")
  case None
  then show thesis using release_lease_none inv that by auto
next
  case (Some l)
  show thesis
  proof (cases "fst (save_leases e (s\<lparr>sv_leases := snd (lease_take mac (sv_leases s))\<rparr>))")
    case True
    from release_lease_done [OF inv Some True] that show thesis by metis
  next
    case False
    then obtain s' where s': "release_lease e mac s = Some ((True, True), s')" "same_tables s s'"
      using release_lease_fail [OF inv Some False] by blast
    then have "sv_total s' = sv_total s"
      using False by (auto simp: release_lease_def save_leases_def case_prod_beta split: option.splits prod.splits)
    with s' show thesis
      by (intro that [of "(True, True)" s']) (auto intro: same_tables_inv [OF inv] same_tables_only
          simp: same_tables_def)
  qed
qed

lemma handle_release_ok:
  assumes inv: "server_inv s"
  obtains s' where "handle_release e peer msg mac arrived s = Some s'" and "server_inv s'"
    and "only_client mac s s'" and "sv_offers s' = sv_offers s"
proof -
  obtain r t where t: "release_lease e mac s = Some (r, t)" "server_inv t" "only_client mac s t"
    "sv_offers t = sv_offers s" by (rule release_lease_ok [OF inv])
  show thesis
    by (rule that [of "the (handle_release e peer msg mac arrived s)"])
      (use t inv in \<open>auto simp: handle_release_def split: option.splits\<close>)
qed

section \<open>REQUEST\<close>

lemma drop_offer_ok:
  assumes o: "owned B s" and v4: "to4 ip \<noteq> []"
  obtains s1 where "drop_offer mac ip s = Some s1"
    and "owned (if \<exists>o1. offer_map (sv_offers s) (mac_string mac) = Some o1 \<and> po_ip o1 = to4 ip
                then insert (key4 ip) B else B) s1"
    and "only_client mac s s1" and "sv_leases s1 = sv_leases s"
    and "offer_map (sv_offers s1) = (offer_map (sv_offers s))(mac_string mac := None)"
    and "sv_files s1 = sv_files s" and "sv_trace s1 = sv_trace s" and "sv_total s1 = sv_total s"
proof (cases "offer_map (sv_offers s) (mac_string mac)")
  case None
  then show thesis using o
    by (intro that [of "s\<lparr>sv_offers := sv_offers s\<rparr>"])
      (auto simp: drop_offer_def offers_remove_def fun_upd_idem)
next
  case (Some o1)
  have ow: "owns B (sv_pool s) (sv_offers s) (sv_leases s)" using o by (simp add: owned_def)
  note len = offers_wf_entry [OF ownsD(2) [OF ow] Some]
  let ?d = "(sv_offers s)\<lparr>offer_map := (offer_map (sv_offers s))(mac_string mac := None)\<rparr>"
  let ?t = "s\<lparr>sv_offers := ?d\<rparr>"
  have ot: "owned (insert (offer_key o1) B) ?t"
    using owns_offer_drop [OF ow Some, of ?d] by (simp add: owned_def)
  have oc: "only_client mac s ?t" by (simp add: only_client_def)
  show thesis
  proof (cases "po_ip o1 = to4 ip")
    case True
    then have "ip_equal (po_ip o1) ip" using len by (simp add: ip_equal_to4)
    then show thesis using Some True ot oc
      by (intro that [of ?t]) (simp_all add: drop_offer_def offers_remove_def)
  next
    case False
    then have ne: "\<not> ip_equal (po_ip o1) ip" using len by (auto simp: ip_equal_to4)
    have "offer_key o1 \<notin> B" using ow offer_keysI [OF Some] by (auto simp: owns_def)
    then have eq: "insert (offer_key o1) B - {offer_key o1} = B" by auto
    have v: "to4 (po_ip o1) \<noteq> []" using len by auto
    obtain p where p: "release_ip (po_ip o1) ?t = Some (?t\<lparr>sv_pool := p\<rparr>)"
      "owned B (?t\<lparr>sv_pool := p\<rparr>)" "pool_keys p = pool_keys (sv_pool ?t)"
      by (rule release_ip_ok [OF ot v insertI1, unfolded eq])
    have "po_ip o1 \<noteq> []" using len by auto
    then show thesis using p Some False ne
      by (intro that [of "?t\<lparr>sv_pool := p\<rparr>"])
        (auto simp: drop_offer_def offers_remove_def only_client_def)
  qed
qed

text \<open>The lease a grant writes.\<close>

definition granted_lease :: "dhcp_config \<Rightarrow> mac \<Rightarrow> ip \<Rightarrow> time \<Rightarrow> lease" where
  "granted_lease c mac ip arrived =
     \<lparr>l_mac = mac, l_ip = to4 ip, l_expiry = arrived + cf_lease_time c, l_granted = arrived\<rparr>"

lemma install_lease_ok:
  assumes o: "owned B s" and B: "B \<subseteq> {key4 ip}" and v4: "to4 ip \<noteq> []"
    and h: "key4 ip \<in> B \<or> (\<exists>l. lease_map (sv_leases s) (mac_string mac) = Some l \<and> l_ip l = to4 ip)"
  obtains s2 where "install_lease e mac ip arrived s = Some s2" and "server_inv s2" and "only_client mac s s2"
    and "lease_map (sv_leases s2) =
           (lease_map (sv_leases s))(mac_string mac \<mapsto> granted_lease (sv_conf s) mac ip arrived)"
    and "sv_offers s2 = sv_offers s" and "sv_files s2 = sv_files s" and "sv_total s2 = sv_total s"
    and "sv_trace s2 = sv_trace s @
           map (\<lambda>i. RouteDel (host_route i (sv_link s)) (rn_io e (length (sv_trace s))))
             (rebound_ips mac ip (sv_leases s))"
proof -
  have ow: "owns B (sv_pool s) (sv_offers s) (sv_leases s)" using o by (simp add: owned_def)
  obtain evs ls where a: "lease_add (rn_add_order e) mac ip (cf_lease_time (sv_conf s)) arrived (sv_leases s)
      = (evs, ls)" by fastforce
  note add = owns_lease_add [OF ow v4 h a]
  have path: "lease_path ls = lease_path (sv_leases s)"
    using lease_add_path [of "rn_add_order e" mac ip "cf_lease_time (sv_conf s)" arrived "sv_leases s"]
    by (simp add: a)
  let ?t = "s\<lparr>sv_leases := ls\<rparr>"
  have B0: "B - {key4 ip} = {}" using B by auto
  have ot: "owned (key4 ` set (rebound_ips mac ip (sv_leases s))) ?t"
    using add(3) B0 by (simp add: owned_def)
  have oc: "only_client mac s ?t" using add(2) path by (simp add: only_client_def)
  have inst: "install_lease e mac ip arrived s = free_rebound e mac evs ?t"
    by (simp add: install_lease_def a)
  show thesis
  proof (cases "rebound_ips mac ip (sv_leases s)")
    case Nil
    then show thesis using add ot oc inst
      by (intro that [of ?t]) (simp_all add: server_inv_owned granted_lease_def)
  next
    case (Cons i js)
    then obtain l where l: "lease_map (sv_leases s) (mac_string mac) = Some l" "i = l_ip l" "js = []"
      by (auto simp: rebound_ips_def split: option.splits if_splits)
    have i4: "to4 i \<noteq> []" using lease_wf_entry [OF ownsD(3) [OF ow] l(1)] l(2) by auto
    have oi: "owned {key4 i} ?t" using ot Cons l(3) by simp
    obtain s2 where s2: "free_ip e i ?t = Some s2" "owned ({key4 i} - {key4 i}) s2"
      "only_client mac ?t s2" "sv_leases s2 = sv_leases ?t" "sv_offers s2 = sv_offers ?t"
      "sv_files s2 = sv_files ?t" "sv_total s2 = sv_total ?t"
      "sv_trace s2 = sv_trace ?t @ [RouteDel (host_route i (sv_link ?t)) (rn_io e (length (sv_trace ?t)))]"
      by (rule free_ip_ok [OF oi i4, of e mac]) auto
    have "install_lease e mac ip arrived s = Some s2"
      using inst add(1) Cons l(3) s2(1) by simp
    then show thesis using s2 oc add(2) Cons l(3)
      by (intro that [of s2]) (auto simp: server_inv_owned granted_lease_def intro: only_client_trans)
  qed
qed

text \<open>
  A committed grant: the client's offer is gone and its lease is on the address; the trace got the
  removal of the old route, the save and, when that succeeded, the ACK.
\<close>

definition committed ::
    "run \<Rightarrow> peer \<Rightarrow> mac \<Rightarrow> ip \<Rightarrow> byte list \<Rightarrow> time \<Rightarrow> dhcp_server \<Rightarrow> bool \<Rightarrow> dhcp_server \<Rightarrow> bool" where
  "committed e peer mac ip resp arrived s ok s' \<longleftrightarrow>
     only_client mac s s' \<and> sv_total s' = sv_total s \<and>
     lease_map (sv_leases s') =
       (lease_map (sv_leases s))(mac_string mac \<mapsto> granted_lease (sv_conf s) mac ip arrived) \<and>
     offer_map (sv_offers s') = (offer_map (sv_offers s))(mac_string mac := None) \<and>
     (\<exists>saved sent dels. (ok \<longleftrightarrow> saved \<and> sent) \<and>
        (saved \<longrightarrow> (sent \<longleftrightarrow> rn_io e (length (sv_trace s') - 1))) \<and>
        (saved, sv_files s') = (let (err, fs') = lease_save (rn_loc e) (rn_disk e) (rn_save_order e)
           (sv_leases s') (sv_files s) in (err = None, fs')) \<and>
        dels = map (\<lambda>i. RouteDel (host_route i (sv_link s)) (rn_io e (length (sv_trace s))))
                 (rebound_ips mac ip (sv_leases s)) \<and>
        sv_trace s' = sv_trace s @ dels @ [SaveLeases saved] @ (if saved then [SendPacket resp peer sent] else []))"

lemma commit_lease_ok:
  assumes o: "owned B s" and B: "B \<subseteq> {key4 ip}" and v4: "to4 ip \<noteq> []"
    and h: "key4 ip \<in> B \<or>
        (\<exists>o1. offer_map (sv_offers s) (mac_string mac) = Some o1 \<and> po_ip o1 = to4 ip) \<or>
        (\<exists>l. lease_map (sv_leases s) (mac_string mac) = Some l \<and> l_ip l = to4 ip)"
  obtains ok s' where "commit_lease e peer mac ip resp arrived s = Some (ok, s')" and "server_inv s'"
    and "committed e peer mac ip resp arrived s ok s'"
proof -
  let ?has = "\<exists>o1. offer_map (sv_offers s) (mac_string mac) = Some o1 \<and> po_ip o1 = to4 ip"
  let ?B = "if ?has then insert (key4 ip) B else B"
  obtain s1 where s1: "drop_offer mac ip s = Some s1" "owned ?B s1" "only_client mac s s1"
    "sv_leases s1 = sv_leases s"
    "offer_map (sv_offers s1) = (offer_map (sv_offers s))(mac_string mac := None)"
    "sv_files s1 = sv_files s" "sv_trace s1 = sv_trace s" "sv_total s1 = sv_total s"
    by (rule drop_offer_ok [OF o v4])
  have B1: "?B \<subseteq> {key4 ip}" using B by auto
  have h1: "key4 ip \<in> ?B \<or> (\<exists>l. lease_map (sv_leases s1) (mac_string mac) = Some l \<and> l_ip l = to4 ip)"
    using h s1(4) by auto
  obtain s2 where s2: "install_lease e mac ip arrived s1 = Some s2" "server_inv s2" "only_client mac s1 s2"
    "lease_map (sv_leases s2) =
       (lease_map (sv_leases s1))(mac_string mac \<mapsto> granted_lease (sv_conf s1) mac ip arrived)"
    "sv_offers s2 = sv_offers s1" "sv_files s2 = sv_files s1" "sv_total s2 = sv_total s1"
    "sv_trace s2 = sv_trace s1 @ map (\<lambda>i. RouteDel (host_route i (sv_link s1)) (rn_io e (length (sv_trace s1))))
       (rebound_ips mac ip (sv_leases s1))"
    by (rule install_lease_ok [OF s1(2) B1 v4 h1])
  obtain saved s3 where s3: "save_leases e s2 = (saved, s3)" by fastforce
  define r where "r = (if saved then send_packet e resp peer s3 else (False, s3))"
  have fields: "sv_conf s1 = sv_conf s" "sv_link s1 = sv_link s"
    using s1(3) by (simp_all add: only_client_def)
  have t3: "same_tables s2 s3" "sv_total s3 = sv_total s2" "sv_trace s3 = sv_trace s2 @ [SaveLeases saved]"
    "(saved, sv_files s3) = (let (err, fs') = lease_save (rn_loc e) (rn_disk e) (rn_save_order e)
       (sv_leases s2) (sv_files s2) in (err = None, fs'))"
    using s3 by (auto simp: save_leases_def same_tables_def split: prod.splits)
  have tr: "same_tables s3 (snd r)" "sv_total (snd r) = sv_total s3" "sv_files (snd r) = sv_files s3"
    "fst r \<longrightarrow> saved"
    "sv_trace (snd r) = sv_trace s3 @ (if saved then [SendPacket resp peer (fst r)] else [])"
    "saved \<longrightarrow> (fst r \<longleftrightarrow> rn_io e (length (sv_trace (snd r)) - 1))"
    by (auto simp: r_def send_packet_def emit_def same_tables_def Let_def)
  have st: "same_tables s2 (snd r)" using t3(1) tr(1) by (simp add: same_tables_def)
  show thesis
  proof (rule that [of "fst r" "snd r"])
    show "commit_lease e peer mac ip resp arrived s = Some (fst r, snd r)"
      by (simp add: commit_lease_def s1(1) s2(1) s3 r_def)
    show "server_inv (snd r)" by (rule same_tables_inv [OF s2(2) st])
    have oc: "only_client mac s (snd r)"
      using only_client_trans [OF only_client_trans [OF s1(3) s2(3)] same_tables_only [OF st]] .
    show "committed e peer mac ip resp arrived s (fst r) (snd r)"
      unfolding committed_def
    proof (intro conjI exI)
      show "fst r \<longleftrightarrow> saved \<and> fst r" using tr(4) by auto
      show "saved \<longrightarrow> (fst r \<longleftrightarrow> rn_io e (length (sv_trace (snd r)) - 1))" by (rule tr(6))
      show "sv_trace (snd r) = sv_trace s @
          map (\<lambda>i. RouteDel (host_route i (sv_link s)) (rn_io e (length (sv_trace s))))
            (rebound_ips mac ip (sv_leases s)) @
          [SaveLeases saved] @ (if saved then [SendPacket resp peer (fst r)] else [])"
        using tr(5) t3(3) s2(8) s1 fields by simp
    qed (use oc tr t3 s2 s1 st fields in \<open>auto simp: same_tables_def\<close>)
  qed
qed

text \<open>A refused grant: no table and no file changed; only NAKs and a failed route were emitted.\<close>

definition refused ::
    "reply_builder \<Rightarrow> peer \<Rightarrow> dhcp_msg \<Rightarrow> dhcp_server \<Rightarrow> dhcp_server \<Rightarrow> bool" where
  "refused nr peer msg s s' \<longleftrightarrow>
     same_tables s s' \<and> sv_files s' = sv_files s \<and> sv_total s' = sv_total s \<and>
     (\<exists>evs. sv_trace s' = sv_trace s @ evs \<and>
        (\<forall>ev \<in> set evs.
           ev = RouteReplace (host_route (requested_ip msg) (sv_link s)) False \<or>
           (\<exists>b ok. ev = SendPacket b peer ok \<and> build_nak nr (sv_conf s) msg = Some b)))"

lemma refused_refl [simp]: "refused nr peer msg s s"
  by (simp add: refused_def same_tables_def)

lemma refused_nak: "refused nr peer msg s (send_nak nr e peer msg s)"
  by (auto simp: refused_def send_nak_def send_packet_def emit_def same_tables_def Let_def
      split: option.splits)

lemma refused_route:
  "add_route e (requested_ip msg) s = (False, s') \<Longrightarrow> refused nr peer msg s s'"
  by (auto simp: refused_def add_route_def emit_def same_tables_def Let_def)

lemma refused_trans:
  assumes "refused nr peer msg s s'" and "refused nr peer msg s' s''"
  shows "refused nr peer msg s s''"
proof -
  have f: "sv_link s' = sv_link s" "sv_conf s' = sv_conf s"
    using assms(1) by (simp_all add: refused_def same_tables_def)
  from assms(1) obtain a where a: "sv_trace s' = sv_trace s @ a"
    "\<forall>ev \<in> set a. ev = RouteReplace (host_route (requested_ip msg) (sv_link s)) False \<or>
       (\<exists>b ok. ev = SendPacket b peer ok \<and> build_nak nr (sv_conf s) msg = Some b)"
    unfolding refused_def by blast
  from assms(2) obtain b where b: "sv_trace s'' = sv_trace s' @ b"
    "\<forall>ev \<in> set b. ev = RouteReplace (host_route (requested_ip msg) (sv_link s)) False \<or>
       (\<exists>b ok. ev = SendPacket b peer ok \<and> build_nak nr (sv_conf s) msg = Some b)"
    using f unfolding refused_def by metis
  have "sv_trace s'' = sv_trace s @ (a @ b)" using a(1) b(1) by simp
  moreover have "\<forall>ev \<in> set (a @ b). ev = RouteReplace (host_route (requested_ip msg) (sv_link s)) False \<or>
       (\<exists>b ok. ev = SendPacket b peer ok \<and> build_nak nr (sv_conf s) msg = Some b)"
    using a(2) b(2) unfolding set_append by blast
  moreover have "same_tables s s''" "sv_files s'' = sv_files s" "sv_total s'' = sv_total s"
    using assms by (auto simp: refused_def same_tables_def)
  ultimately show ?thesis unfolding refused_def by blast
qed

lemma refused_pool:
  "refused nr peer msg (s\<lparr>sv_pool := p\<rparr>) s' \<Longrightarrow> refused nr peer msg s (s'\<lparr>sv_pool := sv_pool s\<rparr>)"
  unfolding refused_def same_tables_def by simp

lemma already_heldD:
  assumes "owned {} s" and "already_held e mac ip s"
  shows "to4 ip \<noteq> [] \<and>
    ((\<exists>o1. offer_map (sv_offers s) (mac_string mac) = Some o1 \<and> po_ip o1 = to4 ip) \<or>
     (\<exists>l. lease_map (sv_leases s) (mac_string mac) = Some l \<and> l_ip l = to4 ip))"
proof -
  have o: "owns {} (sv_pool s) (sv_offers s) (sv_leases s)" using assms(1) by (simp add: owned_def)
  have 4: "ip_equal x ip \<longleftrightarrow> to4 ip = x" "x \<noteq> []" if "length x = 4" for x
    using that ip_equal_to4 by auto
  show ?thesis
    using assms(2) offers_wf_entry [OF ownsD(2) [OF o]] lease_wf_entry [OF ownsD(3) [OF o]] 4
    by (fastforce simp: already_held_def is_offered_to_def is_leased_to_def split: option.splits)
qed

lemma grant_ok:
  assumes inv: "server_inv s" and v4: "to4 (requested_ip msg) \<noteq> []"
  obtains (refused) s' where "grant nr e peer msg mac arrived s = Some (False, s')" and "refused nr peer msg s s'"
  | (committed) resp s1 ok s' where "grant nr e peer msg mac arrived s = Some (ok, s')" and "server_inv s'"
      and "build_reply nr (sv_conf s) msg type_ack (requested_ip msg) = Some resp"
      and "\<not> is_leased_to_other (rn_clk e 1) (rn_lease_order e) mac (requested_ip msg) (sv_leases s)"
      and "only_client mac s s1" and "sv_leases s1 = sv_leases s" and "sv_offers s1 = sv_offers s"
      and "sv_files s1 = sv_files s" and "sv_total s1 = sv_total s" and "sv_link s1 = sv_link s"
      and "sv_trace s1 = sv_trace s @ [RouteReplace (host_route (requested_ip msg) (sv_link s)) True]"
      and "committed e peer mac (requested_ip msg) resp arrived s1 ok s'"
proof -
  let ?ip = "requested_ip msg"
  have o: "owned {} s" using inv by (simp add: server_inv_owned)
  have ow: "owns {} (sv_pool s) (sv_offers s) (sv_leases s)" using inv by (simp add: server_inv_def)
  show thesis
  proof (cases "is_leased_to_other (rn_clk e 1) (rn_lease_order e) mac ?ip (sv_leases s)")
    case True
    then show thesis using refused_nak by (intro refused) (simp_all add: grant_def)
  next
    case free: False
    \<comment> \<open>the rest of the handler, from a state in which the address is the client's or the handler's\<close>
    have rest: thesis
      if t: "owned B t" "B \<subseteq> {key4 ?ip}" "only_client mac s t" "sv_leases t = sv_leases s"
          "sv_offers t = sv_offers s" "sv_files t = sv_files s" "sv_total t = sv_total s"
          "sv_trace t = sv_trace s"
        and h: "key4 ?ip \<in> B \<or>
          (\<exists>o1. offer_map (sv_offers t) (mac_string mac) = Some o1 \<and> po_ip o1 = to4 ?ip) \<or>
          (\<exists>l. lease_map (sv_leases t) (mac_string mac) = Some l \<and> l_ip l = to4 ?ip)"
        and undo: "\<And>t'. refused nr peer msg t t' \<Longrightarrow>
          \<exists>s'. unclaim held ?ip t' = Some s' \<and> refused nr peer msg s s'"
        and r: "grant nr e peer msg mac arrived s =
          (case build_reply nr (sv_conf t) msg type_ack ?ip of
             None \<Rightarrow> do { s2 \<leftarrow> unclaim held ?ip t; Some (False, s2) }
           | Some resp \<Rightarrow>
               (case add_route e ?ip t of
                  (routed, s2) \<Rightarrow>
                    if \<not> routed
                    then do { s3 \<leftarrow> unclaim held ?ip s2; Some (False, send_nak nr e peer msg s3) }
                    else commit_lease e peer mac ?ip resp arrived s2))"
      for B t held
    proof -
      have conf: "sv_conf t = sv_conf s" "sv_link t = sv_link s" using t(3) by (simp_all add: only_client_def)
      show thesis
      proof (cases "build_reply nr (sv_conf t) msg type_ack ?ip")
        case None
        obtain s' where "unclaim held ?ip t = Some s'" "refused nr peer msg s s'"
          using undo [OF refused_refl] by blast
        with r None show thesis by (intro refused) simp_all
      next
        case (Some resp)
        obtain routed s2 where s2: "add_route e ?ip t = (routed, s2)" by fastforce
        show thesis
        proof (cases routed)
          case False
          with s2 have "refused nr peer msg t s2" by (intro refused_route) simp
          then obtain s' where "unclaim held ?ip s2 = Some s'" "refused nr peer msg s s'"
            using undo by blast
          with r Some s2 False show thesis
            by (intro refused [of "send_nak nr e peer msg s'"]) (auto intro: refused_trans refused_nak)
        next
          case True
          have st: "same_tables t s2" using io_same(1) [of t e ?ip] s2 by simp
          have o2: "owned B s2" using t(1) same_tables_owned [OF st] by simp
          have h2: "key4 ?ip \<in> B \<or>
              (\<exists>o1. offer_map (sv_offers s2) (mac_string mac) = Some o1 \<and> po_ip o1 = to4 ?ip) \<or>
              (\<exists>l. lease_map (sv_leases s2) (mac_string mac) = Some l \<and> l_ip l = to4 ?ip)"
            using h st by (simp add: same_tables_def)
          obtain ok s' where s': "commit_lease e peer mac ?ip resp arrived s2 = Some (ok, s')" "server_inv s'"
            "committed e peer mac ?ip resp arrived s2 ok s'"
            by (rule commit_lease_ok [OF o2 t(2) v4 h2])
          have s2': "s2 = t\<lparr>sv_trace := sv_trace t @ [RouteReplace (host_route ?ip (sv_link t)) True]\<rparr>"
            using s2 True by (auto simp: add_route_def emit_def Let_def)
          show thesis
            by (rule committed [of ok s' resp s2])
              (use r Some s2 True s' free conf t s2' in \<open>auto simp: only_client_def\<close>)
        qed
      qed
    qed
    show thesis
    proof (cases "already_held e mac ?ip s")
      case True
      show thesis
        by (rule rest [of "{}" s True])
          (use o True already_heldD [OF o True] free in \<open>auto simp: unclaim_def grant_def Let_def\<close>)
    next
      case held: False
      show thesis
      proof (rule claim_ok [OF o v4])
        fix p assume c: "pool_try_claim ?ip (sv_pool s) = Some (False, p)" "p = sv_pool s"
        then have "grant nr e peer msg mac arrived s = Some (False, send_nak nr e peer msg s)"
          using free held by (simp add: grant_def)
        then show thesis using refused_nak by (rule refused)
      next
        fix p assume c: "pool_try_claim ?ip (sv_pool s) = Some (True, p)"
          "owned (insert (key4 ?ip) {}) (s\<lparr>sv_pool := p\<rparr>)" "pool_keys p = pool_keys (sv_pool s)"
        have undo: "\<exists>s'. unclaim False ?ip t' = Some s' \<and> refused nr peer msg s s'"
          if "refused nr peer msg (s\<lparr>sv_pool := p\<rparr>) t'" for t'
        proof -
          have "sv_pool t' = p" using that by (simp add: refused_def same_tables_def)
          then have "unclaim False ?ip t' = Some (t'\<lparr>sv_pool := sv_pool s\<rparr>)"
            using pool_claim_release [OF ownsD(1) [OF ow] c(1)] by (simp add: unclaim_def release_ip_def)
          with refused_pool [OF that] show ?thesis by blast
        qed
        show thesis
          by (rule rest [of "{key4 ?ip}" "s\<lparr>sv_pool := p\<rparr>" False])
            (use c undo free held in \<open>auto simp: grant_def only_client_def Let_def\<close>)
      qed
    qed
  qed
qed

end
