(* ===== verification/Dhcp_Lifecycle.thy ===== *)
theory Dhcp_Lifecycle
  imports Dhcp_Handlers
begin

text \<open>
  The handlers not tied to one client: the dispatcher, the cleanup tick, the control endpoint and the
  startup that loads and restores the leases. Each keeps \<open>server_inv\<close>; the startup establishes it.
\<close>

section \<open>REQUEST and dispatch\<close>

text \<open>
  The DHCP library returns IPv4 addresses of 4 bytes, or nil for an absent or malformed option, so
  the address a message requests has an IPv4 form.
\<close>

definition msg_v4 :: "dhcp_msg \<Rightarrow> bool" where
  "msg_v4 msg \<longleftrightarrow> requested_ip msg = [] \<or> to4 (requested_ip msg) \<noteq> []"

lemma committed_only: "committed e peer mac ip resp arrived s ok s' \<Longrightarrow> only_client mac s s'"
  by (simp add: committed_def)

lemma refused_only: "refused nr peer msg s s' \<Longrightarrow> only_client mac s s'"
  by (auto simp: refused_def intro: same_tables_only)

lemma refused_inv: "refused nr peer msg s s' \<Longrightarrow> server_inv s \<Longrightarrow> server_inv s'"
  by (auto simp: refused_def intro: same_tables_inv)

lemma handle_request_ok:
  assumes inv: "server_inv s" and v4: "msg_v4 msg"
  obtains s' where "handle_request nr e peer msg mac arrived s = Some s'" and "server_inv s'"
    and "only_client mac s s'"
proof (cases "requested_ip msg = [] \<or> is_unspecified (requested_ip msg) \<or> overtaken e mac arrived s")
  case True
  then show thesis using inv by (intro that [of s]) (auto simp: handle_request_def)
next
  case False
  then have r: "to4 (requested_ip msg) \<noteq> []" using v4 by (auto simp: msg_v4_def)
  have eq: "handle_request nr e peer msg mac arrived s =
      do { (ok, s1) \<leftarrow> grant nr e peer msg mac arrived s;
           Some (count_result (if ok then ''ok'' else ''failed'') s1) }"
    using False by (simp add: handle_request_def)
  show thesis
  proof (rule grant_ok [OF inv r, of nr e peer mac arrived])
    fix t assume t: "grant nr e peer msg mac arrived s = Some (False, t)" "refused nr peer msg s t"
    have "same_tables t (count_result ''failed'' t)" by simp
    with t inv show thesis
      by (intro that [of "count_result ''failed'' t"])
        (auto simp: eq intro: same_tables_inv refused_inv only_client_trans [OF refused_only same_tables_only])
  next
    fix resp s1 ok t
    assume t: "grant nr e peer msg mac arrived s = Some (ok, t)" "server_inv t" "only_client mac s s1"
      "committed e peer mac (requested_ip msg) resp arrived s1 ok t"
    let ?r = "if ok then ''ok'' else ''failed''"
    have st: "same_tables t (count_result ?r t)" by (rule io_same)
    have "only_client mac s (count_result ?r t)"
      using only_client_trans [OF only_client_trans [OF t(3) committed_only [OF t(4)]] same_tables_only [OF st]] .
    then show thesis using t same_tables_inv [OF t(2) st]
      by (intro that [of "count_result ?r t"]) (simp_all add: eq)
  qed
qed

text \<open>The three ways a REQUEST ends, with the server it leaves.\<close>

lemma handle_request_cases:
  assumes inv: "server_inv s" and v4: "msg_v4 msg"
  obtains (ignored) "handle_request nr e peer msg mac arrived s = Some s"
      and "requested_ip msg = [] \<or> is_unspecified (requested_ip msg) \<or> overtaken e mac arrived s"
  | (refused) s' where "handle_request nr e peer msg mac arrived s = Some (count_result ''failed'' s')"
      and "refused nr peer msg s s'"
  | (committed) resp s1 ok s' where
      "handle_request nr e peer msg mac arrived s = Some (count_result (if ok then ''ok'' else ''failed'') s')"
      and "server_inv s'" and "build_reply nr (sv_conf s) msg type_ack (requested_ip msg) = Some resp"
      and "only_client mac s s1" and "sv_leases s1 = sv_leases s" and "sv_offers s1 = sv_offers s"
      and "sv_files s1 = sv_files s" and "sv_total s1 = sv_total s" and "sv_link s1 = sv_link s"
      and "sv_trace s1 = sv_trace s @ [RouteReplace (host_route (requested_ip msg) (sv_link s)) True]"
      and "committed e peer mac (requested_ip msg) resp arrived s1 ok s'"
proof (cases "requested_ip msg = [] \<or> is_unspecified (requested_ip msg) \<or> overtaken e mac arrived s")
  case True
  then show thesis by (intro ignored) (auto simp: handle_request_def)
next
  case False
  then have r: "to4 (requested_ip msg) \<noteq> []" using v4 by (auto simp: msg_v4_def)
  have eq: "handle_request nr e peer msg mac arrived s =
      do { (ok, s1) \<leftarrow> grant nr e peer msg mac arrived s;
           Some (count_result (if ok then ''ok'' else ''failed'') s1) }"
    using False by (simp add: handle_request_def)
  show thesis
    by (rule grant_ok [OF inv r, of nr e peer mac arrived])
      (use refused committed in \<open>simp_all add: eq\<close>)
qed

lemma handler_ok:
  assumes inv: "server_inv s" and v4: "msg_v4 msg"
  obtains s' where "handler nr e peer msg arrived s = Some s'" and "server_inv s'"
    and "only_client (dm_chaddr msg) s s'"
proof -
  let ?m = "dm_chaddr msg"
  obtain a where a: "handle_discover nr e peer msg ?m s = Some a" "server_inv a" "only_client ?m s a"
    by (rule handle_discover_ok [OF inv, of nr e peer msg ?m])
  obtain b where b: "handle_request nr e peer msg ?m arrived s = Some b" "server_inv b" "only_client ?m s b"
    by (rule handle_request_ok [OF inv v4])
  obtain c where c: "handle_release e peer msg ?m arrived s = Some c" "server_inv c" "only_client ?m s c"
    by (rule handle_release_ok [OF inv])
  show thesis
    by (rule that [of "the (handler nr e peer msg arrived s)"])
      (use a b c inv in \<open>auto simp: handler_def Let_def\<close>)
qed

lemma handle_lease_control_ok:
  assumes inv: "server_inv s"
  obtains code s' where "handle_lease_control e m s = Some (code, s')" and "server_inv s'"
    and "code \<in> {204, 400, 500}"
    and "\<And>mac. parse_mac m = Some mac \<Longrightarrow> only_client mac s s'"
    and "parse_mac m = None \<Longrightarrow> code = 400 \<and> s' = s"
proof (cases "parse_mac m")
  case None
  then show thesis using inv by (intro that [of 400 s]) (simp_all add: handle_lease_control_def)
next
  case (Some mac)
  obtain r t where t: "release_lease e mac s = Some (r, t)" "server_inv t" "only_client mac s t"
    by (rule release_lease_ok [OF inv])
  obtain found failed where r: "r = (found, failed)" by (cases r)
  show thesis
    by (rule that [of "if failed then 500 else 204" t])
      (use t r Some in \<open>auto simp: handle_lease_control_def\<close>)
qed

section \<open>The cleanup tick\<close>

text \<open>The pool holds the same addresses, and configuration and paths are as before.\<close>

definition same_pool :: "dhcp_server \<Rightarrow> dhcp_server \<Rightarrow> bool" where
  "same_pool s s' \<longleftrightarrow> sv_conf s' = sv_conf s \<and> sv_link s' = sv_link s \<and>
     lease_path (sv_leases s') = lease_path (sv_leases s) \<and>
     offer_timeout (sv_offers s') = offer_timeout (sv_offers s) \<and>
     pool_keys (sv_pool s') = pool_keys (sv_pool s)"

lemma only_client_pool: "only_client m s s' \<Longrightarrow> same_pool s s'"
  by (simp add: only_client_def same_pool_def)

lemma same_pool_trans: "same_pool s s' \<Longrightarrow> same_pool s' s'' \<Longrightarrow> same_pool s s''"
  by (simp add: same_pool_def)

lemma release_all_ok:
  assumes "owned B s" and "distinct (map key4 ips)" and "\<forall>ip \<in> set ips. to4 ip \<noteq> [] \<and> key4 ip \<in> B"
  shows "\<exists>p. release_all ips s = Some (s\<lparr>sv_pool := p\<rparr>) \<and> owned (B - key4 ` set ips) (s\<lparr>sv_pool := p\<rparr>) \<and>
    pool_keys p = pool_keys (sv_pool s)"
  using assms
proof (induction ips arbitrary: B s)
  case Nil
  then show ?case by (intro exI [of _ "sv_pool s"]) simp
next
  case (Cons ip ips)
  obtain p where p: "release_ip ip s = Some (s\<lparr>sv_pool := p\<rparr>)" "owned (B - {key4 ip}) (s\<lparr>sv_pool := p\<rparr>)"
    "pool_keys p = pool_keys (sv_pool s)"
    using release_ip_ok [OF Cons.prems(1), of ip] Cons.prems(3) by force
  have "\<forall>ip' \<in> set ips. to4 ip' \<noteq> [] \<and> key4 ip' \<in> B - {key4 ip}"
    using Cons.prems(2,3) by (auto dest: sym intro: rev_image_eqI)
  from Cons.IH [OF p(2) _ this] Cons.prems(2) p show ?case
    by (auto simp: Diff_insert2 [symmetric])
qed

lemma free_all_ok:
  assumes "owned B s" and "distinct (map lease_key ls)" and "\<forall>l \<in> set ls. to4 (l_ip l) \<noteq> [] \<and> lease_key l \<in> B"
  shows "\<exists>s'. free_all e ls s = Some s' \<and> owned (B - lease_key ` set ls) s' \<and> same_pool s s' \<and>
    sv_leases s' = sv_leases s \<and> sv_offers s' = sv_offers s \<and> sv_files s' = sv_files s \<and>
    (\<exists>evs. sv_trace s' = sv_trace s @ evs \<and>
       (\<forall>ev \<in> set evs. \<exists>l \<in> set ls. \<exists>b. ev = RouteDel (host_route (l_ip l) (sv_link s)) b))"
  using assms
proof (induction ls arbitrary: B s)
  case Nil
  then show ?case by (simp add: same_pool_def)
next
  case (Cons l ls)
  from Cons.prems(3) have l: "to4 (l_ip l) \<noteq> []" "lease_key l \<in> B" by auto
  obtain s1 where s1: "free_ip e (l_ip l) s = Some s1" "owned (B - {lease_key l}) s1"
    "only_client (l_mac l) s s1" "sv_leases s1 = sv_leases s" "sv_offers s1 = sv_offers s"
    "sv_files s1 = sv_files s"
    "sv_trace s1 = sv_trace s @ [RouteDel (host_route (l_ip l) (sv_link s)) (rn_io e (length (sv_trace s)))]"
    by (rule free_ip_ok [OF Cons.prems(1) l, of e "l_mac l"])
  have "\<forall>l' \<in> set ls. to4 (l_ip l') \<noteq> [] \<and> lease_key l' \<in> B - {lease_key l}"
    using Cons.prems(2,3) by (auto dest: sym intro: rev_image_eqI)
  from Cons.IH [OF s1(2) _ this] Cons.prems(2) obtain s' evs where
    s': "free_all e ls s1 = Some s'" "owned (B - {lease_key l} - lease_key ` set ls) s'" "same_pool s1 s'"
    "sv_leases s' = sv_leases s1" "sv_offers s' = sv_offers s1" "sv_files s' = sv_files s1"
    and evs: "sv_trace s' = sv_trace s1 @ evs"
      "\<forall>ev \<in> set evs. \<exists>l \<in> set ls. \<exists>b. ev = RouteDel (host_route (l_ip l) (sv_link s1)) b" by auto
  let ?ev = "RouteDel (host_route (l_ip l) (sv_link s)) (rn_io e (length (sv_trace s)))"
  have link: "sv_link s1 = sv_link s" using s1(3) by (simp add: only_client_def)
  have tr: "sv_trace s' = sv_trace s @ (?ev # evs)" using evs(1) s1(7) by simp
  have ev: "\<forall>ev \<in> set (?ev # evs). \<exists>l' \<in> set (l # ls). \<exists>b. ev = RouteDel (host_route (l_ip l') (sv_link s)) b"
    using evs(2) link by auto
  have rest: "free_all e (l # ls) s = Some s'" "owned (B - lease_key ` set (l # ls)) s'" "same_pool s s'"
    "sv_leases s' = sv_leases s" "sv_offers s' = sv_offers s" "sv_files s' = sv_files s"
    using s1 s' by (auto simp: Diff_insert2 [symmetric] intro: same_pool_trans only_client_pool)
  show ?case using rest tr ev by blast
qed

text \<open>Putting swept leases back gives the table that was swept.\<close>

lemma lease_restore_all_map:
  assumes "\<forall>l \<in> set ls. m (mac_string (l_mac l)) = Some l"
  shows "lease_map (lease_restore_all ls s) k =
    (if k \<in> (\<lambda>l. mac_string (l_mac l)) ` set ls then m k else lease_map s k)"
  using assms by (induction ls arbitrary: s) auto

lemma lease_restore_all_path [simp]: "lease_path (lease_restore_all ls s) = lease_path s"
  by (induction ls arbitrary: s) auto

lemma lease_sweep_restore:
  assumes wf: "lease_wf ls" and sw: "lease_expire_old now ks ls = (out, ls')"
  shows "lease_restore_all out ls' = ls"
proof -
  have out: "l \<in> set out \<longleftrightarrow> (\<exists>k \<in> set ks. lease_map ls k = Some l \<and> l_expiry l < now)" for l
    using lease_table.sweep_removed [of l now ks ls] sw by simp
  have row: "\<forall>l \<in> set out. lease_map ls (mac_string (l_mac l)) = Some l"
    using out lease_wf_entry [OF wf] by blast
  have rest: "lease_map ls' k = (case lease_map ls k of
      Some l \<Rightarrow> if k \<in> set ks \<and> l_expiry l < now then None else Some l | None \<Rightarrow> None)" for k
    using lease_table.sweep_rows [of now ks ls k] sw by simp
  have "lease_map (lease_restore_all out ls') k = lease_map ls k" for k
  proof (cases "k \<in> (\<lambda>l. mac_string (l_mac l)) ` set out")
    case False
    then have "\<not> (k \<in> set ks \<and> l_expiry l < now)" if "lease_map ls k = Some l" for l
      using that out lease_wf_entry [OF wf that] by (auto simp: image_iff)
    with False show ?thesis
      by (auto simp: lease_restore_all_map [OF row] rest split: option.splits)
  qed (simp add: lease_restore_all_map [OF row])
  moreover have "lease_path ls' = lease_path ls"
    using sw by (auto simp: lease_expire_old_def split: prod.splits)
  ultimately show ?thesis by (intro lease_store.equality) auto
qed

lemma cleanup_tick_ok:
  assumes inv: "server_inv s" and d: "distinct (rn_offer_order e)" "distinct (rn_lease_order e)"
  obtains s' where "cleanup_tick e s = Some s'" and "server_inv s'" and "same_pool s s'"
    and "offer_map (sv_offers s') = offer_map (snd (offers_sweep (rn_clk e 0) (rn_offer_order e) (sv_offers s)))"
    and "(\<exists>err fs'. sv_leases s' = sv_leases s \<and>
           lease_save (rn_loc e) (rn_disk e) (rn_save_order e)
             (snd (lease_expire_old (rn_clk e 1) (rn_lease_order e) (sv_leases s))) (sv_files s) = (Some err, fs') \<and>
           sv_trace s' = sv_trace s @ [SaveLeases False]) \<or>
         sv_leases s' = snd (lease_expire_old (rn_clk e 1) (rn_lease_order e) (sv_leases s)) \<and>
         (fst (lease_expire_old (rn_clk e 1) (rn_lease_order e) (sv_leases s)) \<noteq> [] \<longrightarrow>
            lease_save (rn_loc e) (rn_disk e) (rn_save_order e) (sv_leases s') (sv_files s) = (None, sv_files s')) \<and>
         (\<exists>evs. sv_trace s' = sv_trace s @ evs \<and>
            (\<forall>ev \<in> set evs. ev = SaveLeases True \<or>
               (\<exists>l \<in> set (fst (lease_expire_old (rn_clk e 1) (rn_lease_order e) (sv_leases s))).
                  \<exists>b. ev = RouteDel (host_route (l_ip l) (sv_link s)) b)))"
proof -
  have o: "owns {} (sv_pool s) (sv_offers s) (sv_leases s)" using inv by (simp add: server_inv_def)
  obtain out offs where sw: "offers_sweep (rn_clk e 0) (rn_offer_order e) (sv_offers s) = (out, offs)"
    by fastforce
  obtain ex ls where lsw: "lease_expire_old (rn_clk e 1) (rn_lease_order e) (sv_leases s) = (ex, ls)"
    by fastforce
  let ?t = "s\<lparr>sv_offers := offs\<rparr>"
  have ot: "owned (key4 ` set (map po_ip out)) ?t"
    using owns_offer_sweep [OF o, of "rn_clk e 0" "rn_offer_order e"] sw
    by (simp add: owned_def image_image)
  have dt: "distinct (map key4 (map po_ip out))"
    using offers_table.sweep_distinct [OF d(1) offers_inj_key [OF ownsD(2) [OF o]], of "rn_clk e 0"] sw
    by (simp add: comp_def)
  have out4: "to4 (po_ip o1) \<noteq> []" if "o1 \<in> set out" for o1
  proof -
    from that sw offers_table.sweep_removed [of o1 "rn_clk e 0" "rn_offer_order e" "sv_offers s"]
    obtain k where "offer_map (sv_offers s) k = Some o1" by auto
    from offers_wf_entry [OF ownsD(2) [OF o] this] show ?thesis by auto
  qed
  then have v4: "\<forall>ip \<in> set (map po_ip out). to4 ip \<noteq> [] \<and> key4 ip \<in> key4 ` set (map po_ip out)" by simp
  obtain p where p: "release_all (map po_ip out) ?t = Some (?t\<lparr>sv_pool := p\<rparr>)" "owned {} (?t\<lparr>sv_pool := p\<rparr>)"
    "pool_keys p = pool_keys (sv_pool s)"
    using release_all_ok [OF ot dt v4] by auto
  have exp: "offers_expire_old (rn_clk e 0) (rn_offer_order e) (sv_offers s) = (map po_ip out, offs)"
    by (simp add: offers_expire_old_def sw)
  have tm: "offer_timeout offs = offer_timeout (sv_offers s)"
    using offers_sweep_timeout [of "rn_clk e 0" "rn_offer_order e" "sv_offers s"] sw by simp
  have path: "lease_path ls = lease_path (sv_leases s)"
    using lsw by (auto simp: lease_expire_old_def split: prod.splits)
  let ?u = "s\<lparr>sv_offers := offs, sv_pool := p, sv_leases := ls\<rparr>"
  have op: "owns {} p offs (sv_leases s)" using p(2) by (simp add: owned_def)
  have ou: "owned (lease_key ` set ex) ?u"
    using owns_lease_sweep [OF op, of "rn_clk e 1" "rn_lease_order e"] lsw by (simp add: owned_def)
  have du: "distinct (map lease_key ex)"
    using lease_table.sweep_distinct [OF d(2) lease_inj_key [OF ownsD(3) [OF o]], of "rn_clk e 1"] lsw by simp
  have ex4: "to4 (l_ip l) \<noteq> []" if "l \<in> set ex" for l
  proof -
    from that lsw lease_table.sweep_removed [of l "rn_clk e 1" "rn_lease_order e" "sv_leases s"]
    obtain k where "lease_map (sv_leases s) k = Some l" by auto
    from lease_wf_entry [OF ownsD(3) [OF o] this] show ?thesis by auto
  qed
  then have vu: "\<forall>l \<in> set ex. to4 (l_ip l) \<noteq> [] \<and> lease_key l \<in> lease_key ` set ex" by simp
  define r where "r = (if ex \<noteq> [] then save_leases e ?u else (True, ?u))"
  have st: "same_tables ?u (snd r)" by (simp add: r_def same_tables_def)
  have tick: "cleanup_tick e s = (if \<not> fst r
      then Some ((snd r)\<lparr>sv_leases := lease_restore_all ex (sv_leases (snd r))\<rparr>)
      else free_all e ex (snd r))"
    using p(1) by (simp add: cleanup_tick_def exp lsw r_def case_prod_beta Let_def del: One_nat_def)
  show thesis
  proof (cases "fst r")
    case False
    have "lease_restore_all ex (sv_leases (snd r)) = sv_leases s"
      using lease_sweep_restore [OF ownsD(3) [OF o] lsw] st by (simp add: same_tables_def)
    then have res: "cleanup_tick e s = Some ((snd r)\<lparr>sv_leases := sv_leases s\<rparr>)" using tick False by simp
    have fail: "\<exists>err fs'. lease_save (rn_loc e) (rn_disk e) (rn_save_order e) ls (sv_files s) = (Some err, fs') \<and>
        sv_trace (snd r) = sv_trace s @ [SaveLeases False]"
      using False by (auto simp: r_def save_leases_def split: prod.splits if_splits)
    show thesis using st op p(3) sw tm fail lsw
      by (intro that [OF res]) (simp_all add: server_inv_def same_pool_def same_tables_def)
  next
    case True
    have "owned (lease_key ` set ex) (snd r)" using ou same_tables_owned [OF st] by simp
    from free_all_ok [OF this du vu, of e] obtain s' evs where
      s': "free_all e ex (snd r) = Some s'" "owned {} s'" "same_pool (snd r) s'"
      "sv_leases s' = sv_leases (snd r)" "sv_offers s' = sv_offers (snd r)" "sv_files s' = sv_files (snd r)"
      and evs: "sv_trace s' = sv_trace (snd r) @ evs"
        "\<forall>ev \<in> set evs. \<exists>l \<in> set ex. \<exists>b. ev = RouteDel (host_route (l_ip l) (sv_link (snd r))) b"
      by auto
    have saved: "ex \<noteq> [] \<longrightarrow> lease_save (rn_loc e) (rn_disk e) (rn_save_order e) ls (sv_files s) =
        (None, sv_files (snd r))"
      using True by (auto simp: r_def save_leases_def split: prod.splits)
    have tr: "sv_trace (snd r) = sv_trace s @ (if ex \<noteq> [] then [SaveLeases True] else [])"
      using True by (auto simp: r_def save_leases_def split: prod.splits)
    have evs': "\<exists>evs'. sv_trace s' = sv_trace s @ evs' \<and>
        (\<forall>ev \<in> set evs'. ev = SaveLeases True \<or>
           (\<exists>l \<in> set ex. \<exists>b. ev = RouteDel (host_route (l_ip l) (sv_link s)) b))"
      using evs tr st by (intro exI [of _ "(if ex \<noteq> [] then [SaveLeases True] else []) @ evs"])
        (auto simp: same_tables_def)
    have res: "cleanup_tick e s = Some s'" using tick True s'(1) by simp
    have ls: "sv_leases s' = ls" "offer_map (sv_offers s') = offer_map offs"
      using s'(4,5) st by (simp_all add: same_tables_def)
    show thesis
    proof (rule that [OF res])
      show "server_inv s'" using s'(2) by (simp add: server_inv_owned)
      show "same_pool s s'" using s' st tm path p(3) by (simp add: same_pool_def same_tables_def)
      show "offer_map (sv_offers s') =
          offer_map (snd (offers_sweep (rn_clk e 0) (rn_offer_order e) (sv_offers s)))"
        using ls(2) sw by simp
    qed (use ls lsw saved s'(6) evs' in \<open>simp del: One_nat_def\<close>)
  qed
qed

section \<open>Startup\<close>

text \<open>The lease table without the rows of the given keys.\<close>

definition lease_hide :: "string set \<Rightarrow> lease_store \<Rightarrow> lease_store" where
  "lease_hide K ls = ls\<lparr>lease_map := (\<lambda>k. if k \<in> K then None else lease_map ls k)\<rparr>"

abbreviation lease_names :: "lease list \<Rightarrow> string set" where
  "lease_names ls \<equiv> (\<lambda>l. mac_string (l_mac l)) ` set ls"

lemma lease_hide_put:
  "k \<notin> K \<Longrightarrow> lease_map ls k = Some l \<Longrightarrow>
   lease_map (lease_hide K ls) = (lease_map (lease_hide (insert k K) ls))(k \<mapsto> l)"
  by (auto simp: lease_hide_def)

text \<open>The leases that a restore keeps: a listed lease stays when its address is in the pool.\<close>

definition restored_map :: "u32 set \<Rightarrow> lease list \<Rightarrow> (string \<rightharpoonup> lease) \<Rightarrow> (string \<rightharpoonup> lease)" where
  "restored_map P ls m =
     (\<lambda>k. case m k of
            Some l \<Rightarrow> if l \<in> set ls \<and> lease_key l \<notin> P then None else Some l
          | None \<Rightarrow> None)"

lemma restored_map_Nil [simp]: "restored_map P [] m = m"
  by (auto simp: restored_map_def fun_eq_iff split: option.splits)

lemma restored_map_in: "lease_key l \<in> P \<Longrightarrow> restored_map P (l # ls) m = restored_map P ls m"
  by (auto simp: restored_map_def fun_eq_iff split: option.splits)

lemma restored_map_out:
  assumes "m k = Some l" and "lease_key l \<notin> P" and "\<And>k'. m k' = Some l \<Longrightarrow> k' = k"
  shows "restored_map P (l # ls) m = restored_map P ls (m(k := None))"
proof
  fix x
  show "restored_map P (l # ls) m x = restored_map P ls (m(k := None)) x"
  proof (cases "x = k")
    case False
    then have "m x \<noteq> Some l" using assms(3) by blast
    with False show ?thesis by (auto simp: restored_map_def split: option.splits)
  qed (simp add: restored_map_def assms)
qed

lemma restore_loop_ok:
  assumes "distinct (map (\<lambda>l. mac_string (l_mac l)) ls)"
    and "\<forall>l \<in> set ls. lease_map (sv_leases s) (mac_string (l_mac l)) = Some l"
    and "lease_wf (sv_leases s)"
    and "owns {} (sv_pool s) (sv_offers s) (lease_hide (lease_names ls) (sv_leases s))"
    and "offer_map (sv_offers s) = Map.empty"
  shows "\<exists>s'. restore_loop e ls s = Some s' \<and> server_inv s' \<and> same_pool s s' \<and> sv_offers s' = sv_offers s \<and>
    sv_files s' = sv_files s \<and> sv_total s' = sv_total s \<and>
    lease_map (sv_leases s') = restored_map (pool_keys (sv_pool s)) ls (lease_map (sv_leases s))"
  using assms
proof (induction ls arbitrary: s)
  case Nil
  have "lease_hide {} (sv_leases s) = sv_leases s" by (simp add: lease_hide_def)
  with Nil show ?case by (simp add: server_inv_def same_pool_def)
next
  case (Cons l ls)
  let ?k = "mac_string (l_mac l)"
  let ?P = "sv_pool s"
  have row: "lease_map (sv_leases s) ?k = Some l" using Cons.prems(2) by simp
  have len: "length (l_ip l) = 4" using lease_wf_entry [OF Cons.prems(3) row] by simp
  then have v4: "to4 (l_ip l) \<noteq> []" by auto
  have pw: "pool_wf ?P" using ownsD(1) [OF Cons.prems(4)] .
  have kn: "?k \<notin> lease_names ls" using Cons.prems(1) by auto
  have "lease_key l \<notin> lease_keys (lease_hide (lease_names (l # ls)) (sv_leases s))"
    using inj_rowsD [OF lease_inj_key [OF Cons.prems(3)] row]
    by (auto simp: lease_keys_def row_keys_iff lease_hide_def)
  then have used: "lease_key l \<notin> pool_used ?P"
    using Cons.prems(4,5) by (auto simp: owns_def offer_keys_def)
  show ?case
  proof (cases "lease_key l \<in> dom (pool_free ?P)")
    case True
    obtain p where mark: "pool_mark_used (l_ip l) ?P = Some (True, p)"
      and claim: "pool_try_claim (l_ip l) ?P = Some (True, p)"
      using True by (simp add: pool_mark_used_eq [OF v4] pool_try_claim_eq [OF v4])
    have "owns {lease_key l} p (sv_offers s) (lease_hide (insert ?k (lease_names ls)) (sv_leases s))"
      using owns_claim(3) [OF Cons.prems(4) claim] by simp
    then have ow: "owns {} p (sv_offers s) (lease_hide (lease_names ls) (sv_leases s))"
      using owns_lease_put [OF _ len _ _ lease_hide_put [OF kn row]] by (force simp: lease_hide_def)
    have pk: "pool_keys p = pool_keys ?P"
      using ipp.claim_total [OF claim pw] by (simp add: pool_keys_def)
    define t where "t = snd (add_route e (l_ip l) (s\<lparr>sv_pool := p\<rparr>))"
    have t: "same_tables (s\<lparr>sv_pool := p\<rparr>) t" "sv_files t = sv_files s" "sv_total t = sv_total s"
      by (simp_all add: t_def same_tables_def add_route_def emit_def Let_def)
    have step: "restore_loop e (l # ls) s = restore_loop e ls t"
      by (simp add: mark t_def)
    have "\<exists>s'. restore_loop e ls t = Some s' \<and> server_inv s' \<and> same_pool t s' \<and> sv_offers s' = sv_offers t \<and>
      sv_files s' = sv_files t \<and> sv_total s' = sv_total t \<and>
      lease_map (sv_leases s') = restored_map (pool_keys (sv_pool t)) ls (lease_map (sv_leases t))"
      by (rule Cons.IH) (use Cons.prems t ow in \<open>auto simp: same_tables_def\<close>)
    moreover have "lease_key l \<in> pool_keys ?P" using True by (simp add: pool_keys_def)
    ultimately show ?thesis unfolding step using t pk
      by (auto simp: same_tables_def same_pool_def restored_map_in)
  next
    case False
    have mark: "pool_mark_used (l_ip l) ?P = Some (False, ?P)"
      using False used by (simp add: pool_mark_used_eq [OF v4])
    have out: "lease_key l \<notin> pool_keys ?P" using False used by (simp add: pool_keys_def)
    let ?ls = "(sv_leases s)\<lparr>lease_map := (lease_map (sv_leases s))(?k := None)\<rparr>"
    have take: "snd (lease_take (l_mac l) (sv_leases s)) = ?ls" by (simp add: lease_take_def row)
    define t where "t = snd (del_route e (l_ip l) (s\<lparr>sv_leases := ?ls\<rparr>))"
    have t: "same_tables (s\<lparr>sv_leases := ?ls\<rparr>) t" "sv_files t = sv_files s" "sv_total t = sv_total s"
      by (simp_all add: t_def same_tables_def del_route_def emit_def Let_def)
    have step: "restore_loop e (l # ls) s = restore_loop e ls t"
      using take by (simp add: mark t_def)
    have hide: "lease_hide (lease_names ls) ?ls = lease_hide (lease_names (l # ls)) (sv_leases s)"
      by (simp add: lease_hide_def fun_eq_iff)
    have only: "k = ?k" if "lease_map (sv_leases s) k = Some l" for k
      using lease_wf_entry [OF Cons.prems(3) that] by simp
    have wf: "lease_wf ?ls" by (rule lease_wf_sub [OF Cons.prems(3)]) (simp add: map_le_del)
    have "\<exists>s'. restore_loop e ls t = Some s' \<and> server_inv s' \<and> same_pool t s' \<and> sv_offers s' = sv_offers t \<and>
      sv_files s' = sv_files t \<and> sv_total s' = sv_total t \<and>
      lease_map (sv_leases s') = restored_map (pool_keys (sv_pool t)) ls (lease_map (sv_leases t))"
    proof (rule Cons.IH)
      show "distinct (map (\<lambda>l. mac_string (l_mac l)) ls)" using Cons.prems(1) by simp
      show "\<forall>l' \<in> set ls. lease_map (sv_leases t) (mac_string (l_mac l')) = Some l'"
        using Cons.prems(2) kn t by (auto simp: same_tables_def image_iff)
    qed (use Cons.prems(4,5) t hide wf in \<open>simp_all add: same_tables_def\<close>)
    moreover have "restored_map (pool_keys ?P) (l # ls) (lease_map (sv_leases s)) =
        restored_map (pool_keys ?P) ls ((lease_map (sv_leases s))(?k := None))"
      by (rule restored_map_out) (rule row, rule out, erule only)
    ultimately show ?thesis unfolding step using t
      by (auto simp: same_tables_def same_pool_def)
  qed
qed

lemma new_server_inv:
  assumes "new_server c ips files = Some s"
  shows "server_inv s" and "pool_wf (sv_pool s)" and "pool_used (sv_pool s) = {}"
    and "pool_keys (sv_pool s) = key4 ` {ip \<in> set ips. to4 ip \<noteq> []}"
    and "sv_leases s = new_lease_store (cf_lease_file c)" and "offer_map (sv_offers s) = Map.empty"
    and "sv_files s = files"
proof -
  obtain p where p: "new_ip_pool ips = Some p" "pool_wf p" "pool_used p = {}"
    "dom (pool_free p) = key4 ` {ip \<in> set ips. to4 ip \<noteq> []}" by (rule new_ip_pool_ok)
  then have s: "s = \<lparr>sv_conf = c\<lparr>cf_lease_time :=
        (if cf_lease_time c \<noteq> 0 then cf_lease_time c else default_lease_time)\<rparr>,
      sv_pool = p, sv_leases = new_lease_store (cf_lease_file c),
      sv_offers = new_pending_offers offer_timeout_value,
      sv_link = 0, sv_files = files, sv_trace = [], sv_total = (\<lambda>_. 0)\<rparr>"
    using assms by (simp add: new_server_def)
  from p show "pool_wf (sv_pool s)" "pool_used (sv_pool s) = {}"
    "pool_keys (sv_pool s) = key4 ` {ip \<in> set ips. to4 ip \<noteq> []}"
    "sv_leases s = new_lease_store (cf_lease_file c)" "offer_map (sv_offers s) = Map.empty" "sv_files s = files"
    by (simp_all add: s new_pending_offers_def pool_keys_def)
  then show "server_inv s" by (simp add: server_inv_def owns_empty new_lease_store_def)
qed

lemma new_server_total: "\<exists>s. new_server c ips files = Some s"
proof -
  obtain p where "new_ip_pool ips = Some p" by (rule new_ip_pool_ok)
  then show ?thesis by (simp add: new_server_def)
qed

text \<open>
  A lease file the startup can take over: no two loaded leases name one address, and no lease
  expires between the clock readings of \<open>load\<close> and of \<open>restoreLeases\<close>. The first holds of every file
  the server saved; the second is a race the code does not exclude.
\<close>

definition takeover_ok :: "run \<Rightarrow> bool \<Rightarrow> path \<Rightarrow> fs \<Rightarrow> bool" where
  "takeover_ok e readable f files \<longleftrightarrow>
     (case lease_load (rn_clk e 0) readable files (new_lease_store f) of
        (err, ls) \<Rightarrow> err = None \<longrightarrow>
          inj_rows l_ip (lease_map ls) \<and> iter_order (rn_lease_order e) (lease_map ls) \<and>
          (\<forall>k l. lease_map ls k = Some l \<longrightarrow> rn_clk e 1 < l_expiry l))"

lemma lease_load_err: "lease_load now r files s = (Some err, s') \<Longrightarrow> s' = s"
  by (auto simp: lease_load_def split: option.splits if_splits)

lemma lease_load_ok:
  assumes "lease_load now r files (new_lease_store f) = (None, ls)"
  shows "rows_named (lease_map ls)" and "lease_path ls = f"
  using assms load_entries_named [of Map.empty now]
  by (auto simp: lease_load_def new_lease_store_def rows_named_def split: option.splits if_splits)

text \<open>\<open>New\<close> and a \<open>Run\<close> that reaches its event loop.\<close>

definition boots ::
    "dhcp_config \<Rightarrow> ip list \<Rightarrow> fs \<Rightarrow> run \<Rightarrow> int \<Rightarrow> bool \<Rightarrow> dhcp_server \<Rightarrow> bool" where
  "boots c ips files e link readable s0 \<longleftrightarrow>
     (\<exists>s. new_server c ips files = Some s \<and> run_start e (Some link) readable True True s = Some (Inr s0))"

lemma run_start_ok:
  assumes new: "new_server c ips files = Some s"
    and tk: "takeover_ok e readable (cf_lease_file c) files"
  obtains s0 where "run_start e (Some link) readable True True s = Some (Inr s0)" and "server_inv s0"
    and "pool_keys (sv_pool s0) = key4 ` {ip \<in> set ips. to4 ip \<noteq> []}"
    and "offer_map (sv_offers s0) = Map.empty" and "sv_files s0 = files"
    and "lease_path (sv_leases s0) = cf_lease_file c"
    and "\<And>ls. lease_load (rn_clk e 0) readable files (new_lease_store (cf_lease_file c)) = (None, ls) \<Longrightarrow>
           lease_map (sv_leases s0) = (\<lambda>k. case lease_map ls k of
             Some l \<Rightarrow> if lease_key l \<in> key4 ` {ip \<in> set ips. to4 ip \<noteq> []} then Some l else None
           | None \<Rightarrow> None)"
    and "fst (lease_load (rn_clk e 0) readable files (new_lease_store (cf_lease_file c))) \<noteq> None \<Longrightarrow>
           lease_map (sv_leases s0) = Map.empty"
proof -
  note ns = new_server_inv [OF new]
  obtain err ls where ld: "lease_load (rn_clk e 0) readable files (new_lease_store (cf_lease_file c)) = (err, ls)"
    by fastforce
  let ?s1 = "s\<lparr>sv_link := link, sv_leases := ls\<rparr>"
  show thesis
  proof (cases err)
    case (Some er)
    then have "ls = new_lease_store (cf_lease_file c)" using ld lease_load_err by blast
    then have s1: "?s1 = s\<lparr>sv_link := link\<rparr>" using ns(5) by (simp add: dhcp_server.equality)
    have "run_start e (Some link) readable True True s = Some (Inr ?s1)"
      using ld ns(5,7) Some by (simp add: run_start_def Let_def)
    then show thesis unfolding s1 using ns ld Some
      by (intro that [of "s\<lparr>sv_link := link\<rparr>"]) (simp_all add: server_inv_def new_lease_store_def)
  next
    case None
    note tk' = tk [unfolded takeover_ok_def ld prod.case None, rule_format]
    have named: "rows_named (lease_map ls)" "lease_path ls = cf_lease_file c"
      using lease_load_ok ld None by blast+
    have wf: "lease_wf ls" using named(1) tk' by (simp add: lease_wf_named)
    define act where "act = active_leases (rn_clk e 1) (rn_lease_order e) ls"
    have ord: "iter_order (rn_lease_order e) (lease_map ls)" using tk' by simp
    have act: "act = map snd (range_map (rn_lease_order e) (lease_map ls))"
      using tk' by (auto simp: act_def active_leases_def set_range_map intro!: filter_True)
    have inact: "l \<in> set act \<longleftrightarrow> (\<exists>k. lease_map ls k = Some l)" for l
      using iter_orderD [OF ord] by (auto simp: act set_range_map image_iff)
    have row: "\<forall>l \<in> set act. lease_map ls (mac_string (l_mac l)) = Some l"
      using inact lease_wf_entry [OF wf] by metis
    have names: "map (\<lambda>l. mac_string (l_mac l)) act = map fst (range_map (rn_lease_order e) (lease_map ls))"
      using lease_wf_entry [OF wf] by (auto simp: act set_range_map)
    have dist: "distinct (map (\<lambda>l. mac_string (l_mac l)) act)"
      unfolding names by (rule distinct_range_map) (use ord in \<open>simp add: iter_order_def\<close>)
    have "lease_map (lease_hide (lease_names act) ls) k = None" for k
      using inact lease_wf_entry [OF wf, of k] by (cases "lease_map ls k") (auto simp: lease_hide_def image_iff)
    then have hide: "lease_map (lease_hide (lease_names act) ls) = Map.empty" by blast
    have ow: "owns {} (sv_pool ?s1) (sv_offers ?s1) (lease_hide (lease_names act) (sv_leases ?s1))"
      using ns hide by (intro owns_empty) auto
    have "\<exists>s'. restore_loop e act ?s1 = Some s' \<and> server_inv s' \<and> same_pool ?s1 s' \<and>
        sv_offers s' = sv_offers ?s1 \<and> sv_files s' = sv_files ?s1 \<and> sv_total s' = sv_total ?s1 \<and>
        lease_map (sv_leases s') = restored_map (pool_keys (sv_pool ?s1)) act (lease_map (sv_leases ?s1))"
      by (rule restore_loop_ok [OF dist _ _ ow]) (use row wf ns in simp_all)
    then obtain s0 where s0: "restore_loop e act ?s1 = Some s0" "server_inv s0" "same_pool ?s1 s0"
      "sv_offers s0 = sv_offers s" "sv_files s0 = sv_files s"
      "lease_map (sv_leases s0) = restored_map (pool_keys (sv_pool s)) act (lease_map ls)" by auto
    have start: "run_start e (Some link) readable True True s = Some (Inr s0)"
      using s0(1) ld ns(5,7) None by (simp add: run_start_def Let_def restore_leases_def act_def)
    have "restored_map P act (lease_map ls) = (\<lambda>k. case lease_map ls k of
             Some l \<Rightarrow> if lease_key l \<in> P then Some l else None | None \<Rightarrow> None)" for P
      using inact by (auto simp: restored_map_def fun_eq_iff split: option.splits)
    then show thesis
      using s0 ns ld None named start by (intro that [OF start]) (simp_all add: same_pool_def)
  qed
qed

lemma boots_ok:
  assumes "boots c ips files e link readable s0" and "takeover_ok e readable (cf_lease_file c) files"
  shows "server_inv s0" and "pool_keys (sv_pool s0) = key4 ` {ip \<in> set ips. to4 ip \<noteq> []}"
proof -
  obtain s where s: "new_server c ips files = Some s" "run_start e (Some link) readable True True s = Some (Inr s0)"
    using assms(1) by (auto simp: boots_def)
  obtain t where "run_start e (Some link) readable True True s = Some (Inr t)" "server_inv t"
    "pool_keys (sv_pool t) = key4 ` {ip \<in> set ips. to4 ip \<noteq> []}"
    by (rule run_start_ok [OF s(1) assms(2), of link])
  with s(2) show "server_inv s0" "pool_keys (sv_pool s0) = key4 ` {ip \<in> set ips. to4 ip \<noteq> []}" by auto
qed

end
