(* ===== verification/Dhcp_Machine.thy ===== *)
theory Dhcp_Machine
  imports Dhcp_Lifecycle
begin

text \<open>
  The running server: packets arrive, wait in goroutines for the lifecycle mutex and are handled in any
  order, interleaved with cleanup ticks and control requests. The abstract specification is an
  allocator in which every pool address is free, offered to a client or leased to one; the server
  refines it.
\<close>

section \<open>The server between handlers\<close>

type_synonym waiting = "(dhcp_msg \<times> peer \<times> time) list"
type_synonym machine = "dhcp_server \<times> waiting"

text \<open>
  A packet is received with its source and its arrival time (\<open>serve\<close>); the mutex lets one waiting
  handler run at a time. A range visits no key twice, and the library's messages carry IPv4
  addresses.
\<close>

inductive dhcp_step :: "reply_builder \<Rightarrow> machine \<Rightarrow> machine \<Rightarrow> bool" for nr :: reply_builder where
  receive: "msg_v4 msg \<Longrightarrow> dhcp_step nr (s, w) (s, w @ [(msg, peer, arrived)])"
| handle: "handler nr e (reply_peer peer) msg arrived s = Some s' \<Longrightarrow>
    dhcp_step nr (s, w1 @ (msg, peer, arrived) # w2) (s', w1 @ w2)"
| tick: "distinct (rn_offer_order e) \<Longrightarrow> distinct (rn_lease_order e) \<Longrightarrow>
    cleanup_tick e s = Some s' \<Longrightarrow> dhcp_step nr (s, w) (s', w)"
| control: "handle_lease_control e m s = Some (code, s') \<Longrightarrow> dhcp_step nr (s, w) (s', w)"

inductive dhcp_reach :: "reply_builder \<Rightarrow> dhcp_server \<Rightarrow> machine \<Rightarrow> bool"
  for nr :: reply_builder and s0 :: dhcp_server where
  start: "dhcp_reach nr s0 (s0, [])"
| step: "dhcp_reach nr s0 c \<Longrightarrow> dhcp_step nr c c' \<Longrightarrow> dhcp_reach nr s0 c'"

inductive_cases dhcp_stepE: "dhcp_step nr c c'"
inductive_simps dhcp_step_from: "dhcp_step nr (s, w) c'"

definition machine_inv :: "dhcp_server \<Rightarrow> machine \<Rightarrow> bool" where
  "machine_inv s0 c \<longleftrightarrow> server_inv (fst c) \<and> same_pool s0 (fst c) \<and> (\<forall>(msg, _) \<in> set (snd c). msg_v4 msg)"

lemma machine_inv_step: "dhcp_step nr c c' \<Longrightarrow> machine_inv s0 c \<Longrightarrow> machine_inv s0 c'"
proof (induction rule: dhcp_step.induct)
  case (receive msg s w peer arrived)
  then show ?case by (simp add: machine_inv_def)
next
  case (handle e peer msg arrived s s' w1 w2)
  then have v4: "msg_v4 msg" and inv: "server_inv s" by (auto simp: machine_inv_def)
  obtain t where t: "handler nr e (reply_peer peer) msg arrived s = Some t" "server_inv t"
    "only_client (dm_chaddr msg) s t" by (rule handler_ok [OF inv v4])
  with handle show ?case by (auto simp: machine_inv_def intro: same_pool_trans only_client_pool)
next
  case (tick e s s' w)
  then have inv: "server_inv s" by (auto simp: machine_inv_def)
  obtain t where t: "cleanup_tick e s = Some t" "server_inv t" "same_pool s t"
    using cleanup_tick_ok [OF inv tick.hyps(1,2)] by metis
  with tick show ?case by (auto simp: machine_inv_def intro: same_pool_trans)
next
  case (control e m s code s' w)
  then have inv: "server_inv s" by (auto simp: machine_inv_def)
  obtain c t where t: "handle_lease_control e m s = Some (c, t)" "server_inv t"
    "\<And>mac. parse_mac m = Some mac \<Longrightarrow> only_client mac s t" "parse_mac m = None \<Longrightarrow> t = s"
    using handle_lease_control_ok [OF inv, of e m] by metis
  have "same_pool s t"
    using t(3,4) only_client_pool by (cases "parse_mac m") (auto simp: same_pool_def)
  with control t show ?case by (auto simp: machine_inv_def intro: same_pool_trans)
qed

lemma machine_inv_reach: "dhcp_reach nr s0 c \<Longrightarrow> server_inv s0 \<Longrightarrow> machine_inv s0 c"
proof (induction rule: dhcp_reach.induct)
  case start
  then show ?case by (simp add: machine_inv_def same_pool_def)
qed (blast intro: machine_inv_step)

section \<open>The abstract allocator\<close>

datatype slot = Free | Offered string | Leased string

text \<open>A client may take free addresses and give up its own; a sweep only frees.\<close>

definition mine :: "string \<Rightarrow> slot option set" where
  "mine c = {Some Free, Some (Offered c), Some (Leased c)}"

inductive alloc_step :: "(u32 \<rightharpoonup> slot) \<Rightarrow> (u32 \<rightharpoonup> slot) \<Rightarrow> bool" where
  client: "\<forall>k. \<sigma>' k = \<sigma> k \<or> (\<sigma> k \<in> mine c \<and> \<sigma>' k \<in> mine c) \<Longrightarrow> alloc_step \<sigma> \<sigma>'"
| sweep: "\<forall>k. \<sigma>' k = \<sigma> k \<or> (\<sigma> k \<noteq> None \<and> \<sigma>' k = Some Free) \<Longrightarrow> alloc_step \<sigma> \<sigma>'"

text \<open>What the server's tables say of an address.\<close>

definition slot_of :: "dhcp_server \<Rightarrow> u32 \<Rightarrow> slot \<Rightarrow> bool" where
  "slot_of s k st \<longleftrightarrow> (case st of
     Free \<Rightarrow> k \<in> dom (pool_free (sv_pool s))
   | Offered c \<Rightarrow> (\<exists>o1. offer_map (sv_offers s) c = Some o1 \<and> offer_key o1 = k)
   | Leased c \<Rightarrow> (\<exists>l. lease_map (sv_leases s) c = Some l \<and> lease_key l = k))"

definition slots :: "dhcp_server \<Rightarrow> u32 \<rightharpoonup> slot" where
  "slots s k = (if \<exists>st. slot_of s k st then Some (SOME st. slot_of s k st) else None)"

lemma slot_of_Free: "slot_of s k Free \<Longrightarrow> k \<in> dom (pool_free (sv_pool s))"
  by (simp add: slot_of_def)

lemma slot_of_Offered: "slot_of s k (Offered c) \<Longrightarrow> k \<in> offer_keys (sv_offers s)"
  by (auto simp: slot_of_def intro: offer_keysI)

lemma slot_of_Leased: "slot_of s k (Leased c) \<Longrightarrow> k \<in> lease_keys (sv_leases s)"
  by (auto simp: slot_of_def intro: lease_keysI)

lemmas slot_of_region = slot_of_Free slot_of_Offered slot_of_Leased

lemma slot_of_unique: "server_inv s \<Longrightarrow> slot_of s k st \<Longrightarrow> slot_of s k st' \<Longrightarrow> st = st'"
proof -
  assume inv: "server_inv s" and a: "slot_of s k st" and b: "slot_of s k st'"
  have o: "owns {} (sv_pool s) (sv_offers s) (sv_leases s)" using inv by (simp add: server_inv_def)
  have free: False if "k \<in> dom (pool_free (sv_pool s))" "k \<in> offer_keys (sv_offers s) \<union> lease_keys (sv_leases s)"
    using that o ipp.wf_disjoint [OF ownsD(1) [OF o]] unfolding owns_def by blast
  have dis: False if "k \<in> offer_keys (sv_offers s)" "k \<in> lease_keys (sv_leases s)"
    using that o unfolding owns_def by blast
  have off: "c = c'" if "slot_of s k (Offered c)" "slot_of s k (Offered c')" for c c'
    using that inj_rowsD [OF offers_inj_key [OF ownsD(2) [OF o]], of c _ c'] by (auto simp: slot_of_def)
  have lea: "c = c'" if "slot_of s k (Leased c)" "slot_of s k (Leased c')" for c c'
    using that inj_rowsD [OF lease_inj_key [OF ownsD(3) [OF o]], of c _ c'] by (auto simp: slot_of_def)
  show ?thesis
    using a b free dis off lea slot_of_region [of s k] by (cases st; cases st'; blast)
qed

lemma slots_iff: "server_inv s \<Longrightarrow> slots s k = Some st \<longleftrightarrow> slot_of s k st"
  unfolding slots_def by (metis (mono_tags, lifting) option.distinct(1) option.inject slot_of_unique someI_ex)

lemma slots_dom: "server_inv s \<Longrightarrow> slots s k \<noteq> None \<longleftrightarrow> k \<in> pool_keys (sv_pool s)"
proof -
  assume inv: "server_inv s"
  have "pool_used (sv_pool s) = offer_keys (sv_offers s) \<union> lease_keys (sv_leases s)"
    using inv by (simp add: server_inv_def owns_def)
  then have "k \<in> pool_keys (sv_pool s) \<longleftrightarrow>
      k \<in> dom (pool_free (sv_pool s)) \<or> k \<in> offer_keys (sv_offers s) \<or> k \<in> lease_keys (sv_leases s)"
    by (simp add: pool_keys_def)
  also have "\<dots> \<longleftrightarrow> slot_of s k Free \<or> (\<exists>c. slot_of s k (Offered c)) \<or> (\<exists>c. slot_of s k (Leased c))"
    unfolding slot_of_def slot.case offer_keys_def lease_keys_def row_keys_iff by blast
  also have "\<dots> \<longleftrightarrow> (\<exists>st. slot_of s k st)"
    by (metis slot.exhaust)
  finally have "k \<in> pool_keys (sv_pool s) \<longleftrightarrow> (\<exists>st. slot_of s k st)" .
  then show ?thesis by (auto simp: slots_def)
qed

lemma slots_other:
  assumes inv: "server_inv s" "server_inv s'" and oc: "only_client m s s'"
    and st: "slots s k = Some st" "st \<noteq> Free" "st \<noteq> Offered (mac_string m)" "st \<noteq> Leased (mac_string m)"
  shows "slots s' k = Some st"
  using assms by (cases st) (auto simp: slots_iff slot_of_def only_client_def)

lemma only_client_alloc:
  assumes inv: "server_inv s" "server_inv s'" and oc: "only_client m s s'"
  shows "alloc_step (slots s) (slots s')"
proof (rule alloc_step.client [of _ _ "mac_string m"], rule allI)
  fix k
  have oc': "only_client m s' s" using oc by (simp add: only_client_def)
  have pk: "pool_keys (sv_pool s') = pool_keys (sv_pool s)" using oc by (simp add: only_client_def)
  have mine: "slots t k \<in> mine (mac_string m)"
    if n: "slots t k \<noteq> None" "slots u k \<noteq> slots t k" "server_inv t" "server_inv u" "only_client m t u" for t u
  proof -
    obtain st where st: "slots t k = Some st" using n by auto
    have "st = Free \<or> st = Offered (mac_string m) \<or> st = Leased (mac_string m)"
      using slots_other [OF n(3-5) st] n(2) st by auto
    with st show ?thesis by (auto simp: mine_def)
  qed
  show "slots s' k = slots s k \<or> (slots s k \<in> mine (mac_string m) \<and> slots s' k \<in> mine (mac_string m))"
  proof (cases "slots s' k = slots s k")
    case False
    have "slots s k \<noteq> None \<longleftrightarrow> slots s' k \<noteq> None"
      by (simp only: slots_dom [OF inv(1)] slots_dom [OF inv(2)] pk)
    then have "slots s k \<noteq> None" "slots s' k \<noteq> None" using False by auto
    then show ?thesis
      using mine [of s s'] mine [of s' s] False inv oc oc' by auto
  qed simp
qed

lemma sweep_alloc:
  assumes inv: "server_inv s" "server_inv s'" and pk: "same_pool s s'"
    and om: "offer_map (sv_offers s') \<subseteq>\<^sub>m offer_map (sv_offers s)"
    and lm: "lease_map (sv_leases s') \<subseteq>\<^sub>m lease_map (sv_leases s)"
  shows "alloc_step (slots s) (slots s')"
proof (rule alloc_step.sweep, rule allI)
  fix k
  show "slots s' k = slots s k \<or> (slots s k \<noteq> None \<and> slots s' k = Some Free)"
  proof (cases "slots s' k")
    case None
    then have "slots s k = None"
      using slots_dom [OF inv(1), of k] slots_dom [OF inv(2), of k] pk by (simp add: same_pool_def)
    with None show ?thesis by simp
  next
    case (Some st)
    have "slots s k \<noteq> None"
      using Some slots_dom [OF inv(1), of k] slots_dom [OF inv(2), of k] pk by (simp add: same_pool_def)
    moreover have "slots s k = Some st" if "st \<noteq> Free"
      using Some that om lm by (cases st) (auto simp: slots_iff [OF inv(1)] slots_iff [OF inv(2)] slot_of_def
          dest: map_leD)
    ultimately show ?thesis using Some by auto
  qed
qed

text \<open>Every step of the server is a step of the allocator, or leaves it alone.\<close>

lemma dhcp_step_alloc:
  assumes st: "dhcp_step nr c c'" and inv: "machine_inv s0 c"
  shows "alloc_step (slots (fst c)) (slots (fst c')) \<or> slots (fst c') = slots (fst c)"
  using st
proof (cases rule: dhcp_step.cases)
  case (receive msg s w peer arrived)
  then show ?thesis by simp
next
  case (handle e peer msg arrived s s' w1 w2)
  then have v4: "msg_v4 msg" and i: "server_inv s" using inv by (auto simp: machine_inv_def)
  obtain t where "handler nr e (reply_peer peer) msg arrived s = Some t" "server_inv t"
    "only_client (dm_chaddr msg) s t" by (rule handler_ok [OF i v4])
  with handle i show ?thesis by (auto intro: only_client_alloc)
next
  case (tick e s s' w)
  then have i: "server_inv s" using inv by (auto simp: machine_inv_def)
  obtain t where t: "cleanup_tick e s = Some t" "server_inv t" "same_pool s t"
    "offer_map (sv_offers t) = offer_map (snd (offers_sweep (rn_clk e 0) (rn_offer_order e) (sv_offers s)))"
    "sv_leases t = sv_leases s \<or>
     sv_leases t = snd (lease_expire_old (rn_clk e 1) (rn_lease_order e) (sv_leases s))"
    by (rule cleanup_tick_ok [OF i tick(3,4)]) blast
  then have "offer_map (sv_offers t) \<subseteq>\<^sub>m offer_map (sv_offers s)"
    "lease_map (sv_leases t) \<subseteq>\<^sub>m lease_map (sv_leases s)"
    using offers_table.sweep_sub lease_table.sweep_sub by auto
  then have "alloc_step (slots s) (slots t)" by (rule sweep_alloc [OF i t(2,3)])
  with t(1) tick show ?thesis by simp
next
  case (control e m s code s' w)
  then have i: "server_inv s" using inv by (auto simp: machine_inv_def)
  obtain cd t where t: "handle_lease_control e m s = Some (cd, t)" "server_inv t"
    "\<And>mac. parse_mac m = Some mac \<Longrightarrow> only_client mac s t" "parse_mac m = None \<Longrightarrow> t = s"
    using handle_lease_control_ok [OF i, of e m] by metis
  then show ?thesis
    using control i by (cases "parse_mac m") (auto intro: only_client_alloc)
qed

end
