(* ===== verification/Dhcp_Example.thy ===== *)
theory Dhcp_Example
  imports Dhcp_Machine
begin

text \<open>
  A small concrete deployment: a pool of two addresses, two clients, a reply builder that writes the
  message type in front of the request's remaining bytes. The witnesses of the properties run on it.
\<close>

definition w_mac1 :: mac where "w_mac1 = [2, 0, 0, 0, 0, 1]"
definition w_mac2 :: mac where "w_mac2 = [2, 0, 0, 0, 0, 2]"
definition w_ip1 :: ip where "w_ip1 = [10, 88, 100, 2]"
definition w_ip2 :: ip where "w_ip2 = [10, 88, 100, 3]"

definition w_conf :: dhcp_config where
  "w_conf = \<lparr>cf_interface = ''cni0'', cf_gateway = [10, 88, 100, 1], cf_mask = [255, 255, 255, 0],
     cf_dns = [[8, 8, 8, 8]], cf_lease_time = 0, cf_lease_file = ''leases.json'', cf_control_socket = []\<rparr>"

definition w_reply :: reply_builder where
  "w_reply msg mods = (case mods of WithMessageType t # _ \<Rightarrow> Some (t # dm_rest msg) | _ \<Rightarrow> None)"

definition w_run :: "time \<Rightarrow> run" where
  "w_run t = \<lparr>rn_clk = (\<lambda>n. t + int n), rn_io = (\<lambda>_. True), rn_disk = disk_ok, rn_loc = (\<lambda>_. 0),
     rn_pool_order = [key4 w_ip1, key4 w_ip2],
     rn_offer_order = [mac_string w_mac1, mac_string w_mac2],
     rn_lease_order = [mac_string w_mac1, mac_string w_mac2],
     rn_add_order = [mac_string w_mac1, mac_string w_mac2],
     rn_save_order = [mac_string w_mac1, mac_string w_mac2]\<rparr>"

definition w_msg :: "byte \<Rightarrow> mac \<Rightarrow> ip \<Rightarrow> dhcp_msg" where
  "w_msg t m ip = \<lparr>dm_op = 1, dm_type = t, dm_chaddr = m, dm_ciaddr = [0, 0, 0, 0], dm_requested = ip, dm_rest = [7]\<rparr>"

definition w_peer :: peer where "w_peer = UdpPeer [0, 0, 0, 0] 68"

definition w_new :: dhcp_server where "w_new = the (new_server w_conf [w_ip1, w_ip2] Map.empty)"

definition w_boot :: dhcp_server where "w_boot = w_new\<lparr>sv_link := 3\<rparr>"

definition w_t0 :: time where "w_t0 = 1000 * second"

definition w_leased :: dhcp_server where
  "w_leased = the (handler w_reply (w_run w_t0) (reply_peer w_peer) (w_msg 3 w_mac1 w_ip1) w_t0 w_boot)"

section \<open>Its start and first steps\<close>

lemma w_new: "new_server w_conf [w_ip1, w_ip2] Map.empty = Some w_new"
  using new_server_total [of w_conf "[w_ip1, w_ip2]" Map.empty] by (auto simp: w_new_def)

lemma w_takeover: "takeover_ok e r f Map.empty"
  by (simp add: takeover_ok_def lease_load_def)

lemma w_boots: "boots w_conf [w_ip1, w_ip2] Map.empty (w_run 0) 3 True w_boot"
proof -
  note ns = new_server_inv [OF w_new]
  have "w_new\<lparr>sv_link := 3, sv_leases := sv_leases w_new\<rparr> = w_boot"
    by (simp add: w_boot_def dhcp_server.equality)
  then show ?thesis
    using w_new ns(5,7)
    by (auto simp: boots_def run_start_def lease_load_def Let_def new_lease_store_def
        intro!: exI [of _ w_new])
qed

lemma w_boot_inv: "server_inv w_boot"
  by (rule boots_ok(1) [OF w_boots w_takeover])

definition w_req1 :: dhcp_msg where "w_req1 = w_msg 3 w_mac1 w_ip1"

lemma w_req1_v4: "msg_v4 w_req1"
  by code_simp

lemma w_leased_step: "handler w_reply (w_run w_t0) (reply_peer w_peer) w_req1 w_t0 w_boot = Some w_leased"
proof -
  obtain t where t: "handler w_reply (w_run w_t0) (reply_peer w_peer) w_req1 w_t0 w_boot = Some t"
    by (rule handler_ok [OF w_boot_inv w_req1_v4])
  then show ?thesis unfolding w_leased_def w_req1_def by simp
qed

lemma w_receive_step: "dhcp_step w_reply (w_boot, []) (w_boot, [(w_req1, w_peer, w_t0)])"
  using dhcp_step.receive [OF w_req1_v4, where w = "[]"] by simp

lemma w_handle_step: "dhcp_step w_reply (w_boot, [(w_req1, w_peer, w_t0)]) (w_leased, [])"
  using dhcp_step.handle [OF w_leased_step, where ?w1.0 = "[]" and ?w2.0 = "[]"] by simp

lemma w_reach_waiting: "dhcp_reach w_reply w_boot (w_boot, [(w_req1, w_peer, w_t0)])"
  by (rule dhcp_reach.step [OF dhcp_reach.start w_receive_step])

lemma w_reach_leased: "dhcp_reach w_reply w_boot (w_leased, [])"
  by (rule dhcp_reach.step [OF w_reach_waiting w_handle_step])

lemma w_leased_inv: "server_inv w_leased"
  using machine_inv_reach [OF w_reach_leased w_boot_inv] by (simp add: machine_inv_def)

lemma w_leased_row: "lease_map (sv_leases w_leased) (mac_string w_mac1) =
    Some \<lparr>l_mac = w_mac1, l_ip = w_ip1, l_expiry = w_t0 + default_lease_time, l_granted = w_t0\<rparr>"
  by code_simp

end
