(* ===== verification/Dhcp_Safety.thy ===== *)
theory Dhcp_Safety
  imports Dhcp_Example
begin

text \<open>
  Properties of every reachable state of the server: exclusive addresses, conservation of the pool,
  no panic, isolation of clients and refinement of the abstract allocator. Each is followed by a
  witness on the concrete deployment.
\<close>

section \<open>Holders of an address\<close>

definition holders :: "dhcp_server \<Rightarrow> u32 \<Rightarrow> string set" where
  "holders s k = {c. slot_of s k (Offered c) \<or> slot_of s k (Leased c)}"

lemma reach_inv:
  assumes "boots c ips files e0 link readable s0" and "takeover_ok e0 readable (cf_lease_file c) files"
    and "dhcp_reach nr s0 (s, w)"
  shows "machine_inv s0 (s, w)" and "server_inv s" and "same_pool s0 s"
    and "pool_keys (sv_pool s) = key4 ` {ip \<in> set ips. to4 ip \<noteq> []}"
  using machine_inv_reach [OF assms(3)] boots_ok [OF assms(1,2)]
  by (auto simp: machine_inv_def same_pool_def)

text \<open>
  C1. In every state the server reaches, an address is offered or leased to at most one client, and
  an address in the free table is held by none.
\<close>

theorem address_exclusive:
  assumes "boots c ips files e0 link readable s0" and "takeover_ok e0 readable (cf_lease_file c) files"
    and "dhcp_reach nr s0 (s, w)"
  shows "(\<exists>client. holders s k \<subseteq> {client}) \<and> (slot_of s k Free \<longrightarrow> holders s k = {})"
proof -
  note u = slot_of_unique [OF reach_inv(2) [OF assms]]
  have "\<exists>client. holders s k \<subseteq> {client}"
  proof (cases "holders s k = {}")
    case False
    then obtain client where "client \<in> holders s k" by blast
    then have "holders s k \<subseteq> {client}" using u by (fastforce simp: holders_def)
    then show ?thesis ..
  qed simp
  moreover have "slot_of s k Free \<longrightarrow> holders s k = {}" using u by (fastforce simp: holders_def)
  ultimately show ?thesis by blast
qed

theorem address_exclusive_witness:
  "mac_string w_mac1 \<in> holders w_leased (key4 w_ip1) \<and> (\<exists>client. holders w_leased (key4 w_ip1) \<subseteq> {client})"
  using address_exclusive [OF w_boots w_takeover w_reach_leased, of "key4 w_ip1"] w_leased_row
  by (auto simp: holders_def slot_of_def)

text \<open>
  C2. In every reachable state the free addresses, the pending offers and the leases, expired ones
  included, add up to the configured pool: no address is lost and none appears.
\<close>

theorem pool_conserved:
  assumes "boots c ips files e0 link readable s0" and "takeover_ok e0 readable (cf_lease_file c) files"
    and "dhcp_reach nr s0 (s, w)"
  shows "pool_available s + card (dom (offer_map (sv_offers s))) + card (dom (lease_map (sv_leases s))) =
    card (key4 ` {ip \<in> set ips. to4 ip \<noteq> []})"
proof -
  have o: "owns {} (sv_pool s) (sv_offers s) (sv_leases s)"
    using reach_inv(2) [OF assms] by (simp add: server_inv_def)
  let ?f = "dom (pool_free (sv_pool s))"
  note wf = ownsD [OF o]
  have fin: "finite ?f" "finite (offer_keys (sv_offers s))" "finite (lease_keys (sv_leases s))"
    using ipp.wf_finite [OF wf(1)] wf(2,3)
    by (simp_all add: offer_keys_def lease_keys_def finite_row_keys offers_wf_def lease_wf_def)
  have "card (dom (offer_map (sv_offers s))) = card (offer_keys (sv_offers s))"
    "card (dom (lease_map (sv_leases s))) = card (lease_keys (sv_leases s))"
    using card_row_keys [OF _ offers_inj_key [OF wf(2)]] card_row_keys [OF _ lease_inj_key [OF wf(3)]] wf(2,3)
    by (simp_all add: offer_keys_def lease_keys_def offers_wf_def lease_wf_def)
  moreover have "?f \<inter> (offer_keys (sv_offers s) \<union> lease_keys (sv_leases s)) = {}"
    "offer_keys (sv_offers s) \<inter> lease_keys (sv_leases s) = {}"
    using o ipp.wf_disjoint [OF wf(1)] by (auto simp: owns_def)
  moreover have "key4 ` {ip \<in> set ips. to4 ip \<noteq> []} =
      ?f \<union> (offer_keys (sv_offers s) \<union> lease_keys (sv_leases s))"
    using reach_inv(4) [OF assms] o by (simp add: owns_def pool_keys_def)
  ultimately show ?thesis
    using fin by (simp add: card_Un_disjoint pool_available_def pool_free_count_def)
qed

theorem pool_conserved_witness:
  "pool_available w_leased + card (dom (offer_map (sv_offers w_leased))) +
   card (dom (lease_map (sv_leases w_leased))) = 2"
proof -
  have "{ip \<in> set [w_ip1, w_ip2]. to4 ip \<noteq> []} = {w_ip1, w_ip2}"
    by (auto simp: w_ip1_def w_ip2_def)
  moreover have "key4 w_ip1 \<noteq> key4 w_ip2" by code_simp
  ultimately show ?thesis
    using pool_conserved [OF w_boots w_takeover w_reach_leased] by simp
qed

text \<open>
  C3. No handler panics in a reachable state: neither one that waits with a received packet, whatever
  the clock, the ranges, the kernel and the disk do, nor a cleanup tick, nor a control request.
\<close>

theorem no_panic:
  assumes "boots c ips files e0 link readable s0" and "takeover_ok e0 readable (cf_lease_file c) files"
    and "dhcp_reach nr s0 (s, w)"
  shows "(\<forall>(msg, peer, arrived) \<in> set w. \<forall>nr' e. handler nr' e (reply_peer peer) msg arrived s \<noteq> None) \<and>
    (\<forall>e. distinct (rn_offer_order e) \<longrightarrow> distinct (rn_lease_order e) \<longrightarrow> cleanup_tick e s \<noteq> None) \<and>
    (\<forall>e m. handle_lease_control e m s \<noteq> None)"
proof (intro conjI allI ballI impI)
  note inv = reach_inv(1,2) [OF assms]
  fix x assume x: "x \<in> set w"
  obtain msg peer arrived where m: "x = (msg, peer, arrived)" by (cases x)
  have v4: "msg_v4 msg" using inv(1) x m by (auto simp: machine_inv_def)
  have "handler nr' e (reply_peer peer) msg arrived s \<noteq> None" for nr' e
    by (rule handler_ok [OF inv(2) v4, of nr' e "reply_peer peer" arrived]) simp
  then show "case x of (msg, peer, arrived) \<Rightarrow> \<forall>nr' e. handler nr' e (reply_peer peer) msg arrived s \<noteq> None"
    by (simp add: m)
next
  fix e :: run assume "distinct (rn_offer_order e)" "distinct (rn_lease_order e)"
  then show "cleanup_tick e s \<noteq> None" using cleanup_tick_ok [OF reach_inv(2) [OF assms]] by (metis option.distinct(1))
next
  fix e m show "handle_lease_control e m s \<noteq> None"
    using handle_lease_control_ok [OF reach_inv(2) [OF assms], of e m] by (metis option.distinct(1))
qed

theorem no_panic_witness:
  "handler w_reply (w_run w_t0) (reply_peer w_peer) w_req1 w_t0 w_boot \<noteq> None \<and>
   cleanup_tick (w_run w_t0) w_boot \<noteq> None"
proof -
  have "distinct (rn_offer_order (w_run w_t0))" "distinct (rn_lease_order (w_run w_t0))"
    by (simp_all add: w_run_def w_mac1_def w_mac2_def)
  then show ?thesis using no_panic [OF w_boots w_takeover w_reach_waiting] by simp
qed

text \<open>
  C4. Every step of the running server is a step of the abstract allocator, in which a client moves
  addresses only between free, offered to it and leased to it, and a sweep only frees, or it leaves
  the allocator's state alone.
\<close>

theorem refines_allocator:
  assumes "boots c ips files e0 link readable s0" and "takeover_ok e0 readable (cf_lease_file c) files"
    and "dhcp_reach nr s0 (s, w)" and "dhcp_step nr (s, w) (s', w')"
  shows "alloc_step (slots s) (slots s') \<or> slots s' = slots s"
  using dhcp_step_alloc [OF assms(4) reach_inv(1) [OF assms(1-3)]] by simp

theorem refines_allocator_witness: "alloc_step (slots w_boot) (slots w_leased) \<or> slots w_leased = slots w_boot"
  by (rule refines_allocator [OF w_boots w_takeover w_reach_waiting w_handle_step])

text \<open>
  C5. A packet changes the tables only for the client it names: the offer and the lease of every other
  client are untouched, and so is the set of addresses the pool manages.
\<close>

theorem client_isolation:
  assumes "boots c ips files e0 link readable s0" and "takeover_ok e0 readable (cf_lease_file c) files"
    and "dhcp_reach nr s0 (s, w)" and "(msg, peer, arrived) \<in> set w"
    and "handler nr e (reply_peer peer) msg arrived s = Some s'" and "m \<noteq> dm_chaddr msg"
  shows "offer_map (sv_offers s') (mac_string m) = offer_map (sv_offers s) (mac_string m) \<and>
    lease_map (sv_leases s') (mac_string m) = lease_map (sv_leases s) (mac_string m) \<and>
    pool_keys (sv_pool s') = pool_keys (sv_pool s)"
proof -
  have v4: "msg_v4 msg" using reach_inv(1) [OF assms(1-3)] assms(4) by (auto simp: machine_inv_def)
  obtain t where "handler nr e (reply_peer peer) msg arrived s = Some t" "only_client (dm_chaddr msg) s t"
    by (rule handler_ok [OF reach_inv(2) [OF assms(1-3)] v4])
  with assms(5,6) show ?thesis by (simp add: only_client_def)
qed

theorem client_isolation_witness:
  "lease_map (sv_leases w_leased) (mac_string w_mac2) = lease_map (sv_leases w_boot) (mac_string w_mac2)"
proof -
  have "w_mac2 \<noteq> dm_chaddr w_req1" by (simp add: w_req1_def w_msg_def w_mac1_def w_mac2_def)
  then show ?thesis
    using client_isolation [OF w_boots w_takeover w_reach_waiting _ w_leased_step] by simp
qed

end
