(* ===== verification/Dhcp_Service.thy ===== *)
theory Dhcp_Service
  imports Dhcp_Example
begin

text \<open>
  What a client gets from the server: the outcomes of a REQUEST, the durability of an ACK, the grant of
  an address the client holds, offers, releases and the cleanup. \<open>server_inv\<close> is the invariant that
  every reachable state satisfies.
\<close>

section \<open>REQUEST\<close>

definition disk_works :: "disk \<Rightarrow> bool" where
  "disk_works d \<longleftrightarrow> dk_write d = WriteDone \<and> dk_chmod d \<and> dk_rename d"

lemma lease_save_works: "disk_works d \<Longrightarrow> fst (lease_save loc d ks s fs) = None"
  by (simp add: disk_works_def lease_save_def write_file_atomic_def os_write_file_def os_chmod_def
      os_rename_def Let_def)

lemma lease_save_done:
  assumes "lease_save loc d ks s fs = (None, fs')"
  shows "fs' (lease_path s) = Some \<lparr>f_data = lease_data loc ks s, f_perm = lease_file_perm\<rparr>"
  using wfa.put_ok assms unfolding lease_save_def by blast

text \<open>
  C6. A REQUEST has exactly three outcomes. It is ignored without any effect (no address, or a later
  REQUEST holds the lease); it is refused, counted as failed, with every table and the lease file as
  before and nothing sent but NAKs; or the route is installed and the lease committed.
\<close>

theorem request_outcomes:
  assumes "server_inv s" and "msg_v4 msg"
  shows "(handle_request nr e peer msg mac arrived s = Some s \<and>
      (requested_ip msg = [] \<or> is_unspecified (requested_ip msg) \<or> overtaken e mac arrived s)) \<or>
    (\<exists>s'. handle_request nr e peer msg mac arrived s = Some (count_result ''failed'' s') \<and>
      refused nr peer msg s s') \<or>
    (\<exists>resp s1 ok s'.
      handle_request nr e peer msg mac arrived s = Some (count_result (if ok then ''ok'' else ''failed'') s') \<and>
      build_reply nr (sv_conf s) msg type_ack (requested_ip msg) = Some resp \<and>
      sv_trace s1 = sv_trace s @ [RouteReplace (host_route (requested_ip msg) (sv_link s)) True] \<and>
      sv_leases s1 = sv_leases s \<and> sv_offers s1 = sv_offers s \<and>
      committed e peer mac (requested_ip msg) resp arrived s1 ok s')"
  by (rule handle_request_cases [OF assms, of nr e peer mac arrived]) blast+

theorem request_outcomes_witness:
  "\<exists>s'. handle_request w_reply (w_run w_t0) w_peer w_req1 w_mac1 w_t0 w_boot = Some s'"
  using request_outcomes [OF w_boot_inv w_req1_v4, of w_reply "w_run w_t0" w_peer w_mac1 w_t0] by blast

text \<open>
  C7. An ACK counted as sent is durable and reachable: its route was installed first and is not removed
  again, the lease is in the table and in the lease file as written, and the packet was sent after
  the save, last of all.
\<close>

theorem ack_is_durable:
  assumes "server_inv s" and "msg_v4 msg"
    and "handle_request nr e peer msg mac arrived s = Some s'" and "sv_total s' ''ok'' \<noteq> sv_total s ''ok''"
  shows "\<exists>resp dels. build_reply nr (sv_conf s) msg type_ack (requested_ip msg) = Some resp \<and>
    sv_trace s' = sv_trace s @ RouteReplace (host_route (requested_ip msg) (sv_link s)) True # dels @
      [SaveLeases True, SendPacket resp peer True] \<and>
    (\<forall>b. RouteDel (host_route (requested_ip msg) (sv_link s)) b \<notin> set dels) \<and>
    lease_map (sv_leases s') (mac_string mac) = Some (granted_lease (sv_conf s) mac (requested_ip msg) arrived) \<and>
    sv_files s' (lease_path (sv_leases s)) =
      Some \<lparr>f_data = lease_data (rn_loc e) (rn_save_order e) (sv_leases s'), f_perm = lease_file_perm\<rparr>"
proof (rule handle_request_cases [OF assms(1,2), of nr e peer mac arrived])
  assume "handle_request nr e peer msg mac arrived s = Some s"
  with assms(3,4) show ?thesis by simp
next
  fix t assume "handle_request nr e peer msg mac arrived s = Some (count_result ''failed'' t)"
    and "refused nr peer msg s t"
  with assms(3,4) show ?thesis by (auto simp: count_result_def refused_def)
next
  fix resp s1 ok t
  assume t: "handle_request nr e peer msg mac arrived s = Some (count_result (if ok then ''ok'' else ''failed'') t)"
    "server_inv t" "build_reply nr (sv_conf s) msg type_ack (requested_ip msg) = Some resp"
    "only_client mac s s1" "sv_leases s1 = sv_leases s" "sv_total s1 = sv_total s" "sv_link s1 = sv_link s"
    "sv_trace s1 = sv_trace s @ [RouteReplace (host_route (requested_ip msg) (sv_link s)) True]"
    "committed e peer mac (requested_ip msg) resp arrived s1 ok t"
  let ?ip = "requested_ip msg"
  let ?dels = "map (\<lambda>i. RouteDel (host_route i (sv_link s1)) (rn_io e (length (sv_trace s1))))
      (rebound_ips mac ?ip (sv_leases s1))"
  have s': "s' = count_result (if ok then ''ok'' else ''failed'') t" using t(1) assms(3) by simp
  have ok using assms(4) s' t(6,9) by (auto simp: count_result_def committed_def split: if_splits)
  then have c: "lease_map (sv_leases t) = (lease_map (sv_leases s1))(mac_string mac \<mapsto>
        granted_lease (sv_conf s1) mac ?ip arrived)"
      "sv_trace t = sv_trace s1 @ ?dels @ [SaveLeases True, SendPacket resp peer True]"
      "lease_save (rn_loc e) (rn_disk e) (rn_save_order e) (sv_leases t) (sv_files s1) = (None, sv_files t)"
    using t(9) by (auto simp: committed_def split: prod.splits)
  have path: "lease_path (sv_leases t) = lease_path (sv_leases s)" "sv_conf s1 = sv_conf s"
    using t(4) committed_only [OF t(9)] by (simp_all add: only_client_def)
  have ne: "host_route i l \<noteq> host_route ?ip l" if "i \<in> set (rebound_ips mac ?ip (sv_leases s1))" for i l
  proof -
    from that obtain l' where l': "lease_map (sv_leases s) (mac_string mac) = Some l'" "i = l_ip l'" "i \<noteq> to4 ?ip"
      using rebound_ipsD t(5) by fastforce
    have "length i = 4" using assms(1) l'(1,2) ownsD(3) lease_wf_entry unfolding server_inv_def by blast
    with l'(3) show ?thesis by (simp add: host_route_def)
  qed
  have "\<forall>b. RouteDel (host_route ?ip (sv_link s)) b \<notin> set ?dels"
    by (simp add: image_iff t(7)) (metis ne)
  with t c path lease_save_done [OF c(3)] \<open>ok\<close> show ?thesis by (auto simp: s' count_result_def)
qed

theorem ack_is_durable_witness:
  "\<exists>resp dels. sv_trace w_leased = sv_trace w_boot @ RouteReplace (host_route w_ip1 3) True # dels @
      [SaveLeases True, SendPacket resp (UdpPeer ipv4_bcast 68) True]"
proof -
  have h: "handle_request w_reply (w_run w_t0) (UdpPeer ipv4_bcast 68) w_req1 w_mac1 w_t0 w_boot = Some w_leased"
    using w_leased_step
    by (simp add: handler_def w_req1_def w_msg_def dhcp_codes reply_peer_def w_peer_def is_unspecified_def
        ip_equal_def v4_in_v6_prefix_def)
  have n: "sv_total w_leased ''ok'' \<noteq> sv_total w_boot ''ok''" by code_simp
  have "requested_ip w_req1 = w_ip1" "sv_link w_boot = 3" by code_simp+
  with ack_is_durable [OF w_boot_inv w_req1_v4 h n] show ?thesis by auto
qed

text \<open>
  C8. A client that requests the address it holds, by a live offer or a live lease, gets it when the
  calls to the kernel, the disk and the network succeed: the ACK is sent and the lease runs for the
  configured time from the arrival of the REQUEST.
\<close>

lemma held_not_other:
  assumes inv: "server_inv s" and held: "already_held e mac ip s"
  shows "\<not> is_leased_to_other now ks mac ip (sv_leases s)"
proof
  assume "is_leased_to_other now ks mac ip (sv_leases s)"
  then obtain k l where l: "lease_map (sv_leases s) k = Some l" "ip_equal (l_ip l) ip" "k \<noteq> mac_string mac"
    by (auto simp: is_leased_to_other_def list_ex_iff set_range_map)
  have wf: "lease_wf (sv_leases s)" using inv ownsD(3) by (auto simp: server_inv_def)
  have ip: "to4 ip = l_ip l" using l(2) lease_wf_entry [OF wf l(1)] by (simp add: ip_equal_to4)
  have "slot_of s (key4 ip) (Leased k)"
    using l(1) ip key4_to4 [of ip] by (auto simp: slot_of_def)
  moreover have "slot_of s (key4 ip) (Offered (mac_string mac)) \<or> slot_of s (key4 ip) (Leased (mac_string mac))"
    using already_heldD [OF _ held] inv key4_to4 [of ip] by (auto simp: slot_of_def server_inv_owned)
  ultimately show False using slot_of_unique [OF inv] l(3) by blast
qed

theorem held_request_granted:
  assumes inv: "server_inv s" and v4: "msg_v4 msg"
    and ip: "requested_ip msg \<noteq> []" "\<not> is_unspecified (requested_ip msg)"
    and nov: "\<not> overtaken e mac arrived s"
    and held: "already_held e mac (requested_ip msg) s"
    and resp: "build_reply nr (sv_conf s) msg type_ack (requested_ip msg) = Some resp"
    and io: "\<forall>n. rn_io e n" and disk: "disk_works (rn_disk e)"
  shows "\<exists>s'. handle_request nr e peer msg mac arrived s = Some s' \<and>
    sv_total s' ''ok'' = sv_total s ''ok'' + 1 \<and>
    lease_map (sv_leases s') (mac_string mac) = Some (granted_lease (sv_conf s) mac (requested_ip msg) arrived) \<and>
    offer_map (sv_offers s') (mac_string mac) = None \<and>
    last (sv_trace s') = SendPacket resp peer True"
proof -
  let ?ip = "requested_ip msg"
  have v: "to4 ?ip \<noteq> []" using v4 ip(1) by (simp add: msg_v4_def)
  obtain s1 where s1: "add_route e ?ip s = (True, s1)" using io by (simp add: add_route_def emit_def Let_def)
  have st: "same_tables s s1" using io_same(1) [of s e ?ip] s1 by simp
  have tot: "sv_total s1 = sv_total s" using s1 by (auto simp: add_route_def emit_def Let_def)
  have g: "grant nr e peer msg mac arrived s = commit_lease e peer mac ?ip resp arrived s1"
    using held_not_other [OF inv held] held resp s1 by (simp add: grant_def)
  have o1: "owned {} s1" using inv same_tables_owned [OF st] by (simp add: server_inv_owned)
  have h: "key4 ?ip \<in> {} \<or>
      (\<exists>o1. offer_map (sv_offers s1) (mac_string mac) = Some o1 \<and> po_ip o1 = to4 ?ip) \<or>
      (\<exists>l. lease_map (sv_leases s1) (mac_string mac) = Some l \<and> l_ip l = to4 ?ip)"
    using already_heldD [OF _ held] inv st by (simp add: server_inv_owned same_tables_def)
  obtain ok s' where s': "commit_lease e peer mac ?ip resp arrived s1 = Some (ok, s')"
    "committed e peer mac ?ip resp arrived s1 ok s'"
    by (rule commit_lease_ok [OF o1 _ v h]) auto
  from s'(2) obtain saved sent dels where c: "ok \<longleftrightarrow> saved \<and> sent"
    "saved \<longrightarrow> (sent \<longleftrightarrow> rn_io e (length (sv_trace s') - 1))"
    "(saved, sv_files s') = (let (err, fs') = lease_save (rn_loc e) (rn_disk e) (rn_save_order e)
           (sv_leases s') (sv_files s1) in (err = None, fs'))"
    "sv_trace s' = sv_trace s1 @ dels @ [SaveLeases saved] @ (if saved then [SendPacket resp peer sent] else [])"
    unfolding committed_def by blast
  have "saved" using c(3) lease_save_works [OF disk] by (simp add: case_prod_beta Let_def)
  then have "sent" "ok" using c(1,2) io by auto
  with \<open>saved\<close> show ?thesis
    using s' g ip nov c(4) tot st
    by (auto simp: handle_request_def count_result_def committed_def same_tables_def)
qed

definition w_renew :: run where "w_renew = w_run (w_t0 + 100)"

theorem held_request_granted_witness:
  "\<exists>s'. handle_request w_reply w_renew w_peer w_req1 w_mac1 (w_t0 + 99) w_leased = Some s' \<and>
    last (sv_trace s') = SendPacket [5, 7] w_peer True"
proof -
  have r: "requested_ip w_req1 \<noteq> []" "\<not> is_unspecified (requested_ip w_req1)"
    "build_reply w_reply (sv_conf w_leased) w_req1 type_ack (requested_ip w_req1) = Some [5, 7]"
    by code_simp+
  have row: "lease_active (rn_clk w_renew 0) w_mac1 (sv_leases w_leased) =
      Some \<lparr>l_mac = w_mac1, l_ip = w_ip1, l_expiry = w_t0 + default_lease_time, l_granted = w_t0\<rparr>"
    by (simp add: lease_active_def w_leased_row w_renew_def w_run_def default_lease_time_def second_def)
  then have o: "\<not> overtaken w_renew w_mac1 (w_t0 + 99) w_leased" by (simp add: overtaken_def)
  have ip: "requested_ip w_req1 = w_ip1" by code_simp
  have h: "already_held w_renew w_mac1 (requested_ip w_req1) w_leased"
    unfolding ip by (simp add: already_held_def is_leased_to_def w_leased_row w_renew_def w_run_def
        default_lease_time_def second_def)
  have d: "\<forall>n. rn_io w_renew n" "disk_works (rn_disk w_renew)"
    by (simp_all add: w_renew_def w_run_def disk_works_def disk_ok_def)
  from held_request_granted [OF w_leased_inv w_req1_v4 r(1,2) o h r(3) d, of w_peer]
  show ?thesis by blast
qed

text \<open>
  A REQUEST for an address under another client's live lease is answered with a NAK and changes no
  table: \<open>send_nak\<close> and the counter are all that happens.
\<close>

theorem foreign_request_refused:
  assumes "lease_map (sv_leases s) k = Some l" and "k \<noteq> mac_string mac"
    and "ip_equal (l_ip l) (requested_ip msg)" and "rn_clk e 1 < l_expiry l" and "k \<in> set (rn_lease_order e)"
    and "requested_ip msg \<noteq> []" and "\<not> is_unspecified (requested_ip msg)" and "\<not> overtaken e mac arrived s"
  shows "handle_request nr e peer msg mac arrived s = Some (count_result ''failed'' (send_nak nr e peer msg s)) \<and>
    same_tables s (send_nak nr e peer msg s)"
proof -
  have "is_leased_to_other (rn_clk e 1) (rn_lease_order e) mac (requested_ip msg) (sv_leases s)"
    using assms by (auto simp: is_leased_to_other_def list_ex_iff set_range_map intro!: bexI [of _ "(k, l)"])
  then have "grant nr e peer msg mac arrived s = Some (False, send_nak nr e peer msg s)"
    by (simp add: grant_def)
  then show ?thesis using assms(6-8) by (simp add: handle_request_def)
qed

theorem foreign_request_refused_witness:
  "handle_request w_reply w_renew w_peer w_req1 w_mac2 (w_t0 + 99) w_leased =
     Some (count_result ''failed'' (send_nak w_reply w_renew w_peer w_req1 w_leased))"
proof -
  have k: "mac_string w_mac1 \<noteq> mac_string w_mac2" by (simp add: w_mac1_def w_mac2_def)
  have ip: "requested_ip w_req1 = w_ip1" by code_simp
  have r: "requested_ip w_req1 \<noteq> []" "\<not> is_unspecified (requested_ip w_req1)"
    "mac_string w_mac1 \<in> set (rn_lease_order w_renew)" by code_simp+
  have "lease_map (sv_leases w_leased) (mac_string w_mac2) = None" by code_simp
  then have o: "\<not> overtaken w_renew w_mac2 (w_t0 + 99) w_leased"
    by (simp add: overtaken_def lease_active_def)
  from foreign_request_refused [OF w_leased_row k _ _ r(3,1,2) o, of w_reply w_peer] show ?thesis
    by (simp add: ip w_renew_def w_run_def default_lease_time_def second_def)
qed

end
