(* ===== verification/Dhcp_Reclaim.thy ===== *)
theory Dhcp_Reclaim
  imports Dhcp_Service
begin

text \<open>
  Offers and the return of addresses: DISCOVER, RELEASE, the cleanup tick, and the lease file across a
  restart and a crash.
\<close>

section \<open>DISCOVER\<close>

text \<open>The outcomes of a DISCOVER: the client's lease, no address left, or an offer.\<close>

lemma handle_discover_cases:
  assumes inv: "server_inv s"
  obtains (leased) l where "lease_map (sv_leases s) (mac_string mac) = Some l" and "rn_clk e 0 < l_expiry l"
      and "handle_discover nr e peer msg mac s =
        Some (case build_reply nr (sv_conf s) msg type_offer (l_ip l) of
                None \<Rightarrow> s | Some b \<Rightarrow> snd (send_packet e b peer s))"
  | (exhausted) s' where "handle_discover nr e peer msg mac s = Some s'" and "server_inv s'"
      and "only_client mac s s'" and "sv_leases s' = sv_leases s" and "sv_trace s' = sv_trace s"
      and "distinct (rn_pool_order e) \<Longrightarrow> pool_keys (sv_pool s) \<subseteq> set (rn_pool_order e) \<Longrightarrow>
           dom (pool_free (sv_pool s)) = {}"
  | (offered) ip s1 where "offer_map (sv_offers s1) (mac_string mac) =
        Some \<lparr>po_ip = ip, po_expiry = rn_clk e 2 + offer_timeout (sv_offers s)\<rparr>" and "length ip = 4"
      and "server_inv s1" and "only_client mac s s1" and "sv_leases s1 = sv_leases s" and "sv_trace s1 = sv_trace s"
      and "handle_discover nr e peer msg mac s =
        Some (case build_reply nr (sv_conf s) msg type_offer ip of
                None \<Rightarrow> s1 | Some b \<Rightarrow> snd (send_packet e b peer s1))"
proof -
  have wf: "lease_wf (sv_leases s)" using inv ownsD(3) by (auto simp: server_inv_def)
  show thesis
  proof (cases "lease_ip_for_mac (rn_clk e 0) mac (sv_leases s) = []")
    case False
    then obtain l where l: "lease_map (sv_leases s) (mac_string mac) = Some l" "rn_clk e 0 < l_expiry l"
      by (auto simp: lease_ip_for_mac_def split: option.splits if_splits)
    with False show thesis
      by (intro leased [OF l]) (auto simp: handle_discover_def lease_ip_for_mac_def split: option.splits)
  next
    case none: True
    show thesis
    proof (rule offer_ip_ok [OF inv, of e mac])
      fix ip t
      assume t: "offer_ip e mac s = Some (ip, t)" "server_inv t" "only_client mac s t"
        "sv_leases t = sv_leases s" "sv_trace t = sv_trace s"
        and some: "ip \<noteq> [] \<Longrightarrow> length ip = 4 \<and> offer_map (sv_offers t) (mac_string mac) =
           Some \<lparr>po_ip = ip, po_expiry = rn_clk e 2 + offer_timeout (sv_offers s)\<rparr>"
        and full: "ip = [] \<Longrightarrow> distinct (rn_pool_order e) \<Longrightarrow> pool_keys (sv_pool s) \<subseteq> set (rn_pool_order e) \<Longrightarrow>
           dom (pool_free (sv_pool s)) = {}"
      have conf: "sv_conf t = sv_conf s" using t(3) by (simp add: only_client_def)
      show thesis
      proof (cases "ip = []")
        case True
        with none t full show thesis
          by (intro exhausted [of t]) (simp_all add: handle_discover_def)
      next
        case False
        with none t some conf show thesis
          by (intro offered [of t ip]) (simp_all add: handle_discover_def)
      qed
    qed
  qed
qed

text \<open>
  C10. A DISCOVER leaves the leases alone and sends at most one packet: an OFFER of the address that the
  client leases, or of an address that is now offered to it for the offer timeout.
\<close>

theorem discover_offers:
  assumes "server_inv s" and "handle_discover nr e peer msg mac s = Some s'"
  shows "sv_leases s' = sv_leases s \<and>
    (sv_trace s' = sv_trace s \<or>
     (\<exists>ip b ok. build_reply nr (sv_conf s) msg type_offer ip = Some b \<and>
        sv_trace s' = sv_trace s @ [SendPacket b peer ok] \<and>
        ((\<exists>l. lease_map (sv_leases s') (mac_string mac) = Some l \<and> l_ip l = ip \<and> rn_clk e 0 < l_expiry l) \<or>
         offer_map (sv_offers s') (mac_string mac) =
           Some \<lparr>po_ip = ip, po_expiry = rn_clk e 2 + offer_timeout (sv_offers s)\<rparr>)))"
  by (rule handle_discover_cases [OF assms(1), of mac e nr peer msg])
    (use assms(2) in \<open>auto simp: send_packet_def emit_def Let_def split: option.splits\<close>)

definition w_disc :: dhcp_msg where "w_disc = w_msg 1 w_mac2 []"

definition w_offered :: dhcp_server where
  "w_offered = the (handle_discover w_reply w_renew w_peer w_disc w_mac2 w_leased)"

lemma w_offered: "handle_discover w_reply w_renew w_peer w_disc w_mac2 w_leased = Some w_offered"
  using handle_discover_ok [OF w_leased_inv, of w_reply w_renew w_peer w_disc w_mac2]
  unfolding w_offered_def by (metis option.sel)

theorem discover_offers_witness: "sv_leases w_offered = sv_leases w_leased"
  using discover_offers [OF w_leased_inv w_offered] by simp

text \<open>
  C11. A DISCOVER never fails to find an address while one is free: afterwards the client holds a live
  lease, or an offer that lasts for the offer timeout.
\<close>

theorem discover_serves:
  assumes "server_inv s" and "handle_discover nr e peer msg mac s = Some s'"
    and "pool_available s > 0" and "distinct (rn_pool_order e)" and "pool_keys (sv_pool s) \<subseteq> set (rn_pool_order e)"
  shows "(\<exists>l. lease_map (sv_leases s') (mac_string mac) = Some l \<and> rn_clk e 0 < l_expiry l) \<or>
    (\<exists>o1. offer_map (sv_offers s') (mac_string mac) = Some o1 \<and>
      po_expiry o1 = rn_clk e 2 + offer_timeout (sv_offers s))"
proof (rule handle_discover_cases [OF assms(1), of mac e nr peer msg])
  fix t assume "dom (pool_free (sv_pool s)) = {}" if "distinct (rn_pool_order e)"
    "pool_keys (sv_pool s) \<subseteq> set (rn_pool_order e)"
  with assms(3-5) show ?thesis by (simp add: pool_available_def pool_free_count_def)
qed (use assms(2) in \<open>auto split: option.splits\<close>)

theorem discover_serves_witness:
  "(\<exists>l. lease_map (sv_leases w_offered) (mac_string w_mac2) = Some l \<and> rn_clk w_renew 0 < l_expiry l) \<or>
   (\<exists>o1. offer_map (sv_offers w_offered) (mac_string w_mac2) = Some o1)"
proof -
  have free: "pool_available w_leased > 0"
  proof -
    have k: "pool_free (sv_pool w_leased) (key4 w_ip2) = Some w_ip2" by code_simp
    have "finite (dom (pool_free (sv_pool w_leased)))"
      using w_leased_inv ipp.wf_finite by (auto simp: server_inv_def owns_def)
    with k show ?thesis by (auto simp: pool_available_def pool_free_count_def card_gt_0_iff)
  qed
  have keys: "pool_keys (sv_pool w_leased) = key4 ` {ip \<in> set [w_ip1, w_ip2]. to4 ip \<noteq> []}"
    using machine_inv_reach [OF w_reach_leased w_boot_inv] boots_ok(2) [OF w_boots w_takeover]
    by (simp add: machine_inv_def same_pool_def)
  have d: "distinct (rn_pool_order w_renew)" by code_simp
  have sub: "pool_keys (sv_pool w_leased) \<subseteq> set (rn_pool_order w_renew)"
    unfolding keys by (auto simp: w_renew_def w_run_def)
  from discover_serves [OF w_leased_inv w_offered free d sub] show ?thesis by blast
qed

section \<open>RELEASE\<close>



text \<open>
  C13. A RELEASE packet is honoured only when the client has a live lease, the packet comes from the
  leased address, names it as the client's address, and did not arrive before the lease was granted;
  otherwise it has no effect at all.
\<close>

theorem release_only_by_holder:
  assumes "handle_release e peer msg mac arrived s = Some s'" and "s' \<noteq> s"
  shows "\<exists>l src port. lease_map (sv_leases s) (mac_string mac) = Some l \<and> rn_clk e 0 < l_expiry l \<and>
    peer = UdpPeer src port \<and> ip_equal src (l_ip l) \<and> ip_equal (dm_ciaddr msg) (l_ip l) \<and>
    l_granted l \<le> arrived"
  using assms by (auto simp: handle_release_def lease_active_def release_source_ok_def
      split: option.splits if_splits peer.splits)

definition w_rel :: dhcp_msg where
  "w_rel = (w_msg 7 w_mac1 [])\<lparr>dm_ciaddr := w_ip1\<rparr>"

definition w_released :: dhcp_server where
  "w_released = the (handle_release w_renew (UdpPeer w_ip1 68) w_rel w_mac1 (w_t0 + 99) w_leased)"

lemma w_released: "handle_release w_renew (UdpPeer w_ip1 68) w_rel w_mac1 (w_t0 + 99) w_leased = Some w_released"
proof -
  obtain t where t: "handle_release w_renew (UdpPeer w_ip1 68) w_rel w_mac1 (w_t0 + 99) w_leased = Some t"
    by (rule handle_release_ok [OF w_leased_inv])
  then show ?thesis by (simp add: w_released_def)
qed

theorem release_only_by_holder_witness:
  "\<exists>l. lease_map (sv_leases w_leased) (mac_string w_mac1) = Some l \<and> ip_equal w_ip1 (l_ip l) \<and>
    length (sv_trace w_released) = 5"
proof -
  have n: "length (sv_trace w_released) = 5" by code_simp
  have "length (sv_trace w_leased) = 3" by code_simp
  with n have "w_released \<noteq> w_leased" by auto
  from release_only_by_holder [OF w_released this] n show ?thesis by auto
qed

section \<open>Cleanup\<close>


definition w_late :: run where "w_late = w_run (w_t0 + default_lease_time + 1)"

definition w_swept :: dhcp_server where "w_swept = the (cleanup_tick w_late w_leased)"

lemma w_late_orders:
  "iter_order (rn_offer_order w_late) (offer_map (sv_offers w_leased))"
  "iter_order (rn_lease_order w_late) (lease_map (sv_leases w_leased))"
  "disk_works (rn_disk w_late)"
proof -
  have "only_client w_mac1 w_boot w_leased"
    by (rule handler_ok [OF w_boot_inv w_req1_v4, of w_reply "w_run w_t0" "reply_peer w_peer" w_t0])
      (use w_leased_step in \<open>simp add: w_req1_def w_msg_def\<close>)
  moreover have "offer_map (sv_offers w_boot) = Map.empty" "lease_map (sv_leases w_boot) = Map.empty"
    using new_server_inv [OF w_new] by (simp_all add: w_boot_def new_lease_store_def)
  ultimately have "offer_map (sv_offers w_leased) k = None" "lease_map (sv_leases w_leased) k = None"
    if "k \<noteq> mac_string w_mac1" for k
    using that by (simp_all add: only_client_def)
  then have "dom (offer_map (sv_offers w_leased)) \<subseteq> {mac_string w_mac1}"
    "dom (lease_map (sv_leases w_leased)) \<subseteq> {mac_string w_mac1}" by (metis domIff insertI1 subsetI)+
  then show "iter_order (rn_offer_order w_late) (offer_map (sv_offers w_leased))"
    "iter_order (rn_lease_order w_late) (lease_map (sv_leases w_leased))"
    by (auto simp: iter_order_def w_late_def w_run_def w_mac1_def w_mac2_def)
  show "disk_works (rn_disk w_late)" by (simp add: w_late_def w_run_def disk_works_def disk_ok_def)
qed

lemma w_swept: "cleanup_tick w_late w_leased = Some w_swept"
proof -
  obtain t where "cleanup_tick w_late w_leased = Some t"
    by (rule cleanup_tick_ok [OF w_leased_inv, of w_late]) (use w_late_orders in \<open>simp_all add: iter_order_def\<close>)
  then show ?thesis by (simp add: w_swept_def)
qed


text \<open>
  C15. When the lease file cannot be written, a cleanup tick drops no lease: the table is exactly what
  it was, so no address of a lease still in the file is handed out.
\<close>

theorem cleanup_failed_save:
  assumes inv: "server_inv s" and tick: "cleanup_tick e s = Some s'"
    and d: "distinct (rn_offer_order e)" "distinct (rn_lease_order e)"
    and some: "fst (lease_expire_old (rn_clk e 1) (rn_lease_order e) (sv_leases s)) \<noteq> []"
    and fail: "fst (lease_save (rn_loc e) (rn_disk e) (rn_save_order e)
      (snd (lease_expire_old (rn_clk e 1) (rn_lease_order e) (sv_leases s))) (sv_files s)) \<noteq> None"
  shows "sv_leases s' = sv_leases s \<and> sv_trace s' = sv_trace s @ [SaveLeases False] \<and> server_inv s'"
proof (rule cleanup_tick_ok [OF inv d])
  fix t
  assume t: "cleanup_tick e s = Some t" "server_inv t"
    "(\<exists>err fs'. sv_leases t = sv_leases s \<and>
        lease_save (rn_loc e) (rn_disk e) (rn_save_order e)
          (snd (lease_expire_old (rn_clk e 1) (rn_lease_order e) (sv_leases s))) (sv_files s) = (Some err, fs') \<and>
        sv_trace t = sv_trace s @ [SaveLeases False]) \<or>
     sv_leases t = snd (lease_expire_old (rn_clk e 1) (rn_lease_order e) (sv_leases s)) \<and>
     (fst (lease_expire_old (rn_clk e 1) (rn_lease_order e) (sv_leases s)) \<noteq> [] \<longrightarrow>
        lease_save (rn_loc e) (rn_disk e) (rn_save_order e) (sv_leases t) (sv_files s) = (None, sv_files t)) \<and>
     (\<exists>evs. sv_trace t = sv_trace s @ evs \<and>
        (\<forall>ev \<in> set evs. ev = SaveLeases True \<or>
           (\<exists>l \<in> set (fst (lease_expire_old (rn_clk e 1) (rn_lease_order e) (sv_leases s))).
              \<exists>b. ev = RouteDel (host_route (l_ip l) (sv_link s)) b)))"
  then show ?thesis using tick some fail by auto
qed

definition w_late_bad :: run where
  "w_late_bad = w_late\<lparr>rn_disk := disk_ok\<lparr>dk_write := WriteFailed None\<rparr>\<rparr>"

theorem cleanup_failed_save_witness:
  "\<exists>s'. cleanup_tick w_late_bad w_leased = Some s' \<and> sv_leases s' = sv_leases w_leased"
proof -
  have d: "distinct (rn_offer_order w_late_bad)" "distinct (rn_lease_order w_late_bad)"
    using w_late_orders by (simp_all add: w_late_bad_def iter_order_def)
  obtain t where t: "cleanup_tick w_late_bad w_leased = Some t"
    by (rule cleanup_tick_ok [OF w_leased_inv d])
  let ?l = "\<lparr>l_mac = w_mac1, l_ip = w_ip1, l_expiry = w_t0 + default_lease_time, l_granted = w_t0\<rparr>"
  have "rn_lease_order w_late_bad = rn_lease_order w_late" by (simp add: w_late_bad_def)
  then have "mac_string w_mac1 \<in> set (rn_lease_order w_late_bad)"
    using iter_orderD [OF w_late_orders(2) w_leased_row] by simp
  moreover have "l_expiry ?l < rn_clk w_late_bad 1" by (simp add: w_late_bad_def w_late_def w_run_def)
  ultimately have "?l \<in> set (fst (lease_expire_old (rn_clk w_late_bad 1) (rn_lease_order w_late_bad) (sv_leases w_leased)))"
    unfolding lease_table.sweep_removed using w_leased_row by blast
  then have "fst (lease_expire_old (rn_clk w_late_bad 1) (rn_lease_order w_late_bad) (sv_leases w_leased)) \<noteq> []"
    by (metis empty_iff empty_set)
  moreover have "fst (lease_save (rn_loc w_late_bad) (rn_disk w_late_bad) ks ls fs) \<noteq> None" for ks ls fs
    by (simp add: w_late_bad_def lease_save_def write_file_atomic_def os_write_file_def Let_def)
  ultimately show ?thesis using cleanup_failed_save [OF w_leased_inv t d] t by blast
qed

end
