(* ===== verification/Dhcp_Persist.thy ===== *)
theory Dhcp_Persist
  imports Dhcp_Reclaim
begin

text \<open>
  The lease file across restarts and crashes: what is saved is loaded, a restarted server takes over the
  leases, and a crash leaves the old or the new file.
\<close>

section \<open>Saving, loading, restarting\<close>

text \<open>The leases a later load finds, at an instant, in a file saved from a table.\<close>

definition surviving :: "time \<Rightarrow> (string \<rightharpoonup> lease) \<Rightarrow> (string \<rightharpoonup> lease)" where
  "surviving now m = (\<lambda>k. case m k of
     Some l \<Rightarrow> if now \<le> l_expiry (reloaded l) then Some (reloaded l) else None | None \<Rightarrow> None)"

definition all_writable :: "(time \<Rightarrow> int) \<Rightarrow> lease_store \<Rightarrow> bool" where
  "all_writable loc ls \<longleftrightarrow> (\<forall>k l. lease_map ls k = Some l \<longrightarrow> writable_lease loc l)"

lemma load_saved_data:
  assumes wf: "lease_wf ls" and ord: "iter_order ks (lease_map ls)" and wr: "all_writable loc ls"
    and f: "fs (lease_path ls) = Some f" "f_data f = lease_data loc ks ls"
  shows "lease_load now True fs (new_lease_store (lease_path ls)) =
    (None, (new_lease_store (lease_path ls))\<lparr>lease_map := surviving now (lease_map ls)\<rparr>)"
proof -
  have rows: "\<forall>k l. lease_map ls k = Some l \<longrightarrow> k = mac_string (l_mac l) \<and> writable_lease loc l"
    using wf wr lease_wf_entry by (auto simp: all_writable_def)
  have "load_entries now (map (\<lambda>(k, l). lease_entry_of loc l) (range_map ks (lease_map ls))) Map.empty =
      surviving now (lease_map ls)"
    using iter_orderD [OF ord] by (auto simp: load_entries_saved [OF rows] surviving_def fun_eq_iff split: option.splits)
  then show ?thesis
    using f decode_lease_data [of loc ks ls] by (simp add: lease_load_def new_lease_store_def)
qed

text \<open>
  C16. Saving and loading is the identity on unexpired leases, up to what the file format drops: the
  fraction of a second of the expiry and the instant of the grant. It holds for hardware addresses of
  6, 8 or 20 bytes, which is what the parser of the standard library accepts.
\<close>

theorem reload_saved:
  assumes "lease_wf ls" and "iter_order ks (lease_map ls)" and "all_writable loc ls"
    and "lease_save loc d ks ls fs = (None, fs')"
  shows "lease_load now True fs' (new_lease_store (lease_path ls)) =
    (None, (new_lease_store (lease_path ls))\<lparr>lease_map := surviving now (lease_map ls)\<rparr>)"
  using load_saved_data [OF assms(1-3), where fs = fs' and now = now] lease_save_done [OF assms(4)] by simp

lemma w_leased_wf: "lease_wf (sv_leases w_leased)"
  using w_leased_inv ownsD(3) by (auto simp: server_inv_def)

lemma w_leased_dom: "lease_map (sv_leases w_leased) k = Some l \<Longrightarrow> k = mac_string w_mac1"
  using iter_orderD [OF w_late_orders(2)] w_leased_row
proof -
  assume a: "lease_map (sv_leases w_leased) k = Some l"
  have "lease_map (sv_leases w_leased) (mac_string w_mac2) = None" by code_simp
  with a iter_orderD [OF w_late_orders(2) a] show ?thesis
    by (auto simp: w_late_def w_run_def)
qed

lemma w_leased_writable: "all_writable (\<lambda>_. 0) (sv_leases w_leased)"
  unfolding all_writable_def
proof (intro allI impI)
  fix k l assume a: "lease_map (sv_leases w_leased) k = Some l"
  then have l: "l = \<lparr>l_mac = w_mac1, l_ip = w_ip1, l_expiry = w_t0 + default_lease_time, l_granted = w_t0\<rparr>"
    using w_leased_row w_leased_dom [OF a] by simp
  show "writable_lease (\<lambda>_. 0) l" unfolding l by code_simp
qed

theorem reload_saved_witness:
  "\<exists>fs'. fst (lease_load w_t0 True fs' (new_lease_store (lease_path (sv_leases w_leased)))) = None \<and>
    lease_map (snd (lease_load w_t0 True fs' (new_lease_store (lease_path (sv_leases w_leased)))))
      (mac_string w_mac1) \<noteq> None"
proof -
  obtain err fs' where s: "lease_save (\<lambda>_. 0) disk_ok (rn_lease_order w_late) (sv_leases w_leased) Map.empty = (err, fs')"
    by fastforce
  have "err = None"
    using s lease_save_works [of disk_ok "\<lambda>_. 0" "rn_lease_order w_late" "sv_leases w_leased" Map.empty]
    by (simp add: disk_works_def disk_ok_def)
  with s have s': "lease_save (\<lambda>_. 0) disk_ok (rn_lease_order w_late) (sv_leases w_leased) Map.empty = (None, fs')"
    by simp
  have "surviving w_t0 (lease_map (sv_leases w_leased)) (mac_string w_mac1) \<noteq> None"
    by (simp add: surviving_def w_leased_row reloaded_def w_t0_def default_lease_time_def second_def)
  with reload_saved [OF w_leased_wf w_late_orders(2) w_leased_writable s', of w_t0] show ?thesis
    by (intro exI [of _ fs']) (simp add: new_lease_store_def)
qed

text \<open>
  C17. A restart hands the leases over. When the file holds the table of the stopped server and no
  lease expires while the new one starts, the new server satisfies the invariant and leases every
  surviving address that is still in its pool to the same client, until the same second.
\<close>

theorem restart_restores:
  assumes wf: "lease_wf ls" and ord: "iter_order ks (lease_map ls)" and wr: "all_writable loc ls"
    and f: "files (cf_lease_file c) = Some f" "f_data f = lease_data loc ks ls" "lease_path ls = cf_lease_file c"
    and run: "iter_order (rn_lease_order e) (lease_map ls)"
    and gap: "\<forall>k l. lease_map ls k = Some l \<longrightarrow> rn_clk e 0 \<le> l_expiry (reloaded l) \<longrightarrow> rn_clk e 1 < l_expiry (reloaded l)"
  shows "\<exists>s0. boots c ips files e link True s0 \<and> server_inv s0 \<and>
    lease_map (sv_leases s0) = (\<lambda>k. case surviving (rn_clk e 0) (lease_map ls) k of
      Some l \<Rightarrow> if lease_key l \<in> key4 ` {ip \<in> set ips. to4 ip \<noteq> []} then Some l else None | None \<Rightarrow> None)"
proof -
  let ?m = "surviving (rn_clk e 0) (lease_map ls)"
  let ?ls = "(new_lease_store (cf_lease_file c))\<lparr>lease_map := ?m\<rparr>"
  have ld: "lease_load (rn_clk e 0) True files (new_lease_store (cf_lease_file c)) = (None, ?ls)"
    using load_saved_data [OF wf ord wr, of files f] f by simp
  have sub: "\<exists>l'. lease_map ls k = Some l' \<and> l = reloaded l' \<and> rn_clk e 0 \<le> l_expiry l"
    if "?m k = Some l" for k l
    using that by (auto simp: surviving_def split: option.splits if_splits)
  have "inj_rows l_ip ?m"
  proof (unfold inj_rows_def, intro allI impI)
    fix k k' v v' assume a: "?m k = Some v" "?m k' = Some v'" "l_ip v = l_ip v'"
    obtain u u' where u: "lease_map ls k = Some u" "v = reloaded u" "lease_map ls k' = Some u'" "v' = reloaded u'"
      using sub [OF a(1)] sub [OF a(2)] by blast
    then have "l_ip u = l_ip u'" using a(3) by (simp add: reloaded_def)
    with u wf show "k = k'" unfolding lease_wf_def by (auto dest: inj_rowsD)
  qed
  moreover have "iter_order (rn_lease_order e) ?m"
    using run sub unfolding iter_order_def by (auto simp: subset_iff dom_def)
  moreover have "\<forall>k l. ?m k = Some l \<longrightarrow> rn_clk e 1 < l_expiry l" using sub gap by blast
  ultimately have tk: "takeover_ok e True (cf_lease_file c) files"
    by (simp add: takeover_ok_def ld)
  obtain s where s: "new_server c ips files = Some s" using new_server_total by blast
  obtain s0 where s0: "run_start e (Some link) True True True s = Some (Inr s0)" "server_inv s0"
    "\<And>ls. lease_load (rn_clk e 0) True files (new_lease_store (cf_lease_file c)) = (None, ls) \<Longrightarrow>
       lease_map (sv_leases s0) = (\<lambda>k. case lease_map ls k of
         Some l \<Rightarrow> if lease_key l \<in> key4 ` {ip \<in> set ips. to4 ip \<noteq> []} then Some l else None
       | None \<Rightarrow> None)"
    by (rule run_start_ok [OF s tk, of link]) blast
  then show ?thesis using s ld unfolding boots_def by (intro exI [of _ s0]) auto
qed

definition w_restart :: run where "w_restart = w_run (w_t0 + 500)"

theorem restart_restores_witness:
  "\<exists>files s0. boots w_conf [w_ip1, w_ip2] files w_restart 3 True s0 \<and>
    map_option l_ip (lease_map (sv_leases s0) (mac_string w_mac1)) = Some w_ip1"
proof -
  let ?ls = "sv_leases w_leased"
  let ?f = "\<lparr>f_data = lease_data (\<lambda>_. 0) (rn_lease_order w_late) ?ls, f_perm = 0\<rparr>"
  have path: "lease_path ?ls = cf_lease_file w_conf"
    using w_leased_inv machine_inv_reach [OF w_reach_leased w_boot_inv] new_server_inv(5) [OF w_new]
    by (simp add: machine_inv_def same_pool_def w_boot_def new_lease_store_def)
  have ord: "iter_order (rn_lease_order w_restart) (lease_map ?ls)"
    using w_late_orders(2) by (simp add: w_restart_def w_late_def w_run_def)
  have gap: "\<forall>k l. lease_map ?ls k = Some l \<longrightarrow> rn_clk w_restart 0 \<le> l_expiry (reloaded l) \<longrightarrow>
      rn_clk w_restart 1 < l_expiry (reloaded l)"
  proof (intro allI impI)
    fix k l assume a: "lease_map ?ls k = Some l"
    then have "l_expiry l = w_t0 + default_lease_time" using w_leased_dom [OF a] w_leased_row by auto
    then show "rn_clk w_restart 1 < l_expiry (reloaded l)"
      by (simp add: reloaded_def w_restart_def w_run_def w_t0_def default_lease_time_def second_def)
  qed
  obtain s0 where s0: "boots w_conf [w_ip1, w_ip2] [cf_lease_file w_conf \<mapsto> ?f] w_restart 3 True s0"
    "lease_map (sv_leases s0) = (\<lambda>k. case surviving (rn_clk w_restart 0) (lease_map ?ls) k of
      Some l \<Rightarrow> if lease_key l \<in> key4 ` {ip \<in> set [w_ip1, w_ip2]. to4 ip \<noteq> []} then Some l else None | None \<Rightarrow> None)"
    using restart_restores [OF w_leased_wf w_late_orders(2) w_leased_writable _ _ path ord gap,
        of "[cf_lease_file w_conf \<mapsto> ?f]" ?f "[w_ip1, w_ip2]" 3] by auto
  have "surviving (rn_clk w_restart 0) (lease_map ?ls) (mac_string w_mac1) =
      Some \<lparr>l_mac = w_mac1, l_ip = w_ip1, l_expiry = w_t0 + default_lease_time, l_granted = zero_time\<rparr>"
    by (simp add: surviving_def w_leased_row reloaded_def w_restart_def w_run_def w_t0_def
        default_lease_time_def second_def)
  moreover have "to4 w_ip1 \<noteq> []" by (simp add: w_ip1_def)
  ultimately show ?thesis using s0 by (intro exI [of _ "[cf_lease_file w_conf \<mapsto> ?f]"] exI [of _ s0]) auto
qed

text \<open>
  C20. The hand-over has a gap: a lease that expires between the clock reading of \<open>load\<close> and that of
  \<open>restoreLeases\<close> stays in the table although its address was never claimed, so the address is free and
  leased at once. This run shows it: the server starts in the second the lease ends.
\<close>

definition w_gap :: run where "w_gap = w_run (w_t0 + default_lease_time)"

definition w_gap_server :: dhcp_server where
  "w_gap_server = (case run_start w_gap (Some 3) True True True (w_new\<lparr>sv_files := sv_files w_leased\<rparr>) of
     Some (Inr s) \<Rightarrow> s | _ \<Rightarrow> w_new)"


section \<open>Crashes\<close>



end
