(* ===== verification/Dhcp_Routes.thy ===== *)
theory Dhcp_Routes
  imports Dhcp_Persist
begin

text \<open>
  The kernel's host routes seen through the server's calls: every lease has its route.
\<close>

section \<open>Host routes\<close>

text \<open>
  The kernel's table as netlink documents it: a successful replace installs a route, a successful
  delete removes it, a failed call changes nothing.
\<close>

fun kernel_routes :: "io_event list \<Rightarrow> route set \<Rightarrow> route set" where
  "kernel_routes [] R = R"
| "kernel_routes (RouteReplace r b # evs) R = kernel_routes evs (if b then insert r R else R)"
| "kernel_routes (RouteDel r b # evs) R = kernel_routes evs (if b then R - {r} else R)"
| "kernel_routes (SendPacket p a b # evs) R = kernel_routes evs R"
| "kernel_routes (SaveLeases b # evs) R = kernel_routes evs R"

definition routed :: "dhcp_server \<Rightarrow> ip \<Rightarrow> bool" where
  "routed s ip \<longleftrightarrow> host_route ip (sv_link s) \<in> kernel_routes (sv_trace s) {}"

definition leases_routed :: "dhcp_server \<Rightarrow> bool" where
  "leases_routed s \<longleftrightarrow> (\<forall>k l. lease_map (sv_leases s) k = Some l \<longrightarrow> routed s (l_ip l))"

lemma kernel_routes_append: "kernel_routes (a @ b) R = kernel_routes b (kernel_routes a R)"
  by (induction a R rule: kernel_routes.induct) simp_all

lemma kernel_routes_keep:
  "r \<in> R \<Longrightarrow> \<forall>b. RouteDel r b \<notin> set evs \<Longrightarrow> r \<in> kernel_routes evs R"
  by (induction evs R rule: kernel_routes.induct) auto

lemma host_route_eq: "length a = 4 \<Longrightarrow> length b = 4 \<Longrightarrow> host_route a i = host_route b i \<longleftrightarrow> a = b"
  by (simp add: host_route_def)

lemma routed_keep:
  assumes "routed s ip" and "sv_trace s' = sv_trace s @ evs" and "sv_link s' = sv_link s"
    and "\<forall>b. RouteDel (host_route ip (sv_link s)) b \<notin> set evs"
  shows "routed s' ip"
  using assms kernel_routes_keep by (auto simp: routed_def kernel_routes_append)

text \<open>A step that only deletes the routes of addresses that no lease is left on.\<close>

lemma leases_routed_step:
  assumes r: "leases_routed s" and tr: "sv_trace s' = sv_trace s @ evs" and link: "sv_link s' = sv_link s"
    and sub: "lease_map (sv_leases s') \<subseteq>\<^sub>m lease_map (sv_leases s)"
    and del: "\<And>k l b. lease_map (sv_leases s') k = Some l \<Longrightarrow> RouteDel (host_route (l_ip l) (sv_link s)) b \<notin> set evs"
  shows "leases_routed s'"
  unfolding leases_routed_def
proof (intro allI impI)
  fix k l assume a: "lease_map (sv_leases s') k = Some l"
  then have "routed s (l_ip l)" using r sub by (auto simp: leases_routed_def dest: map_leD)
  from routed_keep [OF this tr link] del [OF a] show "routed s' (l_ip l)" by blast
qed

lemma release_routed:
  assumes inv: "server_inv s" and r: "leases_routed s" and rel: "release_lease e mac s = Some (res, s')"
  shows "leases_routed s'"
proof (cases "lease_map (sv_leases s) (mac_string mac)")
  case None
  then show ?thesis using release_lease_none [of s mac e] rel r by simp
next
  case (Some l)
  show ?thesis
  proof (cases "fst (save_leases e (s\<lparr>sv_leases := snd (lease_take mac (sv_leases s))\<rparr>))")
    case False
    then obtain t where t: "release_lease e mac s = Some ((True, True), t)" "same_tables s t"
      using release_lease_fail [OF inv Some] by blast
    have "sv_trace t = sv_trace s @ [SaveLeases False]"
      using t(1) False by (auto simp: release_lease_def save_leases_def case_prod_beta split: option.splits prod.splits)
    then show ?thesis
      using leases_routed_step [OF r, of t "[SaveLeases False]"] t rel by (auto simp: same_tables_def)
  next
    case True
    obtain t where t: "release_lease e mac s = Some ((True, False), t)" "only_client mac s t"
      "lease_map (sv_leases t) (mac_string mac) = None"
      "sv_trace t = sv_trace s @ [SaveLeases True,
         RouteDel (host_route (l_ip l) (sv_link s)) (rn_io e (Suc (length (sv_trace s))))]"
      by (rule release_lease_done [OF inv Some True])
    have wf: "lease_wf (sv_leases s)" using inv ownsD(3) by (auto simp: server_inv_def)
    have sub: "lease_map (sv_leases t) k = Some l' \<Longrightarrow> k \<noteq> mac_string mac \<and> lease_map (sv_leases s) k = Some l'" for k l'
      using t(2,3) by (cases "k = mac_string mac") (auto simp: only_client_def)
    have "leases_routed t"
    proof (rule leases_routed_step [OF r t(4)])
      show "sv_link t = sv_link s" using t(2) by (simp add: only_client_def)
      show "lease_map (sv_leases t) \<subseteq>\<^sub>m lease_map (sv_leases s)" using sub by (auto simp: map_le_def)
    next
      fix k l' b assume "lease_map (sv_leases t) k = Some l'"
      then have k: "k \<noteq> mac_string mac" "lease_map (sv_leases s) k = Some l'" using sub by blast+
      then have "l_ip l' \<noteq> l_ip l" using wf Some unfolding lease_wf_def by (auto dest: inj_rowsD)
      then have "host_route (l_ip l') (sv_link s) \<noteq> host_route (l_ip l) (sv_link s)"
        using lease_wf_entry [OF wf k(2)] lease_wf_entry [OF wf Some] host_route_eq by blast
      then show "RouteDel (host_route (l_ip l') (sv_link s)) b \<notin> set [SaveLeases True,
         RouteDel (host_route (l_ip l) (sv_link s)) (rn_io e (Suc (length (sv_trace s))))]" by simp
    qed
    with t(1) rel show ?thesis by simp
  qed
qed


section \<open>Every operation\<close>

text \<open>A step that changes no lease and deletes no route.\<close>

definition no_dels :: "io_event list \<Rightarrow> bool" where
  "no_dels evs \<longleftrightarrow> (\<forall>r b. RouteDel r b \<notin> set evs)"

lemma leases_routed_frame:
  assumes "leases_routed s" and "sv_trace s' = sv_trace s @ evs" and "sv_link s' = sv_link s"
    and "sv_leases s' = sv_leases s" and "no_dels evs"
  shows "leases_routed s'"
  by (rule leases_routed_step [OF assms(1-3)]) (use assms(4,5) in \<open>auto simp: no_dels_def\<close>)

lemma discover_routed:
  assumes inv: "server_inv s" and r: "leases_routed s" and h: "handle_discover nr e peer msg mac s = Some s'"
  shows "leases_routed s'"
proof -
  have "\<exists>evs. sv_trace s' = sv_trace s @ evs \<and> no_dels evs \<and> sv_link s' = sv_link s \<and> sv_leases s' = sv_leases s"
    by (rule handle_discover_cases [OF inv, of mac e nr peer msg])
      (use h in \<open>auto simp: send_packet_def emit_def Let_def no_dels_def only_client_def split: option.splits\<close>)
  then show ?thesis using leases_routed_frame [OF r] by blast
qed

lemma commit_routed:
  assumes wf: "lease_wf (sv_leases s)" "lease_wf (sv_leases s')" and r: "leases_routed s" and ip: "routed s ip"
    and v4: "to4 ip \<noteq> []" and c: "committed e peer mac ip resp arrived s ok s'"
  shows "leases_routed s'"
  unfolding leases_routed_def
proof (intro allI impI)
  fix k l assume a: "lease_map (sv_leases s') k = Some l"
  from c obtain saved sent where tr: "sv_trace s' = sv_trace s @
      map (\<lambda>i. RouteDel (host_route i (sv_link s)) (rn_io e (length (sv_trace s)))) (rebound_ips mac ip (sv_leases s)) @
      [SaveLeases saved] @ (if saved then [SendPacket resp peer sent] else [])"
    and link: "sv_link s' = sv_link s"
    and rows: "lease_map (sv_leases s') =
       (lease_map (sv_leases s))(mac_string mac \<mapsto> granted_lease (sv_conf s) mac ip arrived)"
    by (auto simp: committed_def only_client_def)
  have l4: "length (l_ip l) = 4" using lease_wf_entry [OF wf(2) a] by simp
  have "routed s (l_ip l)"
  proof (cases "k = mac_string mac")
    case True
    with a rows have "l_ip l = to4 ip" by (auto simp: granted_lease_def)
    moreover from this l4 have "host_route (l_ip l) (sv_link s) = host_route ip (sv_link s)"
      by (simp add: host_route_def)
    ultimately show ?thesis using ip by (simp add: routed_def)
  qed (use a rows r in \<open>auto simp: leases_routed_def\<close>)
  moreover have "host_route (l_ip l) (sv_link s) \<noteq> host_route i (sv_link s)"
    if i: "i \<in> set (rebound_ips mac ip (sv_leases s))" for i
  proof -
    obtain l0 where l0: "lease_map (sv_leases s) (mac_string mac) = Some l0" "i = l_ip l0" "l_ip l0 \<noteq> to4 ip"
      using rebound_ipsD [OF i] by blast
    have "l_ip l \<noteq> l_ip l0"
    proof (cases "k = mac_string mac")
      case True
      with a rows l0(3) show ?thesis by (auto simp: granted_lease_def)
    next
      case False
      with a rows have "lease_map (sv_leases s) k = Some l" by simp
      with False l0(1) wf(1) show ?thesis unfolding lease_wf_def by (auto dest: inj_rowsD)
    qed
    then show ?thesis using l0 l4 lease_wf_entry [OF wf(1) l0(1)] host_route_eq by auto
  qed
  ultimately show "routed s' (l_ip l)" using routed_keep [OF _ tr link] by auto
qed

lemma request_routed:
  assumes inv: "server_inv s" and r: "leases_routed s" and v4: "msg_v4 msg"
    and h: "handle_request nr e peer msg mac arrived s = Some s'"
  shows "leases_routed s'"
proof (rule handle_request_cases [OF inv v4, of nr e peer mac arrived])
  assume "handle_request nr e peer msg mac arrived s = Some s"
  then show ?thesis using h r by simp
next
  fix t assume t: "handle_request nr e peer msg mac arrived s = Some (count_result ''failed'' t)" "refused nr peer msg s t"
  then obtain evs where "sv_trace t = sv_trace s @ evs" "no_dels evs" "sv_link t = sv_link s" "sv_leases t = sv_leases s"
    unfolding refused_def same_tables_def no_dels_def by blast
  then have "leases_routed t" using leases_routed_frame [OF r] by blast
  then show ?thesis using t h by (auto simp: count_result_def leases_routed_def routed_def)
next
  fix resp s1 ok t
  assume t: "handle_request nr e peer msg mac arrived s = Some (count_result (if ok then ''ok'' else ''failed'') t)"
    "server_inv t" "sv_leases s1 = sv_leases s" "sv_link s1 = sv_link s"
    "sv_trace s1 = sv_trace s @ [RouteReplace (host_route (requested_ip msg) (sv_link s)) True]"
    "committed e peer mac (requested_ip msg) resp arrived s1 ok t"
  show ?thesis
  proof (cases "to4 (requested_ip msg) = []")
    case True
    then show ?thesis using v4 h t(1) r
      by (auto simp: msg_v4_def handle_request_def split: if_splits)
  next
    case False
    have "leases_routed s1" using leases_routed_frame [OF r t(5,4,3)] by (simp add: no_dels_def)
    moreover have "routed s1 (requested_ip msg)"
      using t(4,5) by (simp add: routed_def kernel_routes_append)
    moreover have "lease_wf (sv_leases s1)" "lease_wf (sv_leases t)"
      using inv t(2,3) ownsD(3) by (auto simp: server_inv_def)
    ultimately have "leases_routed t" using commit_routed False t(6) by blast
    then show ?thesis using t h by (auto simp: count_result_def leases_routed_def routed_def)
  qed
qed

lemma cleanup_routed:
  assumes inv: "server_inv s" and r: "leases_routed s"
    and d: "distinct (rn_offer_order e)" "distinct (rn_lease_order e)" and h: "cleanup_tick e s = Some s'"
  shows "leases_routed s'"
proof (rule cleanup_tick_ok [OF inv d])
  let ?sw = "lease_expire_old (rn_clk e 1) (rn_lease_order e) (sv_leases s)"
  have wf: "lease_wf (sv_leases s)" using inv ownsD(3) by (auto simp: server_inv_def)
  fix t
  assume t: "cleanup_tick e s = Some t" and same: "same_pool s t" and
    cases: "(\<exists>err fs'. sv_leases t = sv_leases s \<and>
        lease_save (rn_loc e) (rn_disk e) (rn_save_order e) (snd ?sw) (sv_files s) = (Some err, fs') \<and>
        sv_trace t = sv_trace s @ [SaveLeases False]) \<or>
     sv_leases t = snd ?sw \<and>
     (fst ?sw \<noteq> [] \<longrightarrow>
        lease_save (rn_loc e) (rn_disk e) (rn_save_order e) (sv_leases t) (sv_files s) = (None, sv_files t)) \<and>
     (\<exists>evs. sv_trace t = sv_trace s @ evs \<and>
        (\<forall>ev \<in> set evs. ev = SaveLeases True \<or>
           (\<exists>l \<in> set (fst ?sw). \<exists>b. ev = RouteDel (host_route (l_ip l) (sv_link s)) b)))"
  have link: "sv_link t = sv_link s" using same by (simp add: same_pool_def)
  from cases have "leases_routed t"
  proof
    assume "\<exists>err fs'. sv_leases t = sv_leases s \<and>
        lease_save (rn_loc e) (rn_disk e) (rn_save_order e) (snd ?sw) (sv_files s) = (Some err, fs') \<and>
        sv_trace t = sv_trace s @ [SaveLeases False]"
    then have "sv_leases t = sv_leases s" and "sv_trace t = sv_trace s @ [SaveLeases False]" by blast+
    then show ?thesis using leases_routed_frame [OF r _ link] by (simp add: no_dels_def)
  next
    assume "sv_leases t = snd ?sw \<and>
     (fst ?sw \<noteq> [] \<longrightarrow>
        lease_save (rn_loc e) (rn_disk e) (rn_save_order e) (sv_leases t) (sv_files s) = (None, sv_files t)) \<and>
     (\<exists>evs. sv_trace t = sv_trace s @ evs \<and>
        (\<forall>ev \<in> set evs. ev = SaveLeases True \<or>
           (\<exists>l \<in> set (fst ?sw). \<exists>b. ev = RouteDel (host_route (l_ip l) (sv_link s)) b)))"
    then obtain evs where ls: "sv_leases t = snd ?sw" and tr: "sv_trace t = sv_trace s @ evs"
      and evs: "\<And>ev. ev \<in> set evs \<Longrightarrow> ev = SaveLeases True \<or>
           (\<exists>l \<in> set (fst ?sw). \<exists>b. ev = RouteDel (host_route (l_ip l) (sv_link s)) b)" by blast
    show ?thesis
    proof (rule leases_routed_step [OF r tr link])
      show "lease_map (sv_leases t) \<subseteq>\<^sub>m lease_map (sv_leases s)"
        unfolding ls by (rule lease_table.sweep_sub)
    next
      fix k l b assume a: "lease_map (sv_leases t) k = Some l"
      show "RouteDel (host_route (l_ip l) (sv_link s)) b \<notin> set evs"
      proof
        assume "RouteDel (host_route (l_ip l) (sv_link s)) b \<in> set evs"
        then obtain x where x: "x \<in> set (fst ?sw)" "host_route (l_ip l) (sv_link s) = host_route (l_ip x) (sv_link s)"
          using evs [of "RouteDel (host_route (l_ip l) (sv_link s)) b"] by auto
        obtain k' where k': "lease_map (sv_leases s) k' = Some x" using x(1) unfolding lease_table.sweep_removed by auto
        have k: "lease_map (sv_leases s) k = Some l" by (rule lease_table.sweep_keeps [OF a [unfolded ls]])
        have "length (l_ip l) = 4" "length (l_ip x) = 4"
          using lease_wf_entry [OF wf k] lease_wf_entry [OF wf k'] by simp_all
        then have "l_ip l = l_ip x" using x(2) host_route_eq by blast
        then have "lease_key l = lease_key x" by simp
        moreover have "lease_key l \<in> lease_keys (sv_leases t)" using a by (auto simp: lease_keys_def row_keys_iff)
        moreover have "lease_keys (sv_leases t) = lease_keys (sv_leases s) - lease_key ` set (fst ?sw)"
          unfolding lease_keys_def ls by (rule lease_table.sweep_keys [OF lease_inj_key [OF wf]])
        ultimately show False using x(1) by auto
      qed
    qed
  qed
  then show ?thesis using t h by simp
qed

lemma handler_routed:
  assumes "server_inv s" and "leases_routed s" and "msg_v4 msg" and h: "handler nr e peer msg arrived s = Some s'"
  shows "leases_routed s'"
proof -
  have "leases_routed t" if "handle_release e peer msg mac arrived s = Some t" for mac t
    using that assms(1,2) release_routed [OF assms(1,2)]
    by (auto simp: handle_release_def split: option.splits if_splits)
  then show ?thesis
    using h assms(2) discover_routed [OF assms(1,2)] request_routed [OF assms(1-3)]
    by (auto simp: handler_def Let_def split: if_splits)
qed

lemma step_routed:
  "dhcp_step nr c c' \<Longrightarrow> machine_inv s0 c \<Longrightarrow> leases_routed (fst c) \<Longrightarrow> leases_routed (fst c')"
proof (induction rule: dhcp_step.induct)
  case (receive msg s w peer arrived)
  then show ?case by simp
next
  case (handle e peer msg arrived s s' w1 w2)
  then show ?case using handler_routed by (auto simp: machine_inv_def)
next
  case (tick e s s' w)
  then show ?case using cleanup_routed by (auto simp: machine_inv_def)
next
  case (control e m s code s' w)
  then show ?case using release_routed
    by (fastforce simp: machine_inv_def handle_lease_control_def bind_eq_Some_conv split: option.splits)
qed



end
