(* ===== verification/Dhcp_Durable.thy ===== *)
theory Dhcp_Durable
  imports Dhcp_Persist Dhcp_Safety
begin

text \<open>
  The life of an acknowledged lease: from the ACK over any further packets, cleanup ticks and control
  requests, over a death of the process at any point, also in the middle of a save, to the table of the
  server that is started again. The lemmas follow the lease file: each step leaves it alone or replaces
  it by the table it ends with, and whatever else the file holds, a row that can be written is read back.
\<close>

section \<open>Reading one row back\<close>

text \<open>What a load makes of the entry of one lease: nothing, or the lease with the expiry read.\<close>

definition reread :: "time \<Rightarrow> (time \<Rightarrow> int) \<Rightarrow> lease \<Rightarrow> lease option" where
  "reread now loc l =
     (if parse_mac (mac_string (l_mac l)) = None then None
      else case parse_rfc3339 (format_rfc3339 (loc (l_expiry l)) (l_expiry l)) of
             None \<Rightarrow> None
           | Some x \<Rightarrow> if now > x then None
               else Some \<lparr>l_mac = l_mac l, l_ip = l_ip l, l_expiry = x, l_granted = zero_time\<rparr>)"

lemma parse_mac_string_same: "parse_mac (mac_string m) = Some m' \<Longrightarrow> m' = m"
proof -
  assume p: "parse_mac (mac_string m) = Some m'"
  then have n: "m \<noteq> []" and l: "14 \<le> length (mac_string m)" by (auto simp: parse_mac_def split: if_splits)
  note len = length_mac_string [OF n]
  have "2 \<le> length m" using len l by simp
  then have "mac_string m ! 2 = CHR '':''" by (rule mac_string_nth2)
  moreover have "(length (mac_string m) + 1) div 3 = length m" using len by simp
  ultimately show "m' = m" using p mac_groups_string [of m] by (auto simp: parse_mac_def Let_def split: if_splits)
qed

lemma load_entry_reread:
  assumes "length (l_ip l) = 4"
  shows "load_entries now (lease_entry_of loc l # es) m =
    load_entries now es (case reread now loc l of None \<Rightarrow> m | Some r \<Rightarrow> m(mac_string (l_mac l) \<mapsto> r))"
proof (cases "parse_mac (mac_string (l_mac l))")
  case (Some mac)
  have "to4 (parse_ip (ip_string (l_ip l))) = l_ip l" "l_ip l \<noteq> []"
    using assms parse_ip_string [of "l_ip l"] by auto
  moreover have "mac = l_mac l" by (rule parse_mac_string_same [OF Some])
  ultimately show ?thesis
    using Some by (simp add: lease_entry_of_def reread_def Let_def split: option.splits)
qed (simp add: lease_entry_of_def reread_def)

lemma load_entries_reread:
  assumes "\<forall>k l. s k = Some l \<longrightarrow> k = mac_string (l_mac l) \<and> length (l_ip l) = 4"
  shows "load_entries now (map (\<lambda>(k, l). lease_entry_of loc l) (range_map ks s)) m k =
    (case s k of
       None \<Rightarrow> m k
     | Some l \<Rightarrow> if k \<in> set ks \<and> reread now loc l \<noteq> None then reread now loc l else m k)"
proof (induction ks arbitrary: m)
  case (Cons k' ks)
  show ?case
  proof (cases "s k'")
    case (Some l)
    then have "k' = mac_string (l_mac l)" "length (l_ip l) = 4" using assms by auto
    with Some Cons.IH show ?thesis
      by (auto simp: load_entry_reread simp del: load_entries.simps split: option.splits)
  qed (use Cons.IH in \<open>auto split: option.splits\<close>)
qed (auto split: option.splits)

lemma lease_load_reread:
  assumes wf: "lease_wf ls" and ord: "iter_order ks (lease_map ls)"
    and f: "fs p = Some f" "f_data f = lease_data loc ks ls"
  shows "lease_load now True fs (new_lease_store p) =
    (None, (new_lease_store p)\<lparr>lease_map := (\<lambda>k. Option.bind (lease_map ls k) (reread now loc))\<rparr>)"
proof -
  have rows: "\<forall>k l. lease_map ls k = Some l \<longrightarrow> k = mac_string (l_mac l) \<and> length (l_ip l) = 4"
    using lease_wf_entry [OF wf] by blast
  have "load_entries now (map (\<lambda>(k, l). lease_entry_of loc l) (range_map ks (lease_map ls))) Map.empty k =
      Option.bind (lease_map ls k) (reread now loc)" for k
    using iter_orderD [OF ord, of k] by (auto simp: load_entries_reread [OF rows] split: option.splits)
  then show ?thesis
    using f decode_lease_data [of loc ks ls] by (simp add: lease_load_def new_lease_store_def fun_eq_iff)
qed

lemma reread_same: "reread now loc l = Some r \<Longrightarrow> l_mac r = l_mac l \<and> l_ip r = l_ip l"
  by (auto simp: reread_def split: option.splits if_splits)

lemma reread_writable:
  assumes "writable_lease loc l"
  shows "reread now loc l = (if now \<le> l_expiry (reloaded l) then Some (reloaded l) else None)"
proof -
  have "parse_mac (mac_string (l_mac l)) = Some (l_mac l)"
    using assms by (intro parse_mac_string) (simp add: writable_lease_def)
  moreover have "parse_rfc3339 (format_rfc3339 (loc (l_expiry l)) (l_expiry l)) =
      Some (l_expiry l div second * second)"
    using assms by (intro parse_format_rfc3339) (simp_all add: writable_lease_def)
  ultimately show ?thesis by (simp add: reread_def reloaded_def)
qed

section \<open>What a step does to the lease file\<close>

text \<open>The file is as before, or it holds the table the operation ends with, as written by its save.\<close>

definition file_kept_or_saved :: "run \<Rightarrow> dhcp_server \<Rightarrow> dhcp_server \<Rightarrow> bool" where
  "file_kept_or_saved e s s' \<longleftrightarrow>
     sv_files s' (lease_path (sv_leases s)) = sv_files s (lease_path (sv_leases s)) \<or>
     sv_files s' (lease_path (sv_leases s)) =
       Some \<lparr>f_data = lease_data (rn_loc e) (rn_save_order e) (sv_leases s'), f_perm = lease_file_perm\<rparr>"

lemma kept_same [simp]: "sv_files s' = sv_files s \<Longrightarrow> file_kept_or_saved e s s'"
  by (simp add: file_kept_or_saved_def)

lemma save_kept_or_done:
  assumes "lease_save loc d ks ls fs = (err, fs')"
  shows "fs' (lease_path ls) = (if err = None
    then Some \<lparr>f_data = lease_data loc ks ls, f_perm = lease_file_perm\<rparr> else fs (lease_path ls))"
proof (cases err)
  case None
  then show ?thesis using assms lease_save_done by simp
next
  case (Some x)
  then show ?thesis using assms wfa.put_err by (auto simp: lease_save_def)
qed

lemma saved_kept:
  assumes "lease_save (rn_loc e) (rn_disk e) (rn_save_order e) (sv_leases s') (sv_files s) = (err, sv_files s')"
    and "lease_path (sv_leases s') = lease_path (sv_leases s)"
  shows "file_kept_or_saved e s s'"
  using save_kept_or_done [OF assms(1)] assms(2) by (simp add: file_kept_or_saved_def)

lemma committed_kept:
  assumes c: "committed e peer mac ip resp arrived s ok s'"
  shows "file_kept_or_saved e s s'"
    and "ok \<Longrightarrow> sv_files s' (lease_path (sv_leases s)) =
      Some \<lparr>f_data = lease_data (rn_loc e) (rn_save_order e) (sv_leases s'), f_perm = lease_file_perm\<rparr>"
proof -
  obtain err where err: "lease_save (rn_loc e) (rn_disk e) (rn_save_order e) (sv_leases s') (sv_files s) = (err, sv_files s')"
    "ok \<Longrightarrow> err = None"
    using c by (auto simp: committed_def split: prod.splits)
  have path: "lease_path (sv_leases s') = lease_path (sv_leases s)"
    using committed_only [OF c] by (simp add: only_client_def)
  show "file_kept_or_saved e s s'" by (rule saved_kept [OF err(1) path])
  show "ok \<Longrightarrow> sv_files s' (lease_path (sv_leases s)) =
      Some \<lparr>f_data = lease_data (rn_loc e) (rn_save_order e) (sv_leases s'), f_perm = lease_file_perm\<rparr>"
    using save_kept_or_done [OF err(1)] err(2) path by simp
qed

lemma request_kept:
  assumes inv: "server_inv s" and v4: "msg_v4 msg" and h: "handle_request nr e peer msg mac arrived s = Some s'"
  shows "file_kept_or_saved e s s'"
proof (rule handle_request_cases [OF inv v4, of nr e peer mac arrived])
  assume "handle_request nr e peer msg mac arrived s = Some s"
  then show ?thesis using h by simp
next
  fix t assume "handle_request nr e peer msg mac arrived s = Some (count_result ''failed'' t)" "refused nr peer msg s t"
  then show ?thesis using h by (auto simp: refused_def count_result_def)
next
  fix resp s1 ok t
  assume t: "handle_request nr e peer msg mac arrived s = Some (count_result (if ok then ''ok'' else ''failed'') t)"
    "sv_leases s1 = sv_leases s" "sv_files s1 = sv_files s"
    "committed e peer mac (requested_ip msg) resp arrived s1 ok t"
  show ?thesis using committed_kept(1) [OF t(4)] t(1-3) h by (auto simp: file_kept_or_saved_def count_result_def)
qed

lemma ack_on_file:
  assumes inv: "server_inv s" and v4: "msg_v4 msg" and h: "handle_request nr e peer msg mac arrived s = Some s'"
    and ok: "sv_total s' ''ok'' \<noteq> sv_total s ''ok''"
  shows "lease_map (sv_leases s') =
      (lease_map (sv_leases s))(mac_string mac \<mapsto> granted_lease (sv_conf s) mac (requested_ip msg) arrived)"
    and "server_inv s'" and "only_client mac s s'"
    and "sv_files s' (lease_path (sv_leases s)) =
      Some \<lparr>f_data = lease_data (rn_loc e) (rn_save_order e) (sv_leases s'), f_perm = lease_file_perm\<rparr>"
proof -
  obtain t where t: "handle_request nr e peer msg mac arrived s = Some t" "server_inv t" "only_client mac s t"
    by (rule handle_request_ok [OF inv v4])
  then show "server_inv s'" "only_client mac s s'" using h by simp_all
  have "lease_map (sv_leases s') =
      (lease_map (sv_leases s))(mac_string mac \<mapsto> granted_lease (sv_conf s) mac (requested_ip msg) arrived) \<and>
    sv_files s' (lease_path (sv_leases s)) =
      Some \<lparr>f_data = lease_data (rn_loc e) (rn_save_order e) (sv_leases s'), f_perm = lease_file_perm\<rparr>"
  proof (rule handle_request_cases [OF inv v4, of nr e peer mac arrived])
    assume "handle_request nr e peer msg mac arrived s = Some s"
    then show ?thesis using h ok by simp
  next
    fix t assume "handle_request nr e peer msg mac arrived s = Some (count_result ''failed'' t)" "refused nr peer msg s t"
    then show ?thesis using h ok by (auto simp: refused_def count_result_def)
  next
    fix resp s1 ok1 t
    assume t: "handle_request nr e peer msg mac arrived s = Some (count_result (if ok1 then ''ok'' else ''failed'') t)"
      "only_client mac s s1" "sv_leases s1 = sv_leases s" "sv_total s1 = sv_total s"
      "committed e peer mac (requested_ip msg) resp arrived s1 ok1 t"
    have s': "s' = count_result (if ok1 then ''ok'' else ''failed'') t" using t(1) h by simp
    have "sv_total t = sv_total s" "sv_conf s1 = sv_conf s" using t(2,4,5) by (simp_all add: committed_def only_client_def)
    then have ok1 using ok s' by (auto simp: count_result_def split: if_splits)
    then show ?thesis
      using committed_kept(2) [OF t(5)] t(3,5) s' \<open>sv_conf s1 = sv_conf s\<close>
      by (auto simp: committed_def count_result_def)
  qed
  then show "lease_map (sv_leases s') =
      (lease_map (sv_leases s))(mac_string mac \<mapsto> granted_lease (sv_conf s) mac (requested_ip msg) arrived)"
    "sv_files s' (lease_path (sv_leases s)) =
      Some \<lparr>f_data = lease_data (rn_loc e) (rn_save_order e) (sv_leases s'), f_perm = lease_file_perm\<rparr>" by blast+
qed

lemma release_kept:
  assumes inv: "server_inv s" and rel: "release_lease e mac s = Some (res, s')"
  shows "file_kept_or_saved e s s'"
proof (cases "lease_map (sv_leases s) (mac_string mac)")
  case None
  then show ?thesis using release_lease_none [of s mac e] rel by simp
next
  case (Some l)
  let ?t = "s\<lparr>sv_leases := snd (lease_take mac (sv_leases s))\<rparr>"
  have path: "lease_path (snd (lease_take mac (sv_leases s))) = lease_path (sv_leases s)"
    by (simp add: lease_take_def Some)
  show ?thesis
  proof (cases "fst (save_leases e ?t)")
    case False
    obtain err fs' where sv: "lease_save (rn_loc e) (rn_disk e) (rn_save_order e) (sv_leases ?t) (sv_files s) = (err, fs')"
      by fastforce
    have "err \<noteq> None" using False sv by (simp add: save_leases_def)
    moreover have "sv_files s' = fs'"
      using rel False sv Some by (auto simp: release_lease_def save_leases_def lease_take_def split: if_splits)
    ultimately show ?thesis using save_kept_or_done [OF sv] path by (auto simp: file_kept_or_saved_def)
  next
    case True
    obtain t where t: "release_lease e mac s = Some ((True, False), t)" "only_client mac s t"
      "sv_files t = snd (lease_save (rn_loc e) (rn_disk e) (rn_save_order e) (sv_leases t) (sv_files s))"
      by (rule release_lease_done [OF inv Some True])
    then have "file_kept_or_saved e s t"
      by (intro saved_kept) (auto simp: only_client_def prod_eq_iff)
    with t(1) rel show ?thesis by simp
  qed
qed

lemma handler_kept:
  assumes inv: "server_inv s" and v4: "msg_v4 msg" and h: "handler nr e peer msg arrived s = Some s'"
  shows "file_kept_or_saved e s s'"
proof -
  have d: "file_kept_or_saved e s t" if "handle_discover nr e peer msg mac s = Some t" for mac t
    using handle_discover_ok [OF inv, of nr e peer msg mac] that by (metis kept_same option.inject)
  have r: "file_kept_or_saved e s t" if "handle_release e peer msg mac arrived s = Some t" for mac t
    using that release_kept [OF inv] by (auto simp: handle_release_def split: option.splits if_splits)
  show ?thesis
    using h d r request_kept [OF inv v4] by (auto simp: handler_def Let_def split: if_splits)
qed

text \<open>Only an acknowledged REQUEST counts as \<open>ok\<close>.\<close>

lemma counted_request:
  assumes inv: "server_inv s" and h: "handler nr e peer msg arrived s = Some s'"
    and ok: "sv_total s' \<noteq> sv_total s"
  shows "handle_request nr e peer msg (dm_chaddr msg) arrived s = Some s'"
proof -
  let ?m = "dm_chaddr msg"
  obtain t where t: "handle_discover nr e peer msg ?m s = Some t" "sv_total t = sv_total s"
    by (rule handle_discover_ok [OF inv, of nr e peer msg ?m])
  have "sv_total u = sv_total s" if "handle_release e peer msg ?m arrived s = Some u" for u
  proof -
    obtain r v where "release_lease e ?m s = Some (r, v)" "sv_total v = sv_total s"
      by (rule release_lease_ok [OF inv])
    with that show ?thesis by (auto simp: handle_release_def split: option.splits if_splits)
  qed
  then show ?thesis using h ok t by (auto simp: handler_def Let_def split: if_splits)
qed

lemma release_ip_files: "release_ip ip s = Some s' \<Longrightarrow> sv_files s' = sv_files s \<and> sv_leases s' = sv_leases s"
  by (auto simp: release_ip_def bind_eq_Some_conv)

lemma release_all_files:
  "release_all ips s = Some s' \<Longrightarrow> sv_files s' = sv_files s \<and> sv_leases s' = sv_leases s"
  by (induction ips arbitrary: s) (auto simp: bind_eq_Some_conv dest!: release_ip_files)

lemma free_all_files:
  "free_all e ls s = Some s' \<Longrightarrow> sv_files s' = sv_files s \<and> sv_leases s' = sv_leases s"
  by (induction ls arbitrary: s)
    (auto simp: bind_eq_Some_conv free_ip_def del_route_def emit_def Let_def dest!: release_ip_files)

lemma lease_expire_old_path: "lease_path (snd (lease_expire_old now ks ls)) = lease_path ls"
  by (simp add: lease_expire_old_def split: prod.splits)

lemma tick_kept:
  assumes h: "cleanup_tick e s = Some s'"
  shows "file_kept_or_saved e s s'"
proof -
  obtain ips offs where o: "offers_expire_old (rn_clk e 0) (rn_offer_order e) (sv_offers s) = (ips, offs)"
    by fastforce
  obtain ex ls where x: "lease_expire_old (rn_clk e 1) (rn_lease_order e) (sv_leases s) = (ex, ls)" by fastforce
  have path: "lease_path ls = lease_path (sv_leases s)"
    using lease_expire_old_path [of "rn_clk e 1" "rn_lease_order e" "sv_leases s"] x by simp
  obtain s1 where s1: "release_all ips (s\<lparr>sv_offers := offs\<rparr>) = Some s1"
    using h o by (auto simp: cleanup_tick_def bind_eq_Some_conv)
  then have f1: "sv_files s1 = sv_files s" "sv_leases s1 = sv_leases s" using release_all_files by fastforce+
  obtain saved s3 where s3: "(if ex \<noteq> [] then save_leases e (s1\<lparr>sv_leases := ls\<rparr>) else (True, s1\<lparr>sv_leases := ls\<rparr>)) =
      (saved, s3)" by fastforce
  have tick: "cleanup_tick e s = (if \<not> saved then Some (s3\<lparr>sv_leases := lease_restore_all ex (sv_leases s3)\<rparr>)
      else free_all e ex s3)"
    unfolding cleanup_tick_def using o x s1 s3 f1 by (simp del: One_nat_def)
  obtain err fs' where sv: "lease_save (rn_loc e) (rn_disk e) (rn_save_order e) ls (sv_files s) = (err, fs')"
    by fastforce
  have c3: "(sv_files s3 = sv_files s \<and> saved) \<or> (sv_files s3 = fs' \<and> (saved \<longleftrightarrow> err = None))" "sv_leases s3 = ls"
    using s3 sv f1 by (auto simp: save_leases_def split: if_splits)
  show ?thesis
  proof (cases saved)
    case False
    then have "sv_files s' = fs'" "err \<noteq> None" using h tick c3(1) by auto
    then show ?thesis using save_kept_or_done [OF sv] path by (auto simp: file_kept_or_saved_def)
  next
    case True
    then have "sv_files s' = sv_files s3" "sv_leases s' = ls" using h tick free_all_files c3(2) by fastforce+
    then show ?thesis using c3 True save_kept_or_done [OF sv] path by (auto simp: file_kept_or_saved_def)
  qed
qed

section \<open>A lease that stays in the table stays in the file\<close>

text \<open>
  What a save of the operation from \<open>s\<close> to \<open>s'\<close> needs of its run: the range visits every row once, and
  instants are written with the offsets of the process.
\<close>

definition save_covers :: "(time \<Rightarrow> int) \<Rightarrow> run \<Rightarrow> dhcp_server \<Rightarrow> dhcp_server \<Rightarrow> bool" where
  "save_covers loc e s s' \<longleftrightarrow> rn_loc e = loc \<and> distinct (rn_save_order e) \<and>
     dom (lease_map (sv_leases s)) \<union> dom (lease_map (sv_leases s')) \<subseteq> set (rn_save_order e)"

inductive saving_step :: "reply_builder \<Rightarrow> (time \<Rightarrow> int) \<Rightarrow> machine \<Rightarrow> machine \<Rightarrow> bool"
  for nr :: reply_builder and loc :: "time \<Rightarrow> int" where
  receive: "msg_v4 msg \<Longrightarrow> saving_step nr loc (s, w) (s, w @ [(msg, peer, arrived)])"
| handle: "handler nr e (reply_peer peer) msg arrived s = Some s' \<Longrightarrow> save_covers loc e s s' \<Longrightarrow>
    saving_step nr loc (s, w1 @ (msg, peer, arrived) # w2) (s', w1 @ w2)"
| tick: "distinct (rn_offer_order e) \<Longrightarrow> distinct (rn_lease_order e) \<Longrightarrow>
    cleanup_tick e s = Some s' \<Longrightarrow> save_covers loc e s s' \<Longrightarrow> saving_step nr loc (s, w) (s', w)"
| control: "handle_lease_control e m s = Some (code, s') \<Longrightarrow> save_covers loc e s s' \<Longrightarrow>
    saving_step nr loc (s, w) (s', w)"

text \<open>Any number of steps throughout which the client's row is the given lease.\<close>

inductive holding :: "reply_builder \<Rightarrow> (time \<Rightarrow> int) \<Rightarrow> string \<Rightarrow> lease \<Rightarrow> machine \<Rightarrow> machine \<Rightarrow> bool"
  for nr :: reply_builder and loc :: "time \<Rightarrow> int" and k :: string and l :: lease and c0 :: machine where
  start: "holding nr loc k l c0 c0"
| step: "holding nr loc k l c0 c \<Longrightarrow> saving_step nr loc c c' \<Longrightarrow>
    lease_map (sv_leases (fst c')) k = Some l \<Longrightarrow> holding nr loc k l c0 c'"

lemma saving_step_dhcp: "saving_step nr loc c c' \<Longrightarrow> dhcp_step nr c c'"
  by (induction rule: saving_step.induct) (blast intro: dhcp_step.intros)+

lemma saving_step_file:
  "saving_step nr loc c c' \<Longrightarrow> machine_inv s0 c \<Longrightarrow>
   fst c' = fst c \<or> (\<exists>e. save_covers loc e (fst c) (fst c') \<and> file_kept_or_saved e (fst c) (fst c'))"
proof (induction rule: saving_step.induct)
  case (handle e peer msg arrived s s' w1 w2)
  then show ?case using handler_kept [OF _ _ handle(1)] by (auto simp: machine_inv_def)
next
  case (tick e s s' w)
  then show ?case using tick_kept by auto
next
  case (control e m s code s' w)
  then have "file_kept_or_saved e s s'"
    using release_kept by (fastforce simp: machine_inv_def handle_lease_control_def bind_eq_Some_conv split: option.splits)
  then show ?case using control(2) by auto
qed simp

text \<open>The file holds a well-formed table with the given row.\<close>

definition on_file :: "(time \<Rightarrow> int) \<Rightarrow> string \<Rightarrow> lease \<Rightarrow> path \<Rightarrow> fs \<Rightarrow> bool" where
  "on_file loc k l p fs \<longleftrightarrow> (\<exists>ks ls f. lease_wf ls \<and> iter_order ks (lease_map ls) \<and> lease_map ls k = Some l \<and>
     fs p = Some f \<and> f_data f = lease_data loc ks ls)"

lemma on_file_path: "on_file loc k l p fs \<Longrightarrow> fs' p = fs p \<Longrightarrow> on_file loc k l p fs'"
  by (simp add: on_file_def)

lemma on_file_saved:
  assumes "server_inv s" and "distinct ks" and "dom (lease_map (sv_leases s)) \<subseteq> set ks"
    and "lease_map (sv_leases s) k = Some l" and "fs p = Some f" and "f_data f = lease_data loc ks (sv_leases s)"
  shows "on_file loc k l p fs"
  using assms ownsD(3) unfolding on_file_def server_inv_def iter_order_def by blast

lemma saving_step_on_file:
  assumes st: "saving_step nr loc c c'" and inv: "machine_inv s0 c"
    and f: "on_file loc k l (lease_path (sv_leases (fst c))) (sv_files (fst c))"
    and row: "lease_map (sv_leases (fst c')) k = Some l"
  shows "on_file loc k l (lease_path (sv_leases (fst c))) (sv_files (fst c'))"
proof -
  have inv': "server_inv (fst c')"
    using machine_inv_step [OF saving_step_dhcp [OF st] inv] by (simp add: machine_inv_def)
  from saving_step_file [OF st inv] show ?thesis
  proof
    assume "fst c' = fst c" then show ?thesis using f by simp
  next
    assume "\<exists>e. save_covers loc e (fst c) (fst c') \<and> file_kept_or_saved e (fst c) (fst c')"
    then obtain e where e: "save_covers loc e (fst c) (fst c')" "file_kept_or_saved e (fst c) (fst c')" by blast
    from e(2) show ?thesis unfolding file_kept_or_saved_def
    proof
      assume "sv_files (fst c') (lease_path (sv_leases (fst c))) = sv_files (fst c) (lease_path (sv_leases (fst c)))"
      then show ?thesis by (rule on_file_path [OF f])
    next
      assume "sv_files (fst c') (lease_path (sv_leases (fst c))) =
        Some \<lparr>f_data = lease_data (rn_loc e) (rn_save_order e) (sv_leases (fst c')), f_perm = lease_file_perm\<rparr>"
      then show ?thesis
        using e(1) row by (intro on_file_saved [OF inv', of "rn_save_order e"]) (auto simp: save_covers_def)
    qed
  qed
qed

lemma holding_on_file:
  assumes "holding nr loc k l c0 c" and "machine_inv s0 c0" and "lease_path (sv_leases (fst c0)) = p"
    and "on_file loc k l p (sv_files (fst c0))"
  shows "machine_inv s0 c \<and> lease_path (sv_leases (fst c)) = p \<and> on_file loc k l p (sv_files (fst c))"
  using assms
proof (induction rule: holding.induct)
  case (step c c')
  then have c: "machine_inv s0 c" "lease_path (sv_leases (fst c)) = p" "on_file loc k l p (sv_files (fst c))" by blast+
  have inv': "machine_inv s0 c'" by (rule machine_inv_step [OF saving_step_dhcp [OF step.hyps(2)] c(1)])
  have "lease_path (sv_leases (fst c')) = p"
    using c(1,2) inv' by (simp add: machine_inv_def same_pool_def)
  moreover have "on_file loc k l p (sv_files (fst c'))"
    using saving_step_on_file [OF step.hyps(2) c(1) _ step.hyps(3)] c(2,3) by simp
  ultimately show ?case using inv' by blast
qed blast

section \<open>Death and restart\<close>

text \<open>
  The files a dead process leaves: it dies between two operations, or in the middle of the save of an
  operation that would have kept the client's row.
\<close>

inductive crash_leaves ::
    "reply_builder \<Rightarrow> (time \<Rightarrow> int) \<Rightarrow> string \<Rightarrow> lease \<Rightarrow> machine \<Rightarrow> fs \<Rightarrow> bool"
  for nr :: reply_builder and loc :: "time \<Rightarrow> int" and k :: string and l :: lease where
  between: "crash_leaves nr loc k l (s, w) (sv_files s)"
| within: "saving_step nr loc (s, w) (s', w') \<Longrightarrow> lease_map (sv_leases s') k = Some l \<Longrightarrow>
    sv_files s' (lease_path (sv_leases s)) = Some f \<Longrightarrow>
    atomic_reach (lease_path (sv_leases s)) (f_data f) (f_perm f) (sv_files s) (pc, fs) \<Longrightarrow>
    crash_leaves nr loc k l (s, w) fs"

lemma crash_on_file:
  assumes "crash_leaves nr loc k l c fs" and "machine_inv s0 c"
    and "on_file loc k l (lease_path (sv_leases (fst c))) (sv_files (fst c))"
  shows "on_file loc k l (lease_path (sv_leases (fst c))) fs"
  using assms
proof (induction rule: crash_leaves.induct)
  case (within s w s' w' f pc fs)
  have new: "on_file loc k l (lease_path (sv_leases s)) (sv_files s')"
    using saving_step_on_file [OF within(1,5)] within(2,6) by simp
  have "fs (lease_path (sv_leases s)) = sv_files s (lease_path (sv_leases s)) \<or>
      fs (lease_path (sv_leases s)) = sv_files s' (lease_path (sv_leases s))"
    using atomic_reach_inv [OF within(4)] within(3) by (auto split: if_splits)
  then show ?case using on_file_path new within(6) by auto
qed simp

text \<open>
  The next start: its range over the loaded table visits every row once, and no loaded lease expires
  between its two clock readings (the gap of \<open>restore_gap\<close>).
\<close>

definition prompt_start :: "run \<Rightarrow> path \<Rightarrow> fs \<Rightarrow> bool" where
  "prompt_start e p fs \<longleftrightarrow>
     (let m = lease_map (snd (lease_load (rn_clk e 0) True fs (new_lease_store p))) in
      iter_order (rn_lease_order e) m \<and> (\<forall>k l. m k = Some l \<longrightarrow> rn_clk e 1 < l_expiry l))"

lemma boots_path:
  assumes "boots c ips files e link readable s0" and "takeover_ok e readable (cf_lease_file c) files"
  shows "lease_path (sv_leases s0) = cf_lease_file c"
proof -
  obtain s where s: "new_server c ips files = Some s" "run_start e (Some link) readable True True s = Some (Inr s0)"
    using assms(1) by (auto simp: boots_def)
  obtain t where "run_start e (Some link) readable True True s = Some (Inr t)"
    "lease_path (sv_leases t) = cf_lease_file c"
    by (rule run_start_ok [OF s(1) assms(2), of link])
  with s(2) show ?thesis by simp
qed

lemma restart_on_file:
  assumes f: "on_file loc k l (cf_lease_file c) fs" and wr: "writable_lease loc l"
    and live: "rn_clk e 0 \<le> l_expiry (reloaded l)" and start: "prompt_start e (cf_lease_file c) fs"
    and pool: "lease_key l \<in> key4 ` {ip \<in> set ips. to4 ip \<noteq> []}"
  shows "\<exists>s0. boots c ips fs e link True s0 \<and> server_inv s0 \<and> lease_map (sv_leases s0) k = Some (reloaded l)"
proof -
  let ?p = "cf_lease_file c"
  obtain ks ls f' where ls: "lease_wf ls" "iter_order ks (lease_map ls)" "lease_map ls k = Some l"
    "fs ?p = Some f'" "f_data f' = lease_data loc ks ls"
    using f by (auto simp: on_file_def)
  define m where "m = (\<lambda>k. Option.bind (lease_map ls k) (reread (rn_clk e 0) loc))"
  have ld: "lease_load (rn_clk e 0) True fs (new_lease_store ?p) = (None, (new_lease_store ?p)\<lparr>lease_map := m\<rparr>)"
    using lease_load_reread [where fs = fs and p = ?p, OF ls(1,2,4,5)] by (simp add: m_def)
  have row: "m k = Some (reloaded l)" using ls(3) reread_writable [OF wr] live by (simp add: m_def)
  have "inj_rows l_ip m"
    using ls(1) unfolding lease_wf_def inj_rows_def m_def bind_eq_Some_conv by (metis reread_same)
  moreover have "iter_order (rn_lease_order e) m" "\<forall>k l. m k = Some l \<longrightarrow> rn_clk e 1 < l_expiry l"
    using start ld by (simp_all add: prompt_start_def)
  ultimately have tk: "takeover_ok e True ?p fs" by (simp add: takeover_ok_def ld)
  obtain s where s: "new_server c ips fs = Some s" using new_server_total by blast
  obtain s0 where s0: "run_start e (Some link) True True True s = Some (Inr s0)" "server_inv s0"
    "\<And>ls. lease_load (rn_clk e 0) True fs (new_lease_store ?p) = (None, ls) \<Longrightarrow>
       lease_map (sv_leases s0) = (\<lambda>k. case lease_map ls k of
         Some l \<Rightarrow> if lease_key l \<in> key4 ` {ip \<in> set ips. to4 ip \<noteq> []} then Some l else None
       | None \<Rightarrow> None)"
    by (rule run_start_ok [OF s tk, of link]) blast
  have "lease_map (sv_leases s0) k = Some (reloaded l)"
    using s0(3) [OF ld] row pool by (simp add: reloaded_def)
  then show ?thesis using s s0(1,2) unfolding boots_def by blast
qed

text \<open>
  C9. An acknowledged lease outlives the process. After a REQUEST counted as \<open>ok\<close>, however many packets,
  cleanup ticks and control requests follow, whichever of their saves fail, and wherever the process
  dies, inside a save too, as long as the client's lease stayed in the table the next server on the
  files left behind starts, satisfies the invariant and leases the acknowledged address to the client
  until the same second. The client's row must be writable (a hardware address of 6, 8 or 20 bytes and
  an expiry within the years of the format); what else the file holds does not matter.
\<close>

theorem acked_lease_survives:
  assumes boot: "boots c ips files0 e0 link0 readable s0" "takeover_ok e0 readable (cf_lease_file c) files0"
    and reach: "dhcp_reach nr s0 (s, wa @ (msg, peer, arrived) # wb)"
    and ack: "handler nr e (reply_peer peer) msg arrived s = Some s1" "sv_total s1 ''ok'' \<noteq> sv_total s ''ok''"
    and l: "l = granted_lease (sv_conf s) (dm_chaddr msg) (requested_ip msg) arrived" "writable_lease loc l"
    and cov: "save_covers loc e s s1"
    and held: "holding nr loc (mac_string (dm_chaddr msg)) l (s1, wa @ wb) (s2, w2)"
    and dead: "crash_leaves nr loc (mac_string (dm_chaddr msg)) l (s2, w2) fs"
    and restart: "prompt_start e3 (cf_lease_file c) fs" "rn_clk e3 0 \<le> l_expiry (reloaded l)"
  shows "\<exists>s3. boots c ips fs e3 link True s3 \<and> server_inv s3 \<and>
    lease_map (sv_leases s3) (mac_string (dm_chaddr msg)) = Some (reloaded l) \<and> l_ip l = to4 (requested_ip msg)"
proof -
  let ?k = "mac_string (dm_chaddr msg)"
  let ?p = "cf_lease_file c"
  have inv: "machine_inv s0 (s, wa @ (msg, peer, arrived) # wb)"
    by (rule machine_inv_reach [OF reach boots_ok(1) [OF boot]])
  then have i: "server_inv s" "msg_v4 msg" "lease_path (sv_leases s) = ?p"
    using boots_path [OF boot] by (auto simp: machine_inv_def same_pool_def)
  have h: "handle_request nr e (reply_peer peer) msg (dm_chaddr msg) arrived s = Some s1"
    by (rule counted_request [OF i(1) ack(1)]) (use ack(2) in metis)
  note a = ack_on_file [OF i(1,2) h ack(2)]
  have inv1: "machine_inv s0 (s1, wa @ wb)"
    by (rule machine_inv_step [OF dhcp_step.handle [OF ack(1)] inv])
  have row: "lease_map (sv_leases s1) ?k = Some l" using a(1) l(1) by simp
  have f1: "on_file loc ?k l ?p (sv_files s1)"
    by (rule on_file_saved [OF a(2) _ _ row, of "rn_save_order e"])
      (use cov a(4) i(3) in \<open>auto simp: save_covers_def\<close>)
  have p1: "lease_path (sv_leases s1) = ?p" using a(3) i(3) by (simp add: only_client_def)
  have s2: "machine_inv s0 (s2, w2)" "lease_path (sv_leases s2) = ?p" "on_file loc ?k l ?p (sv_files s2)"
    using holding_on_file [OF held inv1, of ?p] p1 f1 by simp_all
  have fs: "on_file loc ?k l ?p fs" using crash_on_file [OF dead s2(1)] s2(2,3) by simp
  have "lease_key l \<in> pool_keys (sv_pool s1)"
    using a(2) lease_keysI [OF row] by (auto simp: server_inv_def owns_def pool_keys_def)
  then have "lease_key l \<in> key4 ` {ip \<in> set ips. to4 ip \<noteq> []}"
    using boots_ok(2) [OF boot] inv1 by (simp add: machine_inv_def same_pool_def)
  from restart_on_file [OF fs l(2) restart(2,1) this] show ?thesis
    by (auto simp: l(1) granted_lease_def)
qed

text \<open>
  The example: two clients wait, the first is acknowledged, and the process dies right after it opened
  the temporary file for the lease of the second.
\<close>

definition w_req2 :: dhcp_msg where "w_req2 = w_msg 3 w_mac2 w_ip2"
definition w_lease1 :: lease where
  "w_lease1 = \<lparr>l_mac = w_mac1, l_ip = w_ip1, l_expiry = w_t0 + default_lease_time, l_granted = w_t0\<rparr>"

lemma w_reach_two: "dhcp_reach w_reply w_boot (w_boot, [] @ (w_req1, w_peer, w_t0) # [(w_req2, w_peer, w_t0)])"
proof -
  have "msg_v4 w_req2" by code_simp
  from dhcp_reach.step [OF w_reach_waiting dhcp_step.receive [OF this]] show ?thesis by simp
qed

lemma w_leased_table: "dom (lease_map (sv_leases w_leased)) \<subseteq> set (rn_save_order (w_run t))"
  using w_leased_dom by (auto simp: w_run_def)

lemma w_run_distinct: "distinct (rn_save_order (w_run t))"
  by (simp add: w_run_def w_mac1_def w_mac2_def)

lemma w_ack_covers: "save_covers (\<lambda>_. 0) (w_run w_t0) w_boot w_leased"
proof -
  have "lease_map (sv_leases w_boot) = Map.empty"
    using new_server_inv(5) [OF w_new] by (simp add: w_boot_def new_lease_store_def)
  then show ?thesis using w_leased_table w_run_distinct by (simp add: save_covers_def w_run_def)
qed

lemma w_ack_counted: "sv_total w_leased ''ok'' \<noteq> sv_total w_boot ''ok''"
  by code_simp

lemma w_leased_path: "lease_path (sv_leases w_leased) = cf_lease_file w_conf"
  using machine_inv_reach [OF w_reach_leased w_boot_inv] new_server_inv(5) [OF w_new]
  by (simp add: machine_inv_def same_pool_def w_boot_def new_lease_store_def)

lemma w_leased_file: "sv_files w_leased (cf_lease_file w_conf) =
    Some \<lparr>f_data = lease_data (\<lambda>_. 0) (rn_save_order (w_run w_t0)) (sv_leases w_leased), f_perm = lease_file_perm\<rparr>"
proof -
  have "sv_total w_leased \<noteq> sv_total w_boot" using w_ack_counted by metis
  from counted_request [OF w_boot_inv w_leased_step this]
  have h: "handle_request w_reply (w_run w_t0) (reply_peer w_peer) w_req1 (dm_chaddr w_req1) w_t0 w_boot = Some w_leased" .
  show ?thesis
    using ack_on_file(4) [OF w_boot_inv w_req1_v4 h w_ack_counted] boots_path [OF w_boots w_takeover]
    by (simp add: w_run_def)
qed

lemma w_restart_prompt:
  assumes fs: "fs (cf_lease_file w_conf) = sv_files w_leased (cf_lease_file w_conf)"
  shows "prompt_start w_restart (cf_lease_file w_conf) fs"
proof -
  have ord: "iter_order (rn_save_order (w_run w_t0)) (lease_map (sv_leases w_leased))"
    using w_leased_table w_run_distinct by (simp add: iter_order_def)
  note ld = lease_load_reread [where fs = fs and p = "cf_lease_file w_conf" and now = "rn_clk w_restart 0",
      OF w_leased_wf ord fs [unfolded w_leased_file] os_file.select_convs(1)]
  have row: "k = mac_string w_mac1 \<and> w_restart_end < l_expiry r"
    if "Option.bind (lease_map (sv_leases w_leased) k) (reread (rn_clk w_restart 0) (\<lambda>_. 0)) = Some r"
      "w_restart_end = rn_clk w_restart 1" for k r w_restart_end
  proof -
    from that obtain u where u: "lease_map (sv_leases w_leased) k = Some u" "reread (rn_clk w_restart 0) (\<lambda>_. 0) u = Some r"
      by (auto simp: bind_eq_Some_conv)
    have "writable_lease (\<lambda>_. 0) u" using w_leased_writable u(1) by (auto simp: all_writable_def)
    from reread_writable [OF this] u(2) have "r = reloaded u" by (auto split: if_splits)
    then show ?thesis using w_leased_dom [OF u(1)] w_leased_row u(1) that(2)
      by (auto simp: reloaded_def w_restart_def w_run_def w_t0_def default_lease_time_def second_def)
  qed
  then have "iter_order (rn_lease_order w_restart)
      (\<lambda>k. Option.bind (lease_map (sv_leases w_leased) k) (reread (rn_clk w_restart 0) (\<lambda>_. 0)))"
    by (auto simp: iter_order_def w_restart_def w_run_def w_mac1_def w_mac2_def dom_def)
  with row show ?thesis by (simp add: prompt_start_def ld)
qed

theorem acked_lease_survives_witness:
  "\<exists>fs s3. fs (''leases.json.tmp'') \<noteq> None \<and> boots w_conf [w_ip1, w_ip2] fs w_restart 3 True s3 \<and>
    lease_map (sv_leases s3) (mac_string w_mac1) = Some (reloaded w_lease1)"
proof -
  let ?p = "cf_lease_file w_conf" and ?e2 = "w_run (w_t0 + 5)"
  have p: "?p = ''leases.json''" by (simp add: w_conf_def)
  have v4: "msg_v4 w_req2" by code_simp
  have chad: "dm_chaddr w_req1 = w_mac1" "dm_chaddr w_req2 = w_mac2" "w_mac1 \<noteq> w_mac2" by code_simp+
  obtain t where t: "handler w_reply ?e2 (reply_peer w_peer) w_req2 w_t0 w_leased = Some t"
    "server_inv t" "only_client (dm_chaddr w_req2) w_leased t" by (rule handler_ok [OF w_leased_inv v4])
  have same: "lease_map (sv_leases t) k = lease_map (sv_leases w_leased) k" if "k \<noteq> mac_string w_mac2" for k
    using t(3) that chad(2) by (simp add: only_client_def)
  then have row: "lease_map (sv_leases t) (mac_string w_mac1) = Some w_lease1"
    using w_leased_row chad(3) by (simp add: w_lease1_def)
  have "dom (lease_map (sv_leases t)) \<subseteq> insert (mac_string w_mac2) (dom (lease_map (sv_leases w_leased)))"
    using same by (metis domIff insert_iff subsetI)
  then have "save_covers (\<lambda>_. 0) ?e2 w_leased t"
    using w_leased_table [of "w_t0 + 5"] w_run_distinct [of "w_t0 + 5"] by (auto simp: save_covers_def w_run_def)
  from saving_step.handle [OF t(1) this, where ?w1.0 = "[]" and ?w2.0 = "[]"]
  have st: "saving_step w_reply (\<lambda>_. 0) (w_leased, [(w_req2, w_peer, w_t0)]) (t, [])" by simp
  obtain f where f: "sv_files t (lease_path (sv_leases w_leased)) = Some f"
    using handler_kept [OF w_leased_inv v4 t(1)] w_leased_file w_leased_path by (auto simp: file_kept_or_saved_def)
  let ?fs = "(sv_files w_leased)(?p @ ''.tmp'' \<mapsto>
      \<lparr>f_data = [], f_perm = created_perm 18 (sv_files w_leased) (?p @ ''.tmp'') (f_perm f)\<rparr>)"
  have dead: "crash_leaves w_reply (\<lambda>_. 0) (mac_string (dm_chaddr w_req1)) w_lease1 (w_leased, [] @ [(w_req2, w_peer, w_t0)]) ?fs"
    using crash_leaves.within [OF st row f atomic_reach.reach_step [OF atomic_reach.reach_start atomic_step.open_tmp]]
    unfolding w_leased_path chad(1) append.simps by blast
  have l: "w_lease1 = granted_lease (sv_conf w_boot) (dm_chaddr w_req1) (requested_ip w_req1) w_t0" by code_simp
  have wr: "writable_lease (\<lambda>_. 0) w_lease1"
    using w_leased_writable w_leased_row by (auto simp: all_writable_def w_lease1_def)
  have live: "rn_clk w_restart 0 \<le> l_expiry (reloaded w_lease1)"
    by (simp add: w_lease1_def reloaded_def w_restart_def w_run_def w_t0_def default_lease_time_def second_def)
  have prompt: "prompt_start w_restart ?p ?fs" by (rule w_restart_prompt) simp
  have tmp: "?fs ''leases.json.tmp'' \<noteq> None" by (simp add: p)
  from acked_lease_survives [OF w_boots w_takeover w_reach_two w_leased_step w_ack_counted l wr w_ack_covers
      holding.start dead prompt live, where link = 3] chad(1) tmp
  show ?thesis by metis
qed

end
