(* ===== verification/Go_Error.thy ===== *)
theory Go_Error
  imports Prelude
begin

text \<open>
  Go errors as values. The text of an error is its fixed words; the operands a format prints are left
  out, because no caller reads them. \<open>Wrap\<close> is \<open>fmt.Errorf\<close> with \<open>%w\<close>, \<open>Joined\<close> is
  \<open>errors.Join\<close> of the errors that are not nil.
\<close>

datatype error = Err string | Wrap string error | Joined "error list"

type_synonym 'a result = "error + 'a"

text \<open>\<open>errors.Join\<close> is nil when every argument is.\<close>

definition join_errors :: "error option list \<Rightarrow> error option" where
  "join_errors es = (case List.map_filter id es of [] \<Rightarrow> None | xs \<Rightarrow> Some (Joined xs))"

definition wrap_error :: "string \<Rightarrow> error option \<Rightarrow> error option" where
  "wrap_error msg e = map_option (Wrap msg) e"

lemma join_errors_None [simp]: "join_errors es = None \<longleftrightarrow> (\<forall>e \<in> set es. e = None)"
  by (induction es) (auto simp: join_errors_def List.map_filter_def split: list.splits option.splits)

lemma wrap_error_None [simp]: "wrap_error msg e = None \<longleftrightarrow> e = None"
  by (simp add: wrap_error_def)

end
