(* ===== verification/Go_Text.thy ===== *)
theory Go_Text
  imports Prelude
begin

text \<open>
  The part of \<open>strings\<close>, \<open>strconv\<close>, \<open>path\<close> and \<open>path/filepath\<close> the program uses. Texts are byte
  strings, so the white space of Unicode appears as its UTF-8 sequences.
\<close>

section \<open>White space\<close>

definition space_seqs :: "string list" where
  "space_seqs =
     map (\<lambda>n. [char_of n]) [9, 10, 11, 12, 13, 32::nat] @
     [[CHR 0xC2, CHR 0x85], [CHR 0xC2, CHR 0xA0], [CHR 0xE1, CHR 0x9A, CHR 0x80]] @
     map (\<lambda>n. [CHR 0xE2, CHR 0x80, char_of n])
       [128, 129, 130, 131, 132, 133, 134, 135, 136, 137, 138, 168, 169, 175::nat] @
     [[CHR 0xE2, CHR 0x81, CHR 0x9F], [CHR 0xE3, CHR 0x80, CHR 0x80]]"

definition has_prefix :: "string \<Rightarrow> string \<Rightarrow> bool" where
  "has_prefix s p \<longleftrightarrow> take (length p) s = p"

text \<open>The white-space sequence of \<open>qs\<close> at the head of a text.\<close>

definition space_head :: "string list \<Rightarrow> string \<Rightarrow> string option" where
  "space_head qs s = find (\<lambda>q. q \<noteq> [] \<and> has_prefix s q) qs"

lemma space_head_length: "space_head qs s = Some q \<Longrightarrow> length (drop (length q) s) < length s"
proof -
  assume "space_head qs s = Some q"
  then have "q \<noteq> []" "take (length q) s = q" by (auto simp: space_head_def find_Some_iff has_prefix_def)
  then show ?thesis by (cases s) auto
qed

function trim_head :: "string list \<Rightarrow> string \<Rightarrow> string" where
  "trim_head qs s = (case space_head qs s of None \<Rightarrow> s | Some q \<Rightarrow> trim_head qs (drop (length q) s))"
  by pat_completeness auto
termination by (relation "measure (\<lambda>(qs, s). length s)") (auto dest: space_head_length)

declare trim_head.simps [simp del]

text \<open>\<open>strings.TrimSpace\<close>\<close>

definition trim_space :: "string \<Rightarrow> string" where
  "trim_space s = rev (trim_head (map rev space_seqs) (rev (trim_head space_seqs s)))"

lemma trim_head_plain: "s \<noteq> [] \<Longrightarrow> hd s \<notin> hd ` set qs \<Longrightarrow> trim_head qs s = s"
proof -
  assume a: "s \<noteq> []" "hd s \<notin> hd ` set qs"
  have "space_head qs s = None"
    unfolding space_head_def find_None_iff
  proof
    assume "\<exists>q. q \<in> set qs \<and> q \<noteq> [] \<and> has_prefix s q"
    then obtain q where "q \<in> set qs" "q \<noteq> []" "take (length q) s = q" by (auto simp: has_prefix_def)
    then have "hd q = hd s" by (metis hd_take length_greater_0_conv)
    with \<open>q \<in> set qs\<close> a(2) show False by (metis imageI)
  qed
  then show ?thesis by (simp add: trim_head.simps [of qs])
qed

definition graphic :: "char \<Rightarrow> bool" where
  "graphic c \<longleftrightarrow> 33 \<le> (of_char c :: nat) \<and> (of_char c :: nat) \<le> 126"

lemma space_seq_ends: "q \<in> set space_seqs \<Longrightarrow> \<not> graphic (hd q) \<and> q \<noteq> [] \<and> \<not> graphic (last q)"
proof -
  have "\<forall>q \<in> set space_seqs. \<not> graphic (hd q) \<and> q \<noteq> [] \<and> \<not> graphic (last q)" by code_simp
  then show "q \<in> set space_seqs \<Longrightarrow> ?thesis" by blast
qed

lemma trim_space_plain: "s \<noteq> [] \<Longrightarrow> graphic (hd s) \<Longrightarrow> graphic (last s) \<Longrightarrow> trim_space s = s"
proof -
  assume a: "s \<noteq> []" "graphic (hd s)" "graphic (last s)"
  have "hd s \<notin> hd ` set space_seqs" using a(2) space_seq_ends by auto
  moreover have "hd (rev s) \<notin> hd ` set (map rev space_seqs)" using a space_seq_ends by (auto simp: hd_rev)
  ultimately show ?thesis using a(1) by (simp add: trim_space_def trim_head_plain)
qed

text \<open>\<open>strings.Fields\<close>; \<open>cur\<close> is the field being read.\<close>

function fields_from :: "string \<Rightarrow> string \<Rightarrow> string list" where
  "fields_from cur s =
     (case s of
        [] \<Rightarrow> if cur = [] then [] else [cur]
      | c # r \<Rightarrow>
          (case space_head space_seqs s of
             None \<Rightarrow> fields_from (cur @ [c]) r
           | Some q \<Rightarrow> (if cur = [] then [] else [cur]) @ fields_from [] (drop (length q) s)))"
  by pat_completeness auto
termination by (relation "measure (\<lambda>(cur, s). length s)") (auto dest: space_head_length)

declare fields_from.simps [simp del]

definition fields_of :: "string \<Rightarrow> string list" where
  "fields_of s = fields_from [] s"

section \<open>Searching and splitting\<close>

text \<open>\<open>strings.Contains\<close>\<close>

fun contains_text :: "string \<Rightarrow> string \<Rightarrow> bool" where
  "contains_text [] sub = (sub = [])"
| "contains_text (c # s) sub = (has_prefix (c # s) sub \<or> contains_text s sub)"

text \<open>\<open>strings.Split\<close> at one character.\<close>

fun split_char :: "char \<Rightarrow> string \<Rightarrow> string list" where
  "split_char c [] = [[]]"
| "split_char c (x # xs) =
     (if x = c then [] # split_char c xs
      else (case split_char c xs of [] \<Rightarrow> [[x]] | p # ps \<Rightarrow> (x # p) # ps))"

text \<open>\<open>strings.ReplaceAll\<close> of one character by another.\<close>

definition replace_char :: "char \<Rightarrow> char \<Rightarrow> string \<Rightarrow> string" where
  "replace_char a b s = map (\<lambda>c. if c = a then b else c) s"

lemma split_char_nonempty [simp]: "split_char c s \<noteq> []"
  by (induction s) (auto split: list.splits)

lemma split_char_none: "c \<notin> set s \<Longrightarrow> split_char c s = [s]"
  by (induction s) auto

lemma split_char_append: "c \<notin> set a \<Longrightarrow> split_char c (a @ c # s) = a # split_char c s"
  by (induction a) auto

text \<open>Joining and splitting is the identity.\<close>

lemma split_join: "\<forall>s \<in> set ss. c \<notin> set s \<Longrightarrow> ss \<noteq> [] \<Longrightarrow> split_char c (join [c] ss) = ss"
proof (induction ss)
  case (Cons s ss)
  then show ?case by (cases ss) (simp_all add: split_char_none split_char_append)
qed simp

lemma contains_text_append: "contains_text (a @ sub @ b) sub"
proof (induction a)
  case Nil
  have "take (length sub) (sub @ b) = sub" by simp
  then show ?case by (cases "sub @ b") (simp_all add: has_prefix_def)
qed simp

section \<open>Paths\<close>

text \<open>\<open>path.Base\<close>: the last element, after trailing slashes are removed.\<close>

definition path_base :: "string \<Rightarrow> string" where
  "path_base p =
     (if p = [] then ''.''
      else (let q = rev (dropWhile (\<lambda>c. c = CHR ''/'') (rev p));
                b = rev (takeWhile (\<lambda>c. c \<noteq> CHR ''/'') (rev q))
            in if b = [] then ''/'' else b))"

text \<open>\<open>filepath.Clean\<close>: the elements kept so far, last one first, then the elements left.\<close>

fun clean_elems :: "bool \<Rightarrow> string list \<Rightarrow> string list \<Rightarrow> string list" where
  "clean_elems rooted out [] = rev out"
| "clean_elems rooted out (e # es) =
     (if e = [] \<or> e = ''.'' then clean_elems rooted out es
      else if e = ''..'' then
        (case out of
           o1 # out' \<Rightarrow> if o1 \<noteq> ''..'' then clean_elems rooted out' es else clean_elems rooted (e # out) es
         | [] \<Rightarrow> if rooted then clean_elems rooted out es else clean_elems rooted (e # out) es)
      else clean_elems rooted (e # out) es)"

definition clean_path :: "path \<Rightarrow> path" where
  "clean_path p =
     (let rooted = has_prefix p ''/'';
          r = (if rooted then ''/'' else []) @ join ''/'' (clean_elems rooted [] (split_char (CHR ''/'') p))
      in if r = [] then ''.'' else r)"

text \<open>\<open>filepath.Join\<close> and \<open>filepath.Dir\<close>\<close>

definition join_path :: "string list \<Rightarrow> path" where
  "join_path es =
     (case filter (\<lambda>e. e \<noteq> []) es of [] \<Rightarrow> [] | es' \<Rightarrow> clean_path (join ''/'' es'))"

definition path_dir :: "path \<Rightarrow> path" where
  "path_dir p = clean_path (rev (dropWhile (\<lambda>c. c \<noteq> CHR ''/'') (rev p)))"

section \<open>Numbers\<close>

text \<open>\<open>strconv.Itoa\<close> and \<open>strconv.Atoi\<close>; the latter fails outside 64 bits.\<close>

definition itoa :: "int \<Rightarrow> string" where
  "itoa n = (if n < 0 then CHR ''-'' # dec (nat (- n)) else dec (nat n))"

definition atoi :: "string \<Rightarrow> int option" where
  "atoi s =
     (let (neg, ds) = (case s of c # r \<Rightarrow> if c = CHR ''-'' then (True, r)
                                        else if c = CHR ''+'' then (False, r) else (False, s)
                       | [] \<Rightarrow> (False, s))
      in if ds = [] then None
         else (case undec 0 ds of
                 None \<Rightarrow> None
               | Some n \<Rightarrow>
                   (let i = (if neg then - int n else int n) in
                    if i < - (2 ^ 63) \<or> 2 ^ 63 \<le> i then None else Some i)))"

lemma hd_dec_digit: "is_digit (hd (dec n))"
  by (rule dec_digits) (rule hd_in_set, rule dec_nonempty)

lemma atoi_dec: "n < 2 ^ 63 \<Longrightarrow> atoi (dec n) = Some (int n)"
proof -
  assume n: "n < 2 ^ 63"
  then have "int n < int (2 ^ 63)" by (subst of_nat_less_iff)
  then have n': "int n < 2 ^ 63" by simp
  obtain c r where c: "dec n = c # r" by (cases "dec n") (simp_all add: dec_nonempty)
  then have "c \<noteq> CHR ''-'' \<and> c \<noteq> CHR ''+''" using hd_dec_digit [of n] by (auto simp: is_digit_def)
  then show ?thesis using c n' undec_dec [of n] by (simp add: atoi_def)
qed

end
