(* ===== verification/Host.thy ===== *)
theory Host
  imports Os_File Go_Error Go_Text Go_Prefix
begin

text \<open>
  The host a command runs on: its files and environment, and everything that is reached through code
  outside the repository (the \<open>gcloud\<close> and \<open>ve\<close> binaries, HTTP, netlink, go-iptables, the clock and
  the process table). The latter is a state of any type, seen only through a \<open>driver\<close>, a record of
  the calls the program makes; it is an argument of every operation that uses it.
\<close>

section \<open>What the program calls\<close>

text \<open>How a child process ended; \<open>WaitDelay\<close> carries whether the process itself succeeded.\<close>

datatype exit_status = ExitOk | WaitDelay bool | ExitFailed

text \<open>\<open>client.Do\<close> fails, or gives a status and a body that can be read or not.\<close>

datatype http_reply = HttpFailed | HttpReply nat "string option"

record link =
  lk_index :: int
  lk_mtu :: int
  lk_mac :: mac

datatype add_reply = LinkAdded | LinkExists | LinkAddFailed

datatype route_kind = LocalTable int ipnet

record 'c driver =
  dr_exec :: "string \<Rightarrow> string list \<Rightarrow> 'c \<Rightarrow> (string \<times> exit_status) \<times> 'c"
  dr_http :: "string \<Rightarrow> (string \<times> string) list \<Rightarrow> 'c \<Rightarrow> http_reply \<times> 'c"
  dr_sleep :: "duration \<Rightarrow> 'c \<Rightarrow> bool \<times> 'c"
  dr_cancelled :: "'c \<Rightarrow> bool"
  dr_now :: "'c \<Rightarrow> time"
  dr_disk :: "'c \<Rightarrow> disk \<times> 'c"
  dr_readable :: "path \<Rightarrow> 'c \<Rightarrow> bool"
  dr_mkdir :: "path \<Rightarrow> 'c \<Rightarrow> bool \<times> 'c"
  dr_hard_link :: "'c \<Rightarrow> bool \<times> 'c"
  dr_pid :: "'c \<Rightarrow> int"
  dr_alive :: "int \<Rightarrow> 'c \<Rightarrow> bool"
  dr_gauge :: "string \<Rightarrow> nat \<Rightarrow> 'c \<Rightarrow> unit \<times> 'c"
  dr_link :: "string \<Rightarrow> 'c \<Rightarrow> link option \<times> 'c"
  dr_add_bridge :: "string \<Rightarrow> int \<Rightarrow> 'c \<Rightarrow> add_reply \<times> 'c"
  dr_set_mtu :: "link \<Rightarrow> int \<Rightarrow> 'c \<Rightarrow> bool \<times> 'c"
  dr_set_up :: "link \<Rightarrow> 'c \<Rightarrow> bool \<times> 'c"
  dr_addr_replace :: "link \<Rightarrow> ipnet \<Rightarrow> 'c \<Rightarrow> bool \<times> 'c"
  dr_route_del :: "route_kind \<Rightarrow> 'c \<Rightarrow> bool \<times> 'c"
  dr_ipt_new :: "'c \<Rightarrow> bool \<times> 'c"
  dr_ipt_list :: "string \<Rightarrow> string \<Rightarrow> 'c \<Rightarrow> string list option \<times> 'c"
  dr_ipt_exists :: "string \<Rightarrow> string \<Rightarrow> string list \<Rightarrow> 'c \<Rightarrow> bool option \<times> 'c"
  dr_ipt_append :: "string \<Rightarrow> string \<Rightarrow> string list \<Rightarrow> 'c \<Rightarrow> bool \<times> 'c"
  dr_ipt_insert :: "string \<Rightarrow> string \<Rightarrow> nat \<Rightarrow> string list \<Rightarrow> 'c \<Rightarrow> bool \<times> 'c"
  dr_ipt_delete :: "string \<Rightarrow> string \<Rightarrow> string list \<Rightarrow> 'c \<Rightarrow> bool \<times> 'c"

record 'c host =
  h_files :: fs
  h_env :: "string \<rightharpoonup> string"
  h_ext :: 'c

type_synonym ('c, 'a) io = "'c host \<Rightarrow> 'a \<times> 'c host"

text \<open>A host on which every file call works and everything else fails or is absent.\<close>

definition bare_driver :: "'c driver" where
  "bare_driver =
     \<lparr>dr_exec = (\<lambda>b a c. (([], ExitFailed), c)), dr_http = (\<lambda>u hs c. (HttpFailed, c)),
      dr_sleep = (\<lambda>d c. (True, c)), dr_cancelled = (\<lambda>c. False), dr_now = (\<lambda>c. 0),
      dr_disk = (\<lambda>c. (disk_ok, c)), dr_readable = (\<lambda>p c. True), dr_mkdir = (\<lambda>p c. (True, c)),
      dr_hard_link = (\<lambda>c. (True, c)), dr_pid = (\<lambda>c. 1), dr_alive = (\<lambda>p c. False), dr_gauge = (\<lambda>l n c. ((), c)),
      dr_link = (\<lambda>n c. (None, c)), dr_add_bridge = (\<lambda>n m c. (LinkAddFailed, c)),
      dr_set_mtu = (\<lambda>l m c. (False, c)), dr_set_up = (\<lambda>l c. (False, c)),
      dr_addr_replace = (\<lambda>l a c. (False, c)), dr_route_del = (\<lambda>r c. (False, c)),
      dr_ipt_new = (\<lambda>c. (False, c)), dr_ipt_list = (\<lambda>t ch c. (None, c)),
      dr_ipt_exists = (\<lambda>t ch r c. (None, c)), dr_ipt_append = (\<lambda>t ch r c. (False, c)),
      dr_ipt_insert = (\<lambda>t ch n r c. (False, c)), dr_ipt_delete = (\<lambda>t ch r c. (False, c))\<rparr>"

section \<open>Calls on the host\<close>

definition ext_call :: "('c \<Rightarrow> 'a \<times> 'c) \<Rightarrow> ('c, 'a) io" where
  "ext_call f h = (case f (h_ext h) of (x, c) \<Rightarrow> (x, h\<lparr>h_ext := c\<rparr>))"

definition ok_or :: "string \<Rightarrow> bool \<Rightarrow> error option" where
  "ok_or msg b = (if b then None else Some (Err msg))"

text \<open>\<open>os.ReadFile\<close>, \<open>os.WriteFile\<close>, \<open>os.Remove\<close>, \<open>utils.WriteFileAtomic\<close>.\<close>

datatype read_result = NoFile | Unreadable | FileData string

definition read_file :: "'c driver \<Rightarrow> path \<Rightarrow> 'c host \<Rightarrow> read_result" where
  "read_file drv p h = (case h_files h p of
     None \<Rightarrow> NoFile
   | Some f \<Rightarrow> if dr_readable drv p (h_ext h) then FileData (f_data f) else Unreadable)"

definition write_file :: "'c driver \<Rightarrow> path \<Rightarrow> string \<Rightarrow> file_mode \<Rightarrow> ('c, bool) io" where
  "write_file drv p data perm h =
     (case dr_disk drv (h_ext h) of (d, c) \<Rightarrow>
        (case os_write_file d p data perm (h_files h) of (ok, s) \<Rightarrow>
           (ok, h\<lparr>h_files := s, h_ext := c\<rparr>)))"

definition replace_file :: "'c driver \<Rightarrow> path \<Rightarrow> string \<Rightarrow> file_mode \<Rightarrow> ('c, bool) io" where
  "replace_file drv p data perm h =
     (case dr_disk drv (h_ext h) of (d, c) \<Rightarrow>
        (case write_file_atomic d p data perm (h_files h) of (e, s) \<Rightarrow>
           (e = None, h\<lparr>h_files := s, h_ext := c\<rparr>)))"

text \<open>Removing a file that does not exist is the error \<open>ErrNotExist\<close>.\<close>

datatype remove_result = Removed | NotThere | RemoveFailed

definition remove_file :: "'c driver \<Rightarrow> path \<Rightarrow> ('c, remove_result) io" where
  "remove_file drv p h =
     (case h_files h p of
        None \<Rightarrow> (NotThere, h)
      | Some _ \<Rightarrow>
          (case dr_disk drv (h_ext h) of (d, c) \<Rightarrow>
             (case os_remove d p (h_files h) of (ok, s) \<Rightarrow>
                (if ok then Removed else RemoveFailed, h\<lparr>h_files := s, h_ext := c\<rparr>))))"

text \<open>\<open>os.Link\<close>: a second name for a file; the target must not exist.\<close>

datatype link_result = Linked | TargetExists | LinkFailed

definition link_file :: "'c driver \<Rightarrow> path \<Rightarrow> path \<Rightarrow> ('c, link_result) io" where
  "link_file drv old new h =
     (case h_files h new of
        Some _ \<Rightarrow> (TargetExists, h)
      | None \<Rightarrow>
          (case dr_hard_link drv (h_ext h) of (ok, c) \<Rightarrow>
             (case h_files h old of
                None \<Rightarrow> (LinkFailed, h\<lparr>h_ext := c\<rparr>)
              | Some f \<Rightarrow>
                  (if ok then (Linked, h\<lparr>h_files := (h_files h)(new \<mapsto> f), h_ext := c\<rparr>)
                   else (LinkFailed, h\<lparr>h_ext := c\<rparr>)))))"

lemma ext_call_frame [simp]:
  "h_files (snd (ext_call f h)) = h_files h" "h_env (snd (ext_call f h)) = h_env h"
  by (simp_all add: ext_call_def split: prod.splits)

lemma replace_file_ok:
  "replace_file drv p data perm h = (True, h') \<Longrightarrow>
   h_files h' p = Some \<lparr>f_data = data, f_perm = perm\<rparr> \<and> h_env h' = h_env h"
  using write_file_atomic_cases [where d = "fst (dr_disk drv (h_ext h))" and path = p and data = data
      and perm = perm and s = "h_files h"]
  by (auto simp: replace_file_def split: prod.splits)

lemma replace_file_err:
  "replace_file drv p data perm h = (False, h') \<Longrightarrow> h_files h' p = h_files h p \<and> h_env h' = h_env h"
  using write_file_atomic_cases [where d = "fst (dr_disk drv (h_ext h))" and path = p and data = data
      and perm = perm and s = "h_files h"]
  by (auto simp: replace_file_def split: prod.splits option.splits)

lemma replace_file_frame:
  "q \<noteq> p \<Longrightarrow> q \<noteq> p @ ''.tmp'' \<Longrightarrow> h_files (snd (replace_file drv p data perm h)) q = h_files h q"
  using write_file_atomic_frame [of q p "fst (dr_disk drv (h_ext h))" data perm "h_files h"]
  by (auto simp: replace_file_def split: prod.splits)

lemma write_file_frame: "q \<noteq> p \<Longrightarrow> h_files (snd (write_file drv p data perm h)) q = h_files h q"
  by (auto simp: write_file_def os_write_file_def Let_def split: prod.splits write_outcome.splits option.splits)

lemma write_file_ok: "write_file drv p data perm h = (True, h') \<Longrightarrow> map_option f_data (h_files h' p) = Some data"
  by (auto simp: write_file_def os_write_file_def Let_def split: prod.splits write_outcome.splits option.splits)

lemma remove_file_frame: "q \<noteq> p \<Longrightarrow> h_files (snd (remove_file drv p h)) q = h_files h q"
  by (auto simp: remove_file_def os_remove_def split: prod.splits option.splits)

lemma remove_file_cases:
  "remove_file drv p h = (r, h') \<Longrightarrow>
     (r = RemoveFailed \<longrightarrow> h_files h' p = h_files h p) \<and> (r \<noteq> RemoveFailed \<longrightarrow> h_files h' p = None)"
  by (auto simp: remove_file_def os_remove_def split: prod.splits option.splits if_splits)

section \<open>Sequencing\<close>

text \<open>
  \<open>x, err := m; if err != nil { return err }\<close>, the same with the error wrapped, and a return.
\<close>

definition ret :: "'a \<Rightarrow> ('c, 'a result) io" where
  "ret x h = (Inr x, h)"

definition fail_with :: "error \<Rightarrow> ('c, 'a result) io" where
  "fail_with e h = (Inl e, h)"

definition and_then :: "('c, 'a result) io \<Rightarrow> ('a \<Rightarrow> ('c, 'b result) io) \<Rightarrow> ('c, 'b result) io" where
  "and_then m k h = (case m h of (Inl e, h') \<Rightarrow> (Inl e, h') | (Inr x, h') \<Rightarrow> k x h')"

definition wrapping :: "string \<Rightarrow> ('c, 'a result) io \<Rightarrow> ('c, 'a result) io" where
  "wrapping msg m h = (case m h of (Inl e, h') \<Rightarrow> (Inl (Wrap msg e), h') | (Inr x, h') \<Rightarrow> (Inr x, h'))"

text \<open>A pure step that may fail, and a call that gives only an error.\<close>

definition lift_result :: "'a result \<Rightarrow> ('c, 'a result) io" where
  "lift_result r h = (r, h)"

definition check_ok :: "string \<Rightarrow> ('c, bool) io \<Rightarrow> ('c, unit result) io" where
  "check_ok msg m h = (case m h of (ok, h') \<Rightarrow> (if ok then Inr () else Inl (Err msg), h'))"

text \<open>A step whose error is only logged.\<close>

definition ignoring :: "('c, 'a) io \<Rightarrow> ('c, unit result) io" where
  "ignoring m h = (case m h of (_, h') \<Rightarrow> (Inr (), h'))"

text \<open>\<open>netlink.LinkByName\<close>\<close>

definition link_by_name :: "'c driver \<Rightarrow> string \<Rightarrow> ('c, link result) io" where
  "link_by_name drv n h =
     (case ext_call (dr_link drv n) h of
        (None, h') \<Rightarrow> (Inl (Err ''lookup link''), h') | (Some l, h') \<Rightarrow> (Inr l, h'))"

named_theorems io_run "runs one step of a sequence"

lemma and_then_Inr [io_run]:
  "and_then m k h = (Inr y, h2) \<longleftrightarrow> (\<exists>x h1. m h = (Inr x, h1) \<and> k x h1 = (Inr y, h2))"
  by (auto simp: and_then_def split: prod.splits sum.splits)

lemma and_then_Inl:
  "and_then m k h = (Inl e, h2) \<longleftrightarrow>
     m h = (Inl e, h2) \<or> (\<exists>x h1. m h = (Inr x, h1) \<and> k x h1 = (Inl e, h2))"
  by (auto simp: and_then_def split: prod.splits sum.splits)

lemma wrapping_Inr [io_run]: "wrapping msg m h = (Inr x, h1) \<longleftrightarrow> m h = (Inr x, h1)"
  by (auto simp: wrapping_def split: prod.splits sum.splits)

lemma wrapping_Inl: "wrapping msg m h = (Inl e, h1) \<longleftrightarrow> (\<exists>e'. e = Wrap msg e' \<and> m h = (Inl e', h1))"
  by (auto simp: wrapping_def split: prod.splits sum.splits)

lemma ret_Inr [io_run]: "ret x h = (Inr y, h1) \<longleftrightarrow> y = x \<and> h1 = h"
  by (auto simp: ret_def)

lemma ret_Inl [simp]: "ret x h \<noteq> (Inl e, h1)"
  by (simp add: ret_def)

lemma fail_Inr [io_run]: "fail_with e h = (Inr y, h1) \<longleftrightarrow> False"
  by (simp add: fail_with_def)

lemma lift_Inr [io_run]: "lift_result r h = (Inr y, h1) \<longleftrightarrow> r = Inr y \<and> h1 = h"
  by (auto simp: lift_result_def)

lemma check_ok_Inr [io_run]: "check_ok msg m h = (Inr u, h1) \<longleftrightarrow> m h = (True, h1)"
  by (auto simp: check_ok_def split: prod.splits if_splits)

lemma ignoring_Inr [io_run]: "ignoring m h = (Inr u, h1) \<longleftrightarrow> (\<exists>r. m h = (r, h1))"
  by (auto simp: ignoring_def split: prod.splits)

lemma ignoring_Inl [simp]: "ignoring m h \<noteq> (Inl e, h1)"
  by (simp add: ignoring_def split: prod.splits)

text \<open>A relation between hosts that every step keeps is kept by the sequence.\<close>

definition keeps :: "('c host \<Rightarrow> 'c host \<Rightarrow> bool) \<Rightarrow> ('c, 'a) io \<Rightarrow> bool" where
  "keeps R m \<longleftrightarrow> (\<forall>h. R h (snd (m h)))"

lemma keepsI: "(\<And>h. R h (snd (m h))) \<Longrightarrow> keeps R m"
  by (simp add: keeps_def)

lemma keepsD: "keeps R m \<Longrightarrow> m h = (r, h') \<Longrightarrow> R h h'"
  unfolding keeps_def by (metis snd_conv)

lemma keeps_at: "keeps R m \<Longrightarrow> R h (snd (m h))"
  by (simp add: keeps_def)

lemma keeps_and_then:
  assumes "keeps R m" and "\<And>x. keeps R (k x)" and "transp R"
  shows "keeps R (and_then m k)"
proof (rule keepsI)
  fix h
  obtain r h1 where m: "m h = (r, h1)" by fastforce
  then have "R h h1" using assms(1) by (rule keepsD [rotated])
  then show "R h (snd (and_then m k h))"
    using m assms(2) transpD [OF assms(3)]
    by (cases r) (auto simp: and_then_def keeps_def split: prod.splits)
qed

lemma keeps_wrapping: "keeps R m \<Longrightarrow> keeps R (wrapping msg m)"
  by (simp add: keeps_def wrapping_def split: prod.splits sum.splits) (metis snd_conv)

lemma keeps_ret: "reflp R \<Longrightarrow> keeps R (ret x)" "reflp R \<Longrightarrow> keeps R (fail_with e)"
  "reflp R \<Longrightarrow> keeps R (lift_result r)"
  by (simp_all add: keeps_def ret_def fail_with_def lift_result_def reflpD)

lemma keeps_check: "keeps R m \<Longrightarrow> keeps R (check_ok msg m)"
  by (simp add: keeps_def check_ok_def split: prod.splits) (metis snd_conv)

lemma keeps_ignoring: "keeps R m \<Longrightarrow> keeps R (ignoring m)"
  by (simp add: keeps_def ignoring_def case_prod_beta)

lemmas keeps_intros = keeps_and_then keeps_wrapping keeps_ret keeps_check keeps_ignoring

section \<open>Which files an operation may touch\<close>

definition files_within :: "path set \<Rightarrow> 'c host \<Rightarrow> 'c host \<Rightarrow> bool" where
  "files_within S h h' \<longleftrightarrow> (\<forall>p. p \<notin> S \<longrightarrow> h_files h' p = h_files h p)"

lemma files_within_refl: "reflp (files_within S)"
  by (simp add: files_within_def reflp_def)

lemma files_within_trans: "transp (files_within S)"
  by (auto simp: files_within_def transp_def)

lemma keeps_ext_call: "keeps (files_within S) (ext_call f)"
  by (rule keepsI) (simp add: files_within_def)

lemma keeps_write_file: "p \<in> S \<Longrightarrow> keeps (files_within S) (write_file drv p data perm)"
  by (rule keepsI) (metis files_within_def write_file_frame)

lemma keeps_remove_file: "p \<in> S \<Longrightarrow> keeps (files_within S) (remove_file drv p)"
  by (rule keepsI) (metis files_within_def remove_file_frame)

lemma keeps_link_by_name: "keeps (files_within S) (link_by_name drv n)"
  by (rule keepsI) (simp add: files_within_def link_by_name_def ext_call_def split: prod.splits option.splits)

lemmas keeps_files = keeps_and_then [OF _ _ files_within_trans] keeps_wrapping keeps_check keeps_ignoring
  keeps_link_by_name
  keeps_ret [OF files_within_refl] keeps_ext_call keeps_write_file keeps_remove_file

end
