(* ===== verification/Dhcp_Control.thy ===== *)
theory Dhcp_Control
  imports Dhcp_Server Host
begin

text \<open>
  The rest of \<open>dhcp/control.go\<close> and of \<open>Run\<close>: how the control socket is opened, how a request is routed to
  its handler, and how the server's result follows from the event that ends it. Sockets are reached through a driver that extends the host's;
  the files of \<open>h_files\<close> are regular ones.
\<close>

section \<open>The control socket\<close>

datatype lstat_result = NoEntry | LstatFailed | SocketEntry | OtherEntry

record 'c socket_driver = "'c driver" +
  sk_lstat :: "path \<Rightarrow> 'c \<Rightarrow> lstat_result \<times> 'c"
  sk_remove :: "path \<Rightarrow> 'c \<Rightarrow> bool \<times> 'c"
  sk_listen :: "path \<Rightarrow> 'c \<Rightarrow> bool \<times> 'c"
  sk_chmod :: "path \<Rightarrow> file_mode \<Rightarrow> 'c \<Rightarrow> bool \<times> 'c"
  sk_close :: "path \<Rightarrow> 'c \<Rightarrow> unit \<times> 'c"
  sk_udp :: "string \<Rightarrow> 'c \<Rightarrow> bool \<times> 'c"

definition lstat_path :: "'c socket_driver \<Rightarrow> path \<Rightarrow> ('c, lstat_result) io" where
  "lstat_path drv p h = (case h_files h p of Some _ \<Rightarrow> (OtherEntry, h) | None \<Rightarrow> ext_call (sk_lstat drv p) h)"

definition clear_socket_path :: "'c socket_driver \<Rightarrow> path \<Rightarrow> ('c, unit result) io" where
  "clear_socket_path drv p h =
     (case lstat_path drv p h of
        (OtherEntry, h1) \<Rightarrow> (Inl (Err ''refusing to replace non-socket path''), h1)
      | (SocketEntry, h1) \<Rightarrow> check_ok ''remove stale socket'' (ext_call (sk_remove drv p)) h1
      | (LstatFailed, h1) \<Rightarrow> (Inl (Err ''inspect socket path''), h1)
      | (NoEntry, h1) \<Rightarrow> (Inr (), h1))"

definition socket_perm :: file_mode where "socket_perm = 384"

text \<open>A socket that cannot be made private is closed and removed.\<close>

definition chmod_socket :: "'c socket_driver \<Rightarrow> path \<Rightarrow> ('c, path option result) io" where
  "chmod_socket drv p h =
     (case ext_call (sk_chmod drv p socket_perm) h of
        (True, h1) \<Rightarrow> (Inr (Some p), h1)
      | (False, h1) \<Rightarrow>
          (let h2 = snd (ext_call (sk_close drv p) h1); h3 = snd (ext_call (sk_remove drv p) h2)
           in (Inl (Err ''chmod socket''), h3)))"

text \<open>An empty path disables the endpoint.\<close>

definition new_control_server :: "'c socket_driver \<Rightarrow> path \<Rightarrow> ('c, path option result) io" where
  "new_control_server drv p =
     (if p = [] then ret None
      else
        and_then (check_ok ''create socket directory'' (ext_call (dr_mkdir drv (path_dir p)))) (\<lambda>_.
        and_then (clear_socket_path drv p) (\<lambda>_.
        and_then (check_ok ''listen'' (ext_call (sk_listen drv p))) (\<lambda>_.
        chmod_socket drv p))))"

lemma files_within_ext: "keeps (\<lambda>h h'. h_files h' = h_files h) (ext_call f)"
  by (simp add: keeps_def)

lemma control_files: "h_files (snd (new_control_server drv p h)) = h_files h"
proof -
  let ?R = "\<lambda>h h' :: 'a host. h_files h' = h_files h"
  have tr: "transp ?R" "reflp ?R" by (auto intro: transpI reflpI)
  have "keeps ?R (clear_socket_path drv p)"
    by (auto intro!: keepsI simp: clear_socket_path_def lstat_path_def check_ok_def ext_call_def
        split: prod.splits lstat_result.splits option.splits)
  moreover have "keeps ?R (chmod_socket drv p)"
    by (auto intro!: keepsI simp: chmod_socket_def ext_call_def Let_def split: prod.splits bool.splits)
  ultimately have "keeps ?R (new_control_server drv p)"
    unfolding new_control_server_def by (auto intro!: keeps_intros files_within_ext tr)
  then show ?thesis by (simp add: keeps_def)
qed

text \<open>A file at the socket's path is never replaced: the server does not start.\<close>

lemma control_refuses_file:
  "p \<noteq> [] \<Longrightarrow> h_files h p \<noteq> None \<Longrightarrow> isl (fst (new_control_server drv p h))"
  by (auto simp: new_control_server_def and_then_def check_ok_def ext_call_def clear_socket_path_def lstat_path_def
      split: prod.splits)

section \<open>Routing\<close>

text \<open>
  \<open>http.ServeMux\<close> of the standard library with the one pattern \<open>DELETE /v1/leases/{mac}\<close>: the path, as
  it was escaped in the request, is cleaned first, its segments are unescaped one by one, and a
  wildcard matches one segment that is not empty.
\<close>

fun path_unescape :: "string \<Rightarrow> string option" where
  "path_unescape [] = Some []"
| "path_unescape (c # s) =
     (if c \<noteq> CHR ''%'' then map_option ((#) c) (path_unescape s)
      else (case s of
              a # b # r \<Rightarrow>
                (case (hex_val a, hex_val b) of
                   (Some x, Some y) \<Rightarrow> map_option ((#) (char_of (16 * x + y))) (path_unescape r)
                 | _ \<Rightarrow> None)
            | _ \<Rightarrow> None))"

definition segment_value :: "string \<Rightarrow> string" where
  "segment_value s = (case path_unescape s of Some u \<Rightarrow> u | None \<Rightarrow> s)"

definition http_clean :: "string \<Rightarrow> string" where
  "http_clean p =
     (if p = [] then ''/''
      else (let q = (if has_prefix p ''/'' then p else CHR ''/'' # p); c = clean_path q
            in if last q = CHR ''/'' \<and> c \<noteq> ''/'' then c @ ''/'' else c))"

definition lease_segment :: "string \<Rightarrow> string option" where
  "lease_segment p =
     (case split_char (CHR ''/'') p of
        [r, a, b, m] \<Rightarrow>
          if r = [] \<and> segment_value a = ''v1'' \<and> segment_value b = ''leases'' \<and> segment_value m \<notin> {[], ''/''}
          then Some (segment_value m) else None
      | _ \<Rightarrow> None)"

datatype control_reply = Redirected | Status nat

text \<open>The mux and its handler; the mux leaves the paths of \<open>CONNECT\<close> requests as they are.\<close>

definition control_request :: "run \<Rightarrow> string \<Rightarrow> string \<Rightarrow> dhcp_server \<Rightarrow> (control_reply \<times> dhcp_server) option" where
  "control_request e meth p s =
     (if meth \<noteq> ''CONNECT'' \<and> http_clean p \<noteq> p then Some (Redirected, s)
      else (case lease_segment p of
              None \<Rightarrow> Some (Status 404, s)
            | Some m \<Rightarrow>
                if meth \<noteq> ''DELETE'' then Some (Status 405, s)
                else map_option (\<lambda>(code, s'). (Status code, s')) (handle_lease_control e m s)))"

lemma path_unescape_plain: "CHR ''%'' \<notin> set s \<Longrightarrow> path_unescape s = Some s"
  by (induction s) auto

lemma hex2_plain: "c \<in> set (hex2 b) \<Longrightarrow> c \<notin> {CHR ''/'', CHR ''%'', CHR ''.''}"
proof -
  have lt: "unat b div 16 < 16" "unat b mod 16 < 16" by (auto simp: less_mult_imp_div_less)
  have "digit_char d \<notin> {CHR ''/'', CHR ''%'', CHR ''.''}" if "d < 16" for d
    using less_16_cases [OF that] by (auto simp: digit_char_def)
  with lt show "c \<in> set (hex2 b) \<Longrightarrow> c \<notin> {CHR ''/'', CHR ''%'', CHR ''.''}" by (auto simp: hex2_def)
qed

lemma mac_string_plain: "c \<in> set (mac_string m) \<Longrightarrow> c \<notin> {CHR ''/'', CHR ''%'', CHR ''.''}"
  by (induction m rule: mac_string.induct) (auto dest: hex2_plain)

text \<open>A DELETE for a hardware address as Go prints it reaches the handler with that address.\<close>

lemma control_delete_mac:
  assumes "m \<noteq> []"
  shows "control_request e ''DELETE'' (''/v1/leases/'' @ mac_string m) s =
    map_option (\<lambda>(code, s'). (Status code, s')) (handle_lease_control e (mac_string m) s)"
proof -
  have ne: "mac_string m \<noteq> []" using length_mac_string [OF assms] assms by (cases m) auto
  have pl: "CHR ''/'' \<notin> set (mac_string m)" "CHR ''%'' \<notin> set (mac_string m)" "CHR ''.'' \<notin> set (mac_string m)"
    using mac_string_plain by blast+
  have dots: "mac_string m \<noteq> ''.''" "mac_string m \<noteq> ''..''" using pl(3) by auto
  have sp: "split_char (CHR ''/'') (''/v1/leases/'' @ mac_string m) = [[], ''v1'', ''leases'', mac_string m]"
    using split_char_none [OF pl(1)] by simp
  have "last (mac_string m) \<noteq> CHR ''/''" using pl(1) ne last_in_set by metis
  then have "http_clean (''/v1/leases/'' @ mac_string m) = ''/v1/leases/'' @ mac_string m"
    using ne dots sp by (simp add: http_clean_def clean_path_def has_prefix_def Let_def)
  moreover have "segment_value (mac_string m) = mac_string m" "segment_value ''v1'' = ''v1''"
    "segment_value ''leases'' = ''leases''"
    using pl(2) by (simp_all add: segment_value_def path_unescape_plain)
  moreover have "mac_string m \<noteq> ''/''" using pl(1) by auto
  ultimately show ?thesis using sp ne by (simp add: control_request_def lease_segment_def)
qed

text \<open>Every other request leaves the server alone.\<close>

lemma control_request_cases:
  assumes "control_request e meth p s = Some (r, s')"
  obtains (untouched) "s' = s" and "r = Redirected \<or> r = Status 404 \<or> r = Status 405"
  | (handled) m code where "meth = ''DELETE''" and "lease_segment p = Some m" and "r = Status code"
      and "handle_lease_control e m s = Some (code, s')"
  using assms by (auto simp: control_request_def split: if_splits option.splits)

section \<open>The end of \<open>Run\<close>\<close>

text \<open>What the \<open>select\<close> saw: the context's end, the receive loop's error, or the control server's result.\<close>

datatype stop_event = Interrupted | ServeFailed error | ControlEnded "error option"

text \<open>\<open>last\<close> is what the control server still reports after \<open>cancelRun\<close>.\<close>

definition run_stop :: "bool \<Rightarrow> bool \<Rightarrow> error option \<Rightarrow> stop_event \<Rightarrow> error option" where
  "run_stop has_control ctx_done final ev =
     (case ev of
        ServeFailed e \<Rightarrow> Some (Wrap ''DHCP server'' e)
      | Interrupted \<Rightarrow> map_option (Wrap ''control server'') (if has_control then final else None)
      | ControlEnded c \<Rightarrow>
          map_option (Wrap ''control server'')
            (if c = None \<and> \<not> ctx_done then Some (Err ''stopped unexpectedly'') else c))"

text \<open>\<open>Run\<close> returns no error only when its context was cancelled.\<close>

lemma run_stop_clean:
  "run_stop has_control ctx_done final ev = None \<longleftrightarrow>
     ev = Interrupted \<and> (has_control \<longrightarrow> final = None) \<or> ev = ControlEnded None \<and> ctx_done"
  by (cases ev) (auto simp: run_stop_def)

end
