(* ===== verification/Platform_IP.thy ===== *)
theory Platform_IP
  imports Go_Prefix Go_Error "HOL-Library.Multiset"
begin

text \<open>
  \<open>platform/ip.go\<close>: the arithmetic of subnets. The lemmas give the exact list of addresses a
  pool is made of, and that containment of CIDRs is inclusion of their addresses.
\<close>

section \<open>The functions\<close>

definition ip4_to_uint32 :: "string \<Rightarrow> u32" where
  "ip4_to_uint32 s = (case parse_addr s of Some (A4 w) \<Rightarrow> w | _ \<Rightarrow> 0)"

text \<open>
  \<open>SortIPs\<close>. \<open>slices.SortFunc\<close> leaves the order of equal keys open; two IPv4 texts with equal keys
  are equal, so the order is only open among texts that are not IPv4 addresses.
\<close>

definition sort_ips :: "string list \<Rightarrow> string list" where
  "sort_ips ips = sort_key ip4_to_uint32 ips"

definition first_host_ip :: "string \<Rightarrow> string result" where
  "first_host_ip cidr =
     (case parse_prefix cidr of
        None \<Rightarrow> Inl (Err ''parse cidr'')
      | Some p \<Rightarrow>
          if \<not> is4 (prefix_addr p) then Inl (Err ''cidr is not IPv4'')
          else (case addr_next (prefix_addr (masked p)) of
                  None \<Rightarrow> Inl (Err ''cidr has no host IPs'')
                | Some a \<Rightarrow> Inr (addr_string a)))"

definition resolve_gateway :: "string \<Rightarrow> string \<Rightarrow> string result" where
  "resolve_gateway gateway cidr = (if gateway \<noteq> [] then Inr gateway else first_host_ip cidr)"

text \<open>The number of an address that \<open>As4\<close> accepts.\<close>

definition uint32_of :: "addr \<Rightarrow> u32" where
  "uint32_of a = (case a of A4 w \<Rightarrow> w | A6 w _ \<Rightarrow> ucast w)"

definition host_prefix :: "string \<Rightarrow> string \<Rightarrow> (prefix \<times> addr \<times> addr) result" where
  "host_prefix cidr gateway =
     (case parse_prefix cidr of
        None \<Rightarrow> Inl (Err ''parse cidr'')
      | Some p \<Rightarrow>
          if \<not> is4 (prefix_addr p) then Inl (Err ''cidr is not IPv4'')
          else (case parse_addr gateway of
                  None \<Rightarrow> Inl (Err ''parse gateway'')
                | Some gw \<Rightarrow>
                    if \<not> is4 gw then Inl (Err ''gateway is not IPv4'')
                    else
                      (let network = prefix_addr (masked p);
                           host_mask = push_bit (32 - prefix_bits p) 1 - 1;
                           bcast = A4 (uint32_of network OR host_mask)
                       in if \<not> prefix_contains p gw then Inl (Err ''gateway is outside cidr'')
                          else if gw = network \<or> gw = bcast
                          then Inl (Err ''gateway collides with network/broadcast'')
                          else Inr (p, gw, bcast))))"

definition addrs_left :: "addr option \<Rightarrow> nat" where
  "addrs_left a = (case a of
     None \<Rightarrow> 0 | Some (A4 w) \<Rightarrow> 2 ^ 32 - unat w | Some (A6 w _) \<Rightarrow> 2 ^ 128 - unat w)"

lemma addrs_left_next: "addrs_left (addr_next a) < addrs_left (Some a)"
proof (cases a)
  case (A4 w)
  have "unat w < 2 ^ 32" using unsigned_less [of w, where ?'a = nat] by simp
  moreover have "unat (w + 1) = unat w + 1" if "w + 1 \<noteq> 0" using that unatSuc [of w] by (simp add: add.commute)
  ultimately show ?thesis by (auto simp: A4 addrs_left_def addr_next_def)
next
  case (A6 w z)
  have "unat w < 2 ^ 128" using unsigned_less [of w, where ?'a = nat] by simp
  moreover have "unat (w + 1) = unat w + 1" if "w + 1 \<noteq> 0" using that unatSuc [of w] by (simp add: add.commute)
  ultimately show ?thesis by (auto simp: A6 addrs_left_def addr_next_def)
qed

text \<open>The loop of \<open>SubnetIPs\<close>; \<open>None\<close> is the invalid address that follows the last one.\<close>

function ips_loop :: "prefix \<Rightarrow> addr \<Rightarrow> addr \<Rightarrow> int \<Rightarrow> addr option \<Rightarrow> string list \<Rightarrow> string list" where
  "ips_loop p gw bcast cnt None ips = ips"
| "ips_loop p gw bcast cnt (Some a) ips =
     (if prefix_contains p a \<and> int (length ips) < cnt
      then ips_loop p gw bcast cnt (addr_next a)
             (if a = gw \<or> a = bcast then ips else ips @ [addr_string a])
      else ips)"
  by pat_completeness auto
termination
  by (relation "measure (\<lambda>(p, gw, bcast, cnt, a, ips). addrs_left a)") (auto simp: addrs_left_next)

definition subnet_ips :: "string \<Rightarrow> string \<Rightarrow> int \<Rightarrow> string list result" where
  "subnet_ips cidr gateway cnt =
     (case host_prefix cidr gateway of
        Inl e \<Rightarrow> Inl e
      | Inr (p, gw, bcast) \<Rightarrow>
          if cnt < 0 then Inl (Err ''pool size is negative'')
          else Inr (ips_loop p gw bcast cnt (addr_next (prefix_addr (masked p))) []))"

definition cidr_contains_cidr :: "string \<Rightarrow> string \<Rightarrow> bool result" where
  "cidr_contains_cidr outer_cidr inner_cidr =
     (case parse_prefix outer_cidr of
        None \<Rightarrow> Inl (Err ''parse outer cidr'')
      | Some op \<Rightarrow>
          (case parse_prefix inner_cidr of
             None \<Rightarrow> Inl (Err ''parse inner cidr'')
           | Some ip \<Rightarrow>
               if prefix_bits op > prefix_bits ip then Inr False
               else Inr (prefix_contains op (prefix_addr (masked ip)))))"

section \<open>Prefixes as blocks\<close>

lemma parse_prefixE:
  assumes "parse_prefix s = Some p" and "is4 (prefix_addr p)"
  obtains v n where "p = Prefix (A4 v) n" and "n \<le> 32"
  using assms parse_prefix_bits [of s] by (cases p; cases "prefix_addr p") (auto simp: is4_def bit_len_def)

lemma net4_block: "n \<le> 32 \<Longrightarrow> unat (net4 v n) + 2 ^ (32 - n) \<le> 2 ^ 32"
proof -
  assume n: "n \<le> 32"
  let ?S = "2 ^ (32 - n) :: nat"
  have pow: "(2::nat) ^ 32 = 2 ^ n * ?S" using n by (simp flip: power_add)
  have "unat v < 2 ^ n * ?S" using unsigned_less [of v, where ?'a = nat] unfolding pow [symmetric] by simp
  then have "unat v div ?S < 2 ^ n" by (simp add: less_mult_imp_div_less)
  then have "(unat v div ?S + 1) * ?S \<le> 2 ^ n * ?S" by (intro mult_le_mono1) simp
  then show ?thesis unfolding unat_net4 pow by simp
qed

lemma net4_aligned: "2 ^ (32 - n) dvd unat (net4 v n)"
  by (simp add: unat_net4)

lemma unat_mask: "k \<le> 32 \<Longrightarrow> unat (mask k :: u32) = 2 ^ k - 1"
proof -
  assume "k \<le> 32"
  then have "unat (mask k :: u32) = mask k"
    by (intro bit_eqI) (auto simp: bit_simps)
  then show ?thesis by (simp add: mask_eq_exp_minus_1)
qed

lemma bcast4:
  assumes "n \<le> 32"
  shows "unat (net4 v n OR (push_bit (32 - n) 1 - 1)) = unat (net4 v n) + (2 ^ (32 - n) - 1)"
proof -
  let ?m = "mask (32 - n) :: u32"
  have m: "push_bit (32 - n) 1 - 1 = ?m"
    by (simp add: mask_eq_exp_minus_1 push_bit_eq_mult)
  have "net4 v n AND ?m = 0"
    by (rule bit_word_eqI) (auto simp: net4_def bit_simps)
  then have "unat (net4 v n) AND unat ?m = 0" by (metis unsigned_0 unsigned_and_eq)
  then have "unat (net4 v n OR ?m) = unat (net4 v n) + unat ?m"
    by (simp add: unsigned_or_eq disjunctive_add_eq_or)
  then show ?thesis unfolding m by (simp add: unat_mask)
qed

section \<open>The list of hosts\<close>

text \<open>The address with a given number, past the end of the address space none.\<close>

definition at :: "nat \<Rightarrow> addr option" where
  "at k = (if k < 2 ^ 32 then Some (A4 (of_nat k)) else None)"

definition host_text :: "nat \<Rightarrow> string" where
  "host_text k = addr_string (A4 (of_nat k))"

lemma unat_of_nat_u32: "k < 2 ^ 32 \<Longrightarrow> unat (of_nat k :: u32) = k"
  by (simp add: unat_of_nat)

lemma A4_at: "Some (A4 w) = at (unat w)"
  using unsigned_less [of w, where ?'a = nat] by (simp add: at_def)

lemma next_at: "k < 2 ^ 32 \<Longrightarrow> addr_next (A4 (of_nat k)) = at (Suc k)"
proof -
  assume k: "k < 2 ^ 32"
  have "of_nat k + (1 :: u32) = 0 \<longleftrightarrow> \<not> Suc k < 2 ^ 32"
  proof -
    have "of_nat k + (1 :: u32) = of_nat (Suc k)" by simp
    also have "\<dots> = 0 \<longleftrightarrow> \<not> Suc k < 2 ^ 32"
      using k unat_of_nat_u32 [of "Suc k"]
      by (cases "Suc k = 2 ^ 32") (auto simp: word_unat_eq_iff unat_of_nat)
    finally show ?thesis .
  qed
  then show ?thesis by (simp add: addr_next_def at_def add.commute)
qed

lemma contains_at:
  "k < 2 ^ 32 \<Longrightarrow> prefix_contains (Prefix (A4 v) n) (A4 (of_nat k)) \<longleftrightarrow>
   unat (net4 v n) \<le> k \<and> k < unat (net4 v n) + 2 ^ (32 - n)"
  unfolding contains_net4 by (simp add: unat_of_nat_u32)

lemma ips_loop_v4:
  assumes n: "n \<le> 32" and lo: "unat (net4 v n) \<le> k" and hi: "k \<le> unat (net4 v n) + 2 ^ (32 - n)"
  shows "ips_loop (Prefix (A4 v) n) gw bc (int c) (at k) ips =
    ips @ map host_text (take (c - length ips)
      (filter (\<lambda>i. at i \<noteq> Some gw \<and> at i \<noteq> Some bc) [k..<unat (net4 v n) + 2 ^ (32 - n)]))"
  using lo hi
proof (induction "unat (net4 v n) + 2 ^ (32 - n) - k" arbitrary: k ips)
  case 0
  then have k: "k = unat (net4 v n) + 2 ^ (32 - n)" by simp
  have "\<not> prefix_contains (Prefix (A4 v) n) (A4 (of_nat k))" if "k < 2 ^ 32"
    unfolding contains_at [OF that] using k by simp
  then show ?case using k by (auto simp: at_def)
next
  case (Suc d)
  let ?E = "unat (net4 v n) + 2 ^ (32 - n)"
  have lt: "k < ?E" using Suc.hyps(2) by simp
  then have k: "k < 2 ^ 32" using net4_block [OF n, of v] by linarith
  have c: "prefix_contains (Prefix (A4 v) n) (A4 (of_nat k))"
    unfolding contains_at [OF k] using Suc.prems lt by simp
  have IH: "ips_loop (Prefix (A4 v) n) gw bc (int c) (at (Suc k)) xs = xs @ map host_text (take (c - length xs)
      (filter (\<lambda>i. at i \<noteq> Some gw \<and> at i \<noteq> Some bc) [Suc k..<?E]))" for xs
    using Suc.hyps(2) Suc.prems lt by (intro Suc.hyps(1)) simp_all
  have up: "[k..<?E] = k # [Suc k..<?E]" using lt by (simp add: upt_conv_Cons)
  have at: "at k = Some (A4 (of_nat k))" using k by (simp add: at_def)
  show ?case
  proof (cases "length ips < c")
    case False
    then show ?thesis by (simp add: at)
  next
    case True
    then have "c - length ips = Suc (c - length (ips @ [x]))" for x by simp
    then show ?thesis using True c unfolding up
      by (auto simp: at next_at [OF k] IH host_text_def)
  qed
qed

lemma host_prefix_ok:
  assumes "host_prefix cidr gateway = Inr (p, gw, bc)"
  obtains v n g b where "parse_prefix cidr = Some (Prefix (A4 v) n)" and "parse_addr gateway = Some (A4 g)"
    and "p = Prefix (A4 v) n" and "gw = A4 g" and "bc = A4 b" and "n \<le> 30"
    and "unat (net4 v n) < unat g" and "unat g < unat b" and "unat b = unat (net4 v n) + (2 ^ (32 - n) - 1)"
proof -
  from assms have p: "parse_prefix cidr = Some p" "is4 (prefix_addr p)" and
    g0: "parse_addr gateway = Some gw" "is4 gw"
    by (auto simp: host_prefix_def Let_def split: option.splits if_splits)
  obtain v n where v: "p = Prefix (A4 v) n" "n \<le> 32" using parse_prefixE [OF p] .
  obtain g where g: "gw = A4 g" using g0(2) by (cases gw) (auto simp: is4_def)
  define b where "b = net4 v n OR (push_bit (32 - n) 1 - 1)"
  have b: "bc = A4 b" "prefix_contains (Prefix (A4 v) n) (A4 g)" "g \<noteq> net4 v n" "g \<noteq> b"
    using assms p g0 v g
    by (auto simp: host_prefix_def Let_def masked_v4 uint32_of_def b_def split: option.splits if_splits)
  have ub: "unat b = unat (net4 v n) + (2 ^ (32 - n) - 1)" using bcast4 [OF v(2)] by (simp add: b_def)
  have le: "unat (net4 v n) \<le> unat g" "unat g < unat (net4 v n) + 2 ^ (32 - n)"
    using b(2) unfolding contains_net4 by auto
  moreover have "unat g \<noteq> unat (net4 v n)" "unat g \<noteq> unat b" using b(3,4) by (simp_all add: word_unat_eq_iff)
  ultimately have lt: "unat (net4 v n) < unat g" "unat g < unat b" using ub by linarith+
  have "\<not> n > 30"
  proof
    assume "n > 30"
    then have "32 - n \<le> 1" by simp
    then have "(2::nat) ^ (32 - n) \<le> 2 ^ 1" by (intro power_increasing) simp_all
    with lt ub show False by simp
  qed
  then show thesis using that p g0 v g b ub lt by auto
qed

text \<open>The numbers of the hosts a pool is made of: between network and broadcast, without the gateway.\<close>

definition host_numbers :: "u32 \<Rightarrow> nat \<Rightarrow> u32 \<Rightarrow> nat list" where
  "host_numbers v n g = filter (\<lambda>i. i \<noteq> unat g)
     [unat (net4 v n) + 1..<unat (net4 v n) + (2 ^ (32 - n) - 1)]"

lemma subnet_ips_eq:
  assumes hp: "host_prefix cidr gateway = Inr (Prefix (A4 v) n, A4 g, bc)" and c: "0 \<le> cnt"
  shows "subnet_ips cidr gateway cnt = Inr (map host_text (take (nat cnt) (host_numbers v n g)))"
proof -
  obtain b where b: "bc = A4 b" "n \<le> 30" "unat b = unat (net4 v n) + (2 ^ (32 - n) - 1)"
    "unat (net4 v n) < unat g" "unat g < unat b"
    by (rule host_prefix_ok [OF hp]) auto
  let ?N = "unat (net4 v n)" and ?S = "2 ^ (32 - n) :: nat"
  have N: "?N < 2 ^ 32" using unsigned_less [of "net4 v n", where ?'a = nat] by simp
  have next0: "addr_next (A4 (net4 v n)) = at (Suc ?N)" using next_at [OF N] by simp
  have S: "?S > 1" using b(2) one_less_power [of "2::nat" "32 - n"] by simp
  have up: "[Suc ?N..<?N + ?S] = [?N + 1..<?N + (?S - 1)] @ [?N + (?S - 1)]"
  proof -
    have "?N + ?S = Suc (?N + (?S - 1))" using S by simp
    then show ?thesis using S upt_Suc_append [of "Suc ?N" "?N + (?S - 1)"] by simp
  qed
  have "filter (\<lambda>i. at i \<noteq> Some (A4 g) \<and> at i \<noteq> Some bc) [Suc ?N..<?N + ?S] = host_numbers v n g"
  proof -
    have at: "at i = Some (A4 w) \<longleftrightarrow> i = unat w" if "i < 2 ^ 32" for i w
      using that by (auto simp: at_def word_unat_eq_iff unat_of_nat_u32)
    have lt: "i < 2 ^ 32" if "i < ?N + ?S" for i using that net4_block [of n v] b(2) by linarith
    have "filter (\<lambda>i. at i \<noteq> Some (A4 g) \<and> at i \<noteq> Some bc) [Suc ?N..<?N + ?S] =
        filter (\<lambda>i. i \<noteq> unat g \<and> i \<noteq> unat b) [Suc ?N..<?N + ?S]"
      using at lt b(1) by (intro filter_cong) auto
    also have "\<dots> = host_numbers v n g"
      unfolding up host_numbers_def using b(3) by (auto intro!: filter_cong)
    finally show ?thesis .
  qed
  then show ?thesis
    using ips_loop_v4 [of n v "Suc ?N" "A4 g" bc "nat cnt" "[]"] b(2) c S
    by (simp add: subnet_ips_def hp masked_v4 next0)
qed

lemma host_numbers_bounds:
  assumes "i \<in> set (host_numbers v n g)"
  shows "unat (net4 v n) < i" "i < unat (net4 v n) + (2 ^ (32 - n) - 1)" "i \<noteq> unat g"
  using assms by (auto simp: host_numbers_def)

lemma host_numbers_u32: "n \<le> 32 \<Longrightarrow> i \<in> set (host_numbers v n g) \<Longrightarrow> i < 2 ^ 32"
  using host_numbers_bounds(2) [of i v n g] net4_block [of n v] by linarith

lemma length_filter_neq:
  "distinct xs \<Longrightarrow> x \<in> set xs \<Longrightarrow> length (filter (\<lambda>i. i \<noteq> x) xs) = length xs - 1"
  using distinct_remove1_removeAll [of xs x] length_remove1 [of x xs]
  by (simp add: removeAll_filter_not_eq eq_commute [of x])

lemma length_host_numbers:
  assumes "unat (net4 v n) < unat g" and "unat g < unat (net4 v n) + (2 ^ (32 - n) - 1)"
  shows "length (host_numbers v n g) = 2 ^ (32 - n) - 3"
  unfolding host_numbers_def using assms by (subst length_filter_neq) auto

lemma host_text_inj: "inj_on host_text {..<2 ^ 32}"
  by (rule inj_onI) (auto simp: host_text_def word_unat_eq_iff unat_of_nat_u32)

lemma host_prefix_some:
  assumes "parse_prefix cidr = Some (Prefix (A4 v) n)" and "parse_addr gateway = Some (A4 g)"
    and "unat (net4 v n) < unat g" and "unat g < unat (net4 v n) + (2 ^ (32 - n) - 1)"
  shows "\<exists>bc. host_prefix cidr gateway = Inr (Prefix (A4 v) n, A4 g, bc)"
proof -
  have n: "n \<le> 32" using parse_prefix_bits [OF assms(1)] by (simp add: bit_len_def)
  let ?b = "net4 v n OR (push_bit (32 - n) 1 - 1)"
  have "prefix_contains (Prefix (A4 v) n) (A4 g)" using assms(3,4) unfolding contains_net4 by simp
  moreover have "g \<noteq> net4 v n" "g \<noteq> ?b" using assms(3,4) bcast4 [OF n, of v] by auto
  ultimately show ?thesis using assms(1,2)
    by (simp add: host_prefix_def is4_def masked_v4 uint32_of_def Let_def)
qed

section \<open>Properties\<close>

text \<open>
  C21. The pool of a subnet. A successful call returns, in numeric order, the first \<open>count\<close> host
  addresses of an IPv4 prefix: texts of addresses inside the prefix, none of them the network, the
  broadcast or the gateway address, without repetition, and as many as asked for unless the prefix
  runs out.
\<close>

theorem subnet_ips_hosts:
  assumes "subnet_ips cidr gateway cnt = Inr ips"
  shows "\<exists>v n g. parse_prefix cidr = Some (Prefix (A4 v) n) \<and> parse_addr gateway = Some (A4 g) \<and>
    ips = map host_text (take (nat cnt) (host_numbers v n g)) \<and>
    distinct ips \<and> int (length ips) = min cnt (2 ^ (32 - n) - 3) \<and>
    (\<forall>ip \<in> set ips. \<exists>w. ip = addr_string (A4 w) \<and> prefix_contains (Prefix (A4 v) n) (A4 w) \<and>
       w \<noteq> g \<and> unat (net4 v n) < unat w \<and> unat w < unat (net4 v n) + (2 ^ (32 - n) - 1))"
proof -
  from assms obtain p gw bc where hp: "host_prefix cidr gateway = Inr (p, gw, bc)" and c: "0 \<le> cnt"
    by (auto simp: subnet_ips_def split: sum.splits if_splits)
  obtain v n g b where v: "parse_prefix cidr = Some (Prefix (A4 v) n)" "parse_addr gateway = Some (A4 g)"
    "p = Prefix (A4 v) n" "gw = A4 g" "bc = A4 b" "n \<le> 30" "unat (net4 v n) < unat g" "unat g < unat b"
    "unat b = unat (net4 v n) + (2 ^ (32 - n) - 1)"
    by (rule host_prefix_ok [OF hp]) blast
  have ips: "ips = map host_text (take (nat cnt) (host_numbers v n g))"
    using subnet_ips_eq [OF _ c, of cidr gateway v n g bc] hp v(3,4) assms by simp
  have n: "n \<le> 32" using v(6) by simp
  have "distinct ips"
    unfolding ips distinct_map using host_numbers_u32 [OF n] host_text_inj
    by (auto simp: host_numbers_def intro: inj_on_subset dest!: in_set_takeD)
  moreover have "int (length ips) = min cnt (2 ^ (32 - n) - 3)"
  proof -
    have "(2::nat) ^ 2 \<le> 2 ^ (32 - n)" using v(6) by (intro power_increasing) auto
    then have "int (2 ^ (32 - n) - 3) = 2 ^ (32 - n) - 3" by (simp add: of_nat_diff)
    moreover have "length ips = min (2 ^ (32 - n) - 3) (nat cnt)"
      using v(7-9) by (simp add: ips length_host_numbers)
    then have "int (length ips) = min (int (2 ^ (32 - n) - 3)) (int (nat cnt))" by (simp only: of_nat_min)
    ultimately show ?thesis using c by (simp add: min.commute)
  qed
  moreover have "\<exists>w. ip = addr_string (A4 w) \<and> prefix_contains (Prefix (A4 v) n) (A4 w) \<and>
       w \<noteq> g \<and> unat (net4 v n) < unat w \<and> unat w < unat (net4 v n) + (2 ^ (32 - n) - 1)"
    if "ip \<in> set ips" for ip
  proof -
    obtain i where i: "i \<in> set (host_numbers v n g)" "ip = host_text i"
      using \<open>ip \<in> set ips\<close> unfolding ips by (auto dest: in_set_takeD)
    then have "unat (of_nat i :: u32) = i" using host_numbers_u32 [OF n] unat_of_nat_u32 by blast
    with i host_numbers_bounds [OF i(1)] show ?thesis
      by (intro exI [of _ "of_nat i"]) (auto simp: host_text_def contains_net4)
  qed
  ultimately show ?thesis using v ips by blast
qed

theorem subnet_ips_hosts_witness:
  "\<exists>ips. subnet_ips ''10.0.0.77/29'' ''10.0.0.74'' 3 = Inr ips \<and> distinct ips \<and>
     ips = [''10.0.0.73'', ''10.0.0.75'', ''10.0.0.76'']"
proof -
  have "subnet_ips ''10.0.0.77/29'' ''10.0.0.74'' 3 = Inr [''10.0.0.73'', ''10.0.0.75'', ''10.0.0.76'']"
    by code_simp
  from subnet_ips_hosts [OF this] this show ?thesis by blast
qed


text \<open>
  C23. The default gateway works. For every IPv4 prefix up to /30 the gateway that is resolved when none
  is configured, the first host, is accepted, and the pool starts right after it.
\<close>

theorem default_gateway_pool:
  assumes pf: "parse_prefix cidr = Some (Prefix (A4 v) n)" and n: "n \<le> 30" and c: "0 \<le> cnt"
  shows "\<exists>gw. resolve_gateway [] cidr = Inr gw \<and> subnet_ips cidr gw cnt =
    Inr (map host_text (take (nat cnt) [unat (net4 v n) + 2..<unat (net4 v n) + (2 ^ (32 - n) - 1)]))"
proof -
  let ?N = "unat (net4 v n)" and ?S = "2 ^ (32 - n) :: nat"
  have S: "?S \<ge> 4" using n power_increasing [of 2 "32 - n" "2::nat"] by simp
  have lt: "Suc ?N < 2 ^ 32" using net4_block [of n v] n S by linarith
  let ?g = "of_nat (Suc ?N) :: u32"
  have g: "unat ?g = Suc ?N" using unat_of_nat_u32 [OF lt] .
  have gw: "resolve_gateway [] cidr = Inr (addr_string (A4 ?g))"
    using pf next_at [of ?N] lt
    by (simp add: resolve_gateway_def first_host_ip_def is4_def masked_v4 at_def)
  obtain bc where hp: "host_prefix cidr (addr_string (A4 ?g)) = Inr (Prefix (A4 v) n, A4 ?g, bc)"
  proof -
    have "Suc ?N < ?N + (?S - 1)" using S by linarith
    then show thesis using that host_prefix_some [OF pf parse_addr_v4, of ?g] g by auto
  qed
  have up: "[?N + 1..<?N + (?S - 1)] = Suc ?N # [?N + 2..<?N + (?S - 1)]"
    using S upt_conv_Cons [of "?N + 1" "?N + (?S - 1)"] by simp
  have "host_numbers v n ?g = [?N + 2..<?N + (?S - 1)]"
    unfolding host_numbers_def up g by (auto simp: filter_id_conv)
  then show ?thesis using subnet_ips_eq [OF hp c] gw by auto
qed

theorem default_gateway_pool_witness:
  "\<exists>gw. resolve_gateway [] ''192.168.1.0/30'' = Inr gw \<and> subnet_ips ''192.168.1.0/30'' gw 8 = Inr [''192.168.1.2'']"
proof -
  have pf: "parse_prefix ''192.168.1.0/30'' = Some (Prefix (A4 (be32 192 168 1 0)) 30)" by code_simp
  have n: "unat (net4 (be32 192 168 1 0) 30) = 3232235776"
    by (simp add: net4_def be32_def mask_eq_exp_minus_1)
  show ?thesis using default_gateway_pool [OF pf, of 8] unfolding n
    by (simp add: host_text_def addr_string_def be32_bytes_def dec.simps digit_char_def upt_conv_Cons)
qed

text \<open>
  Containment of CIDRs is inclusion of addresses: for IPv4 prefixes the answer is true exactly when
  every address of the inner prefix is in the outer one, whatever host bits the texts carry.
\<close>

theorem cidr_contains_iff:
  assumes o: "parse_prefix outer_cidr = Some (Prefix (A4 v) n)"
    and i: "parse_prefix inner_cidr = Some (Prefix (A4 u) m)"
  shows "\<exists>b. cidr_contains_cidr outer_cidr inner_cidr = Inr b \<and>
    (b \<longleftrightarrow> (\<forall>w. prefix_contains (Prefix (A4 u) m) (A4 w) \<longrightarrow> prefix_contains (Prefix (A4 v) n) (A4 w)))"
proof (cases "n \<le> m")
  case True
  have m: "m \<le> 32" using parse_prefix_bits [OF i] by (simp add: bit_len_def)
  let ?Sn = "2 ^ (32 - n) :: nat" and ?Sm = "2 ^ (32 - m) :: nat"
  have "?Sn = ?Sm * 2 ^ (m - n)" using True m by (simp flip: power_add)
  then have d: "x div ?Sn = x div ?Sm div 2 ^ (m - n)" for x by (simp add: div_mult2_eq)
  have net: "unat (net4 u m) div ?Sm = unat u div ?Sm" by (simp add: unat_net4)
  have "prefix_contains (Prefix (A4 v) n) (A4 (net4 u m)) \<longleftrightarrow>
      (\<forall>w. prefix_contains (Prefix (A4 u) m) (A4 w) \<longrightarrow> prefix_contains (Prefix (A4 v) n) (A4 w))"
    unfolding contains_v4 d net using net by metis
  then show ?thesis using o i True by (simp add: cidr_contains_cidr_def masked_v4)
next
  case False
  have n: "n \<le> 32" and m: "m \<le> 32" using parse_prefix_bits [OF o] parse_prefix_bits [OF i] by (simp_all add: bit_len_def)
  let ?Sn = "2 ^ (32 - n) :: nat" and ?Sm = "2 ^ (32 - m) :: nat"
  let ?N = "unat (net4 u m)"
  have lt: "?Sn < ?Sm" using False n by (intro power_strict_increasing) simp_all
  then have b: "?N + ?Sn < 2 ^ 32" using net4_block [OF m, of u] by linarith
  let ?w = "of_nat (?N + ?Sn) :: u32"
  have w: "unat ?w = ?N + ?Sn" using unat_of_nat_u32 [OF b] .
  have "prefix_contains (Prefix (A4 u) m) (A4 (net4 u m))" "prefix_contains (Prefix (A4 u) m) (A4 ?w)"
    unfolding contains_net4 w using lt by simp_all
  moreover have "\<not> (prefix_contains (Prefix (A4 v) n) (A4 (net4 u m)) \<and> prefix_contains (Prefix (A4 v) n) (A4 ?w))"
    unfolding contains_v4 w by (simp add: div_add_self2)
  ultimately show ?thesis using o i False by (auto simp: cidr_contains_cidr_def)
qed

theorem cidr_contains_iff_witness:
  "\<exists>b. cidr_contains_cidr ''10.1.0.0/16'' ''10.1.255.9/24'' = Inr b \<and> b"
proof -
  have o: "parse_prefix ''10.1.0.0/16'' = Some (Prefix (A4 (be32 10 1 0 0)) 16)" by code_simp
  have i: "parse_prefix ''10.1.255.9/24'' = Some (Prefix (A4 (be32 10 1 255 9)) 24)" by code_simp
  have "cidr_contains_cidr ''10.1.0.0/16'' ''10.1.255.9/24'' = Inr True" by code_simp
  with cidr_contains_iff [OF o i] show ?thesis by auto
qed

lemma ip4_key [simp]: "ip4_to_uint32 (addr_string (A4 w)) = w"
  by (simp add: ip4_to_uint32_def)

text \<open>
  Sorting is determined. Whatever algorithm sorts a list of IPv4 texts by their numbers, its result
  is the one of \<open>SortIPs\<close>; it is a permutation of the input, in increasing numeric order.
\<close>

theorem sort_ips_unique:
  assumes v4: "\<forall>ip \<in> set ips. \<exists>w. ip = addr_string (A4 w)"
  shows "sort_ips ips = ys \<longleftrightarrow> mset ys = mset ips \<and> sorted (map ip4_to_uint32 ys)"
proof
  assume "sort_ips ips = ys"
  then show "mset ys = mset ips \<and> sorted (map ip4_to_uint32 ys)" by (auto simp: sort_ips_def)
next
  assume ys: "mset ys = mset ips \<and> sorted (map ip4_to_uint32 ys)"
  have "inj_on ip4_to_uint32 (set ips)"
  proof (rule inj_onI)
    fix x y assume xy: "x \<in> set ips" "y \<in> set ips" "ip4_to_uint32 x = ip4_to_uint32 y"
    obtain a b where "x = addr_string (A4 a)" "y = addr_string (A4 b)" using v4 xy by meson
    with xy(3) show "x = y" by simp
  qed
  then show "sort_ips ips = ys" using ys by (auto simp: sort_ips_def intro: sort_key_inj_key_eq)
qed

theorem sort_ips_unique_witness:
  "sort_ips [''10.0.0.10'', ''10.0.0.9''] = [''10.0.0.9'', ''10.0.0.10'']"
proof -
  have 9: "''10.0.0.9'' = addr_string (A4 (be32 10 0 0 9))" by code_simp
  have 10: "''10.0.0.10'' = addr_string (A4 (be32 10 0 0 10))" by code_simp
  have v4: "\<forall>ip \<in> set [''10.0.0.10'', ''10.0.0.9'']. \<exists>w. ip = addr_string (A4 w)"
    using 9 10 by auto
  have "be32 10 0 0 9 \<le> be32 10 0 0 10" by code_simp
  then have "sorted (map ip4_to_uint32 [''10.0.0.9'', ''10.0.0.10''])" by (simp add: 9 10)
  then show ?thesis unfolding sort_ips_unique [OF v4] by simp
qed

end
