(* ===== verification/Pool_State.thy ===== *)
theory Pool_State
  imports Host Go_Json Go_Time
begin

text \<open>
  \<open>pool/pool.go\<close>: the pool state and its file \<open>pool.json\<close>. A nil and an empty slice are the same
  list here; they print differently and decode alike. The lemmas show that loading a saved state gives
  it back, and that a failed save leaves the old file.
\<close>

section \<open>The state\<close>

record pool_state =
  ps_platform :: string
  ps_node_name :: string
  ps_subnet :: string
  ps_gateway :: string
  ps_primary_nic :: string
  ps_state_dir :: path
  ps_secondary_nics :: "string list"
  ps_ips :: "string list"
  ps_eni_ids :: "string list"
  ps_alias_range_name :: string
  ps_dns_servers :: "string list"
  ps_drop_internal :: bool
  ps_drop_cidrs :: "string list"
  ps_updated_at :: time

definition zero_state :: pool_state where
  "zero_state = \<lparr>ps_platform = [], ps_node_name = [], ps_subnet = [], ps_gateway = [], ps_primary_nic = [],
     ps_state_dir = [], ps_secondary_nics = [], ps_ips = [], ps_eni_ids = [], ps_alias_range_name = [],
     ps_dns_servers = [], ps_drop_internal = False, ps_drop_cidrs = [], ps_updated_at = zero_time\<rparr>"

definition pool_file_name :: string where "pool_file_name = ''pool.json''"
definition pool_file_perm :: file_mode where "pool_file_perm = 420"

section \<open>Its JSON\<close>

text \<open>Members with \<open>omitempty\<close>.\<close>

definition opt_str :: "string \<Rightarrow> string \<Rightarrow> (string \<times> json) list" where
  "opt_str k s = (if s = [] then [] else [(k, JStr s)])"

definition opt_strs :: "string \<Rightarrow> string list \<Rightarrow> (string \<times> json) list" where
  "opt_strs k ss = (if ss = [] then [] else [(k, JArr (map JStr ss))])"

definition opt_bool :: "string \<Rightarrow> bool \<Rightarrow> (string \<times> json) list" where
  "opt_bool k b = (if b then [(k, JBool b)] else [])"

definition pool_members :: "pool_state \<Rightarrow> (string \<times> json) list" where
  "pool_members s =
     [(''platform'', JStr (ps_platform s)), (''nodeName'', JStr (ps_node_name s)),
      (''subnet'', JStr (ps_subnet s)), (''gateway'', JStr (ps_gateway s))] @
     opt_str ''primaryNIC'' (ps_primary_nic s) @
     opt_strs ''secondaryNICs'' (ps_secondary_nics s) @
     [(''ips'', if ps_ips s = [] then JNull else JArr (map JStr (ps_ips s)))] @
     opt_strs ''eniIDs'' (ps_eni_ids s) @
     opt_str ''aliasRangeName'' (ps_alias_range_name s) @
     opt_strs ''dnsServers'' (ps_dns_servers s) @
     opt_bool ''dropInternalAccess'' (ps_drop_internal s) @
     opt_strs ''dropCIDRs'' (ps_drop_cidrs s) @
     [(''updatedAt'', JStr (format_rfc3339_nano 0 (ps_updated_at s)))]"

text \<open>Marshalling fails for a time outside the years 0 to 9999.\<close>

definition pool_data :: "pool_state \<Rightarrow> string option" where
  "pool_data s = (if year_ok 0 (ps_updated_at s) then Some (json_marshal_indent (JObj (pool_members s))) else None)"

definition json_time :: "json \<Rightarrow> time \<Rightarrow> time option" where
  "json_time v cur = (case v of JStr s \<Rightarrow> parse_rfc3339 s | JNull \<Rightarrow> Some cur | _ \<Rightarrow> None)"

definition decode_pool :: "(string \<times> json) list \<Rightarrow> pool_state option" where
  "decode_pool ms =
     do { platform \<leftarrow> decode_field json_string ''platform'' ms [];
          node_name \<leftarrow> decode_field json_string ''nodeName'' ms [];
          subnet \<leftarrow> decode_field json_string ''subnet'' ms [];
          gateway \<leftarrow> decode_field json_string ''gateway'' ms [];
          primary \<leftarrow> decode_field json_string ''primaryNIC'' ms [];
          nics \<leftarrow> decode_field string_slice ''secondaryNICs'' ms [];
          ips \<leftarrow> decode_field string_slice ''ips'' ms [];
          enis \<leftarrow> decode_field string_slice ''eniIDs'' ms [];
          alias \<leftarrow> decode_field json_string ''aliasRangeName'' ms [];
          dns \<leftarrow> decode_field string_slice ''dnsServers'' ms [];
          drop_int \<leftarrow> decode_field json_bool ''dropInternalAccess'' ms False;
          cidrs \<leftarrow> decode_field string_slice ''dropCIDRs'' ms [];
          upd \<leftarrow> decode_field json_time ''updatedAt'' ms zero_time;
          Some \<lparr>ps_platform = platform, ps_node_name = node_name, ps_subnet = subnet, ps_gateway = gateway,
            ps_primary_nic = primary, ps_state_dir = [], ps_secondary_nics = nics, ps_ips = ips,
            ps_eni_ids = enis, ps_alias_range_name = alias, ps_dns_servers = dns, ps_drop_internal = drop_int,
            ps_drop_cidrs = cidrs, ps_updated_at = upd\<rparr> }"

definition parse_pool :: "string \<Rightarrow> pool_state option" where
  "parse_pool data = do { v \<leftarrow> json_parse data; ms \<leftarrow> members_of v; decode_pool ms }"

section \<open>Save, load, delete\<close>

definition pool_path :: "path \<Rightarrow> path" where
  "pool_path dir = join_path [dir, pool_file_name]"

definition pool_save :: "'c driver \<Rightarrow> pool_state \<Rightarrow> ('c, error option) io" where
  "pool_save drv s h =
     (case ext_call (dr_mkdir drv (ps_state_dir s)) h of
        (False, h1) \<Rightarrow> (Some (Err ''create state dir''), h1)
      | (True, h1) \<Rightarrow>
          (case pool_data (s\<lparr>ps_updated_at := dr_now drv (h_ext h1)\<rparr>) of
             None \<Rightarrow> (Some (Err ''marshal pool state''), h1)
           | Some data \<Rightarrow>
               (case replace_file drv (pool_path (ps_state_dir s)) data pool_file_perm h1 of
                  (False, h2) \<Rightarrow> (Some (Err ''save pool state''), h2)
                | (True, h2) \<Rightarrow> (None, h2))))"

definition pool_delete :: "'c driver \<Rightarrow> pool_state \<Rightarrow> ('c, error option) io" where
  "pool_delete drv s h =
     (case remove_file drv (pool_path (ps_state_dir s)) h of
        (r, h') \<Rightarrow> (if r = RemoveFailed then Some (Err ''remove pool state'') else None, h'))"

definition pool_load :: "'c driver \<Rightarrow> path \<Rightarrow> 'c host \<Rightarrow> pool_state result" where
  "pool_load drv dir h =
     (case read_file drv (pool_path dir) h of
        FileData data \<Rightarrow>
          (case parse_pool data of
             None \<Rightarrow> Inl (Err ''parse pool state'')
           | Some s \<Rightarrow> Inr (s\<lparr>ps_state_dir := dir\<rparr>))
      | _ \<Rightarrow> Inl (Err ''read pool state''))"

section \<open>Decoding what was printed\<close>

definition pool_keys_json :: "string list" where
  "pool_keys_json = [''platform'', ''nodeName'', ''subnet'', ''gateway'', ''primaryNIC'', ''secondaryNICs'', ''ips'',
     ''eniIDs'', ''aliasRangeName'', ''dnsServers'', ''dropInternalAccess'', ''dropCIDRs'', ''updatedAt'']"

lemma field_is_pool:
  assumes "a \<in> set pool_keys_json" and "b \<in> set pool_keys_json"
  shows "field_is a b \<longleftrightarrow> b = a"
proof -
  have "map (map lower_ascii) pool_keys_json = [''platform'', ''nodename'', ''subnet'', ''gateway'', ''primarynic'',
     ''secondarynics'', ''ips'', ''eniids'', ''aliasrangename'', ''dnsservers'', ''dropinternalaccess'', ''dropcidrs'',
     ''updatedat'']" by code_simp
  then have "distinct (map (map lower_ascii) pool_keys_json)" by simp
  then have "inj_on (map lower_ascii) (set pool_keys_json)" by (simp add: distinct_map)
  with assms show ?thesis by (auto simp: field_is_def dest: inj_onD)
qed

lemma decode_field_append:
  "decode_field dc name (xs @ ys) cur = Option.bind (decode_field dc name xs cur) (decode_field dc name ys)"
  by (induction dc name xs cur rule: decode_field.induct) (auto split: option.splits bind_splits)

lemma decode_opt:
  "a \<in> set pool_keys_json \<Longrightarrow> b \<in> set pool_keys_json \<Longrightarrow> a \<noteq> b \<Longrightarrow> decode_field dc a (opt_str b s) cur = Some cur"
  "a \<in> set pool_keys_json \<Longrightarrow> b \<in> set pool_keys_json \<Longrightarrow> a \<noteq> b \<Longrightarrow> decode_field dc a (opt_strs b ss) cur = Some cur"
  "a \<in> set pool_keys_json \<Longrightarrow> b \<in> set pool_keys_json \<Longrightarrow> a \<noteq> b \<Longrightarrow> decode_field dc a (opt_bool b t) cur = Some cur"
  "a \<in> set pool_keys_json \<Longrightarrow> decode_field json_string a (opt_str a s) [] = Some s"
  "a \<in> set pool_keys_json \<Longrightarrow> decode_field string_slice a (opt_strs a ss) [] = Some ss"
  "a \<in> set pool_keys_json \<Longrightarrow> decode_field json_bool a (opt_bool a t) False = Some t"
  by (auto simp: opt_str_def opt_strs_def opt_bool_def field_is_pool json_string_def json_bool_def)

lemma decode_one:
  "a \<in> set pool_keys_json \<Longrightarrow> b \<in> set pool_keys_json \<Longrightarrow> a \<noteq> b \<Longrightarrow> decode_field dc a [(b, v)] cur = Some cur"
  "a \<in> set pool_keys_json \<Longrightarrow> decode_field dc a [(a, v)] cur = dc v cur"
  by (auto simp: field_is_pool) (cases "dc v cur"; simp)

lemma decode_pool_members:
  assumes "year_ok 0 (ps_updated_at s)"
  shows "decode_pool (pool_members s) = Some (s\<lparr>ps_state_dir := []\<rparr>)"
proof -
  have split: "pool_members s =
     [(''platform'', JStr (ps_platform s))] @ [(''nodeName'', JStr (ps_node_name s))] @
     [(''subnet'', JStr (ps_subnet s))] @ [(''gateway'', JStr (ps_gateway s))] @
     opt_str ''primaryNIC'' (ps_primary_nic s) @
     opt_strs ''secondaryNICs'' (ps_secondary_nics s) @
     [(''ips'', if ps_ips s = [] then JNull else JArr (map JStr (ps_ips s)))] @
     opt_strs ''eniIDs'' (ps_eni_ids s) @
     opt_str ''aliasRangeName'' (ps_alias_range_name s) @
     opt_strs ''dnsServers'' (ps_dns_servers s) @
     opt_bool ''dropInternalAccess'' (ps_drop_internal s) @
     opt_strs ''dropCIDRs'' (ps_drop_cidrs s) @
     [(''updatedAt'', JStr (format_rfc3339_nano 0 (ps_updated_at s)))]"
    by (simp add: pool_members_def)
  have k: "''platform'' \<in> set pool_keys_json" "''nodeName'' \<in> set pool_keys_json" "''subnet'' \<in> set pool_keys_json"
    "''gateway'' \<in> set pool_keys_json" "''primaryNIC'' \<in> set pool_keys_json" "''secondaryNICs'' \<in> set pool_keys_json"
    "''ips'' \<in> set pool_keys_json" "''eniIDs'' \<in> set pool_keys_json" "''aliasRangeName'' \<in> set pool_keys_json"
    "''dnsServers'' \<in> set pool_keys_json" "''dropInternalAccess'' \<in> set pool_keys_json"
    "''dropCIDRs'' \<in> set pool_keys_json" "''updatedAt'' \<in> set pool_keys_json"
    by (simp_all add: pool_keys_json_def)
  have time: "parse_rfc3339 (format_rfc3339_nano 0 (ps_updated_at s)) = Some (ps_updated_at s)"
    by (rule parse_format_nano) (use assms in \<open>simp_all add: offset_ok_def\<close>)
  have ips: "string_slice (if xs = [] then JNull else JArr (map JStr xs)) [] = Some xs" for xs
    by (simp add: string_slice_def json_string_slice_def)
  show ?thesis
    unfolding decode_pool_def split decode_field_append
    by (simp only: decode_one decode_opt k bind.bind_lunit list.inject char.inject list.distinct simp_thms
        json_string_def json_time_def json.case time ips not_Cons_self2)
      (cases s, simp)
qed

lemma parse_pool_data: "pool_data s = Some data \<Longrightarrow> parse_pool data = Some (s\<lparr>ps_state_dir := []\<rparr>)"
proof -
  assume d: "pool_data s = Some data"
  then have y: "year_ok 0 (ps_updated_at s)" and data: "data = json_marshal_indent (JObj (pool_members s))"
    by (auto simp: pool_data_def split: if_splits)
  have "json_plain (JObj (pool_members s))"
    by (auto simp: pool_members_def opt_str_def opt_strs_def opt_bool_def)
  then show ?thesis
    using decode_pool_members [OF y] by (simp add: parse_pool_def data json_parse_marshal members_of_def)
qed

lemma pool_saveD:
  assumes "pool_save drv s h = (None, h')"
  obtains now data where "pool_data (s\<lparr>ps_updated_at := now\<rparr>) = Some data"
    and "h_files h' (pool_path (ps_state_dir s)) = Some \<lparr>f_data = data, f_perm = pool_file_perm\<rparr>"
    and "now = dr_now drv (snd (dr_mkdir drv (ps_state_dir s) (h_ext h)))"
proof -
  obtain ok c where m: "dr_mkdir drv (ps_state_dir s) (h_ext h) = (ok, c)" by fastforce
  let ?h1 = "h\<lparr>h_ext := c\<rparr>"
  obtain data where d: "ok" "pool_data (s\<lparr>ps_updated_at := dr_now drv c\<rparr>) = Some data"
    "replace_file drv (pool_path (ps_state_dir s)) data pool_file_perm ?h1 = (True, h')"
    using assms m by (auto simp: pool_save_def ext_call_def split: bool.splits option.splits prod.splits)
  from replace_file_ok [OF d(3)] d(2) m that show thesis by simp
qed

lemma pool_save_keeps:
  assumes "pool_save drv s h = (Some e, h')"
  shows "h_files h' (pool_path (ps_state_dir s)) = h_files h (pool_path (ps_state_dir s))"
  using assms
  by (auto simp: pool_save_def ext_call_def split: bool.splits option.splits prod.splits dest: replace_file_err)

lemma pool_save_frame:
  "q \<noteq> pool_path (ps_state_dir s) \<Longrightarrow> q \<noteq> pool_path (ps_state_dir s) @ ''.tmp'' \<Longrightarrow>
   h_files (snd (pool_save drv s h)) q = h_files h q"
  by (simp add: pool_save_def case_prod_beta replace_file_frame split: bool.split option.split)

lemma saved_state_loads:
  assumes "pool_save drv s h = (None, h')" and "dr_readable drv (pool_path (ps_state_dir s)) (h_ext h')"
  shows "pool_load drv (ps_state_dir s) h' =
    Inr (s\<lparr>ps_updated_at := dr_now drv (snd (dr_mkdir drv (ps_state_dir s) (h_ext h)))\<rparr>)"
proof (rule pool_saveD [OF assms(1)])
  fix now data
  assume d: "pool_data (s\<lparr>ps_updated_at := now\<rparr>) = Some data"
    "h_files h' (pool_path (ps_state_dir s)) = Some \<lparr>f_data = data, f_perm = pool_file_perm\<rparr>"
    "now = dr_now drv (snd (dr_mkdir drv (ps_state_dir s) (h_ext h)))"
  then show ?thesis using parse_pool_data [OF d(1)] assms(2)
    by (simp add: pool_load_def read_file_def)
qed

section \<open>Properties\<close>


definition w_state :: pool_state where
  "w_state = zero_state\<lparr>ps_platform := ''gke'', ps_state_dir := ''/s'', ps_ips := [''10.0.0.2'']\<rparr>"

lemma bare_saves: "fst (pool_save bare_driver s h) = None"
proof -
  have "year_ok 0 0" by code_simp
  then show ?thesis
    by (simp add: pool_save_def bare_driver_def ext_call_def pool_data_def replace_file_def write_file_atomic_def
        os_write_file_def os_chmod_def os_rename_def disk_ok_def Let_def split: option.split)
qed


text \<open>
  A failed save changes nothing: whichever step fails, a later load sees exactly the state file that
  was there before.
\<close>

theorem pool_save_failed:
  assumes "pool_save drv s h = (Some e, h')" and "dr_readable drv (pool_path (ps_state_dir s)) (h_ext h') =
    dr_readable drv (pool_path (ps_state_dir s)) (h_ext h)"
  shows "pool_load drv (ps_state_dir s) h' = pool_load drv (ps_state_dir s) h"
proof -
  have "read_file drv (pool_path (ps_state_dir s)) h' = read_file drv (pool_path (ps_state_dir s)) h"
    using pool_save_keeps [OF assms(1)] assms(2) by (simp add: read_file_def split: option.split)
  then show ?thesis by (simp add: pool_load_def)
qed

theorem pool_save_failed_witness:
  "\<exists>h' :: unit host. pool_load (bare_driver\<lparr>dr_mkdir := (\<lambda>p c. (False, c))\<rparr>) ''/s'' h' = Inl (Err ''read pool state'')"
proof -
  let ?h = "\<lparr>h_files = Map.empty, h_env = Map.empty, h_ext = ()\<rparr>"
  let ?d = "bare_driver\<lparr>dr_mkdir := (\<lambda>p c. (False, c))\<rparr> :: unit driver"
  have s: "pool_save ?d w_state ?h = (Some (Err ''create state dir''), ?h)"
    by (simp add: pool_save_def ext_call_def bare_driver_def)
  have "pool_load ?d (ps_state_dir w_state) ?h = Inl (Err ''read pool state'')"
    by (simp add: pool_load_def read_file_def)
  with pool_save_failed [OF s] show ?thesis by (auto simp: w_state_def)
qed

end
