(* ===== verification/Platform.thy ===== *)
theory Platform
  imports Host Platform_IP
begin

text \<open>
  \<open>platform/platform.go\<close>, \<open>metadata.go\<close> and \<open>subprocess.go\<close>: what a cloud driver takes and returns,
  the names of the network interfaces, and the two ways to the outside: the metadata service and the
  command-line tools. The interface \<open>CloudPlatform\<close> is the locale \<open>cloud_driver\<close>; GKE and Volcengine
  are interpretations of it.
\<close>

section \<open>Data\<close>

definition platform_gke :: string where "platform_gke = ''gke''"
definition platform_volcengine :: string where "platform_volcengine = ''volcengine''"
definition volcengine_secondary_nic_count :: nat where "volcengine_secondary_nic_count = 7"

record net_config =
  nc_node_name :: string
  nc_subnet_cidr :: string
  nc_pool_size :: int
  nc_gateway :: string
  nc_primary_nic :: string

record net_result =
  nr_platform :: string
  nr_subnet_cidr :: string
  nr_gateway :: string
  nr_primary_nic :: string
  nr_secondary_nics :: "string list"
  nr_eni_ids :: "string list"
  nr_ips :: "string list"
  nr_alias_range_name :: string

definition no_result :: net_result where
  "no_result = \<lparr>nr_platform = [], nr_subnet_cidr = [], nr_gateway = [], nr_primary_nic = [],
     nr_secondary_nics = [], nr_eni_ids = [], nr_ips = [], nr_alias_range_name = []\<rparr>"

record teardown_config =
  tc_eni_ids :: "string list"
  tc_alias_range_name :: string
  tc_subnet_cidr :: string

record eni_status =
  es_id :: string
  es_mac :: string
  es_ips :: "string list"

record pool_status =
  pst_enis :: "eni_status list"
  pst_alias_ranges :: "string list"

text \<open>\<open>cmp.Or\<close> on strings.\<close>

definition str_or :: "string \<Rightarrow> string \<Rightarrow> string" where
  "str_or a b = (if a \<noteq> [] then a else b)"

definition default_nic :: "string \<Rightarrow> string" where
  "default_nic name = (if name = platform_volcengine then ''eth0'' else ''ens4'')"

definition secondary_nic_names :: "nat \<Rightarrow> string list" where
  "secondary_nic_names n = map (\<lambda>i. ''eth'' @ dec (i + 1)) [0..<n]"

definition default_secondary_nics :: "string \<Rightarrow> string list" where
  "default_secondary_nics name =
     (if name = platform_volcengine then secondary_nic_names volcengine_secondary_nic_count else [])"

lemma secondary_nic_names_simps [simp]:
  "length (secondary_nic_names n) = n" "distinct (secondary_nic_names n)"
proof -
  have "inj (\<lambda>i. dec (i + 1))"
    by (rule injI) (metis add_right_cancel option.inject undec_dec)
  then show "distinct (secondary_nic_names n)"
    by (auto simp: secondary_nic_names_def distinct_map inj_on_def inj_def)
qed (simp add: secondary_nic_names_def)

section \<open>The metadata service\<close>

definition fetch_metadata :: "'c driver \<Rightarrow> string \<Rightarrow> (string \<times> string) list \<Rightarrow> ('c, string result) io" where
  "fetch_metadata drv url headers h =
     (case ext_call (dr_http drv url headers) h of
        (HttpFailed, h') \<Rightarrow> (Inl (Err ''fetch''), h')
      | (HttpReply status body, h') \<Rightarrow>
          (if status \<noteq> 200 then Inl (Err ''fetch: status'')
           else (case body of
                   None \<Rightarrow> Inl (Err ''read'')
                 | Some b \<Rightarrow> Inr (trim_space b)), h'))"

definition probe_metadata :: "'c driver \<Rightarrow> string \<Rightarrow> (string \<times> string) list \<Rightarrow> ('c, bool) io" where
  "probe_metadata drv url headers h =
     (case fetch_metadata drv url headers h of (r, h') \<Rightarrow> (case r of Inl _ \<Rightarrow> False | Inr _ \<Rightarrow> True, h'))"

section \<open>Child processes\<close>

text \<open>The combined output comes back on failure too.\<close>

definition run_subprocess :: "'c driver \<Rightarrow> string \<Rightarrow> string list \<Rightarrow> ('c, string \<times> error option) io" where
  "run_subprocess drv binary args h =
     (case ext_call (dr_exec drv binary args) h of
        ((out, st), h') \<Rightarrow>
          ((out, case st of
                   ExitOk \<Rightarrow> None
                 | WaitDelay ok \<Rightarrow> if ok then None else Some (Wrap binary (Err out))
                 | ExitFailed \<Rightarrow> Some (Wrap binary (Err out))), h'))"

text \<open>The callers: the output, or the error.\<close>

definition run_tool :: "'c driver \<Rightarrow> string \<Rightarrow> string list \<Rightarrow> ('c, string result) io" where
  "run_tool drv binary args h =
     (case run_subprocess drv binary args h of
        ((out, None), h') \<Rightarrow> (Inr out, h')
      | ((_, Some e), h') \<Rightarrow> (Inl e, h'))"

lemma tool_frame [simp]:
  "h_files (snd (run_tool drv b args h)) = h_files h" "h_env (snd (run_tool drv b args h)) = h_env h"
  "h_files (snd (fetch_metadata drv url hdr h)) = h_files h" "h_env (snd (fetch_metadata drv url hdr h)) = h_env h"
  by (auto simp: run_tool_def run_subprocess_def fetch_metadata_def ext_call_def
      split: prod.splits option.splits http_reply.splits)

lemma keeps_tool: "keeps (files_within S) (run_tool drv b args)" "keeps (files_within S) (fetch_metadata drv url hdr)"
  by (rule keepsI, simp add: files_within_def)+

text \<open>A run of a tool: one call of the driver, successful when the process ended well.\<close>

lemma run_tool_Inr:
  "run_tool drv b args h = (Inr out, h') \<longleftrightarrow>
   (\<exists>st c. dr_exec drv b args (h_ext h) = ((out, st), c) \<and> st \<in> {ExitOk, WaitDelay True} \<and> h' = h\<lparr>h_ext := c\<rparr>)"
  by (auto simp: run_tool_def run_subprocess_def ext_call_def split: prod.splits exit_status.splits if_splits)

lemma run_tool_ext:
  "run_tool drv b args h = (r, h') \<Longrightarrow> h' = h\<lparr>h_ext := snd (dr_exec drv b args (h_ext h))\<rparr>"
  by (auto simp: run_tool_def run_subprocess_def ext_call_def split: prod.splits exit_status.splits if_splits option.splits)

section \<open>The interface of a cloud driver\<close>

record 'c cloud_platform =
  cp_name :: string
  cp_provision :: "net_config \<Rightarrow> ('c, net_result option \<times> error option) io"
  cp_status :: "('c, pool_status result) io"
  cp_teardown :: "teardown_config \<Rightarrow> ('c, error option) io"
  cp_adopt :: "net_config \<Rightarrow> ('c, error option) io"

text \<open>
  What the commands rely on: a provisioning without error names its platform, hands back the subnet it
  was given, a usable gateway and interface; a failed one may still report interfaces it created; no
  operation touches the file of the pool state.
\<close>

definition usable_result :: "string \<Rightarrow> net_config \<Rightarrow> net_result \<Rightarrow> bool" where
  "usable_result name cfg r \<longleftrightarrow> nr_platform r = name \<and> nr_subnet_cidr r = nc_subnet_cidr cfg \<and>
     resolve_gateway (nc_gateway cfg) (nc_subnet_cidr cfg) = Inr (nr_gateway r) \<and>
     nr_primary_nic r = str_or (nc_primary_nic cfg) (default_nic name)"

locale cloud_driver =
  fixes plat :: "'c cloud_platform" and own_files :: "path set"
  assumes provision_ok: "cp_provision plat cfg h = ((r, None), h') \<Longrightarrow>
      \<exists>res. r = Some res \<and> usable_result (cp_name plat) cfg res"
    and provision_files: "p \<notin> own_files \<Longrightarrow> h_files (snd (cp_provision plat cfg h)) p = h_files h p"
    and teardown_files: "p \<notin> own_files \<Longrightarrow> h_files (snd (cp_teardown plat tc h)) p = h_files h p"
    and adopt_files: "p \<notin> own_files \<Longrightarrow> h_files (snd (cp_adopt plat cfg h)) p = h_files h p"
    and status_files: "h_files (snd (cp_status plat h)) = h_files h"
begin

lemma provision_subnet:
  "cp_provision plat cfg h = ((Some r, None), h') \<Longrightarrow> nr_subnet_cidr r = nc_subnet_cidr cfg"
  using provision_ok [of cfg h "Some r" h'] by (auto simp: usable_result_def)

lemma provision_gateway:
  "cp_provision plat cfg h = ((Some r, None), h') \<Longrightarrow>
   resolve_gateway (nc_gateway cfg) (nc_subnet_cidr cfg) = Inr (nr_gateway r)"
  using provision_ok [of cfg h "Some r" h'] by (auto simp: usable_result_def)

lemma provision_result: "cp_provision plat cfg h = ((r, None), h') \<Longrightarrow> r \<noteq> None"
  using provision_ok by blast

lemma cycle_files:
  "p \<notin> own_files \<Longrightarrow>
   h_files (snd (cp_teardown plat tc (snd (cp_provision plat cfg h)))) p = h_files h p"
  by (simp add: provision_files teardown_files)

end

end
