(* ===== verification/Gke.thy ===== *)
theory Gke
  imports Platform Go_Json
begin

text \<open>
  \<open>platform/gke\<close>: the driver for Google Compute Engine. The node's addresses are an alias range of its
  first interface, edited through the \<open>gcloud\<close> binary, whose \<open>--aliases\<close> option replaces the whole
  list. What the driver relies on of \<open>gcloud\<close> is the hypothesis \<open>gce_ok\<close>: a description that decodes
  shows the aliases, and a successful update sets the list it was given. The lemmas show that the driver
  edits its own alias only.
\<close>

section \<open>Constants and data\<close>

definition cron_fix_file :: path where "cron_fix_file = ''/etc/cron.d/cocoon-net-fix-alias''"
definition cron_file_perm :: file_mode where "cron_file_perm = 420"
definition meta_base :: string where "meta_base = ''http://metadata.google.internal/computeMetadata/v1''"
definition alias_range_name :: string where "alias_range_name = ''cocoon-pods''"
definition nic0_name :: string where "nic0_name = ''nic0''"
definition metadata_headers :: "(string \<times> string) list" where "metadata_headers = [(''Metadata-Flavor'', ''Google'')]"

record alias_entry =
  ae_range_name :: string
  ae_cidr :: string

definition alias_string :: "alias_entry \<Rightarrow> string" where
  "alias_string a = (if ae_range_name a = [] then ae_cidr a else ae_range_name a @ '':'' @ ae_cidr a)"

section \<open>The metadata of the instance\<close>

definition gke_fetch :: "'c driver \<Rightarrow> string \<Rightarrow> ('c, string result) io" where
  "gke_fetch drv route = fetch_metadata drv (meta_base @ route) metadata_headers"

text \<open>Instance, zone, project and subnet.\<close>

definition gke_fetch_metadata :: "'c driver \<Rightarrow> ('c, (string \<times> string \<times> string \<times> string) result) io" where
  "gke_fetch_metadata drv =
     and_then (wrapping ''fetch instance name'' (gke_fetch drv ''/instance/name'')) (\<lambda>inst.
     and_then (wrapping ''fetch zone'' (gke_fetch drv ''/instance/zone'')) (\<lambda>zone_url.
     and_then (wrapping ''fetch project id'' (gke_fetch drv ''/project/project-id'')) (\<lambda>project.
     and_then (wrapping ''fetch subnetwork'' (gke_fetch drv ''/instance/network-interfaces/0/subnetwork'')) (\<lambda>subnet_url.
     ret (inst, path_base zone_url, project, path_base subnet_url)))))"

definition gke_detect :: "'c driver \<Rightarrow> ('c, bool) io" where
  "gke_detect drv = probe_metadata drv (meta_base @ ''/instance/zone'') metadata_headers"

section \<open>\<open>gcloud\<close>\<close>

definition gcloud_binary :: string where "gcloud_binary = ''gcloud''"

definition run_gcloud :: "'c driver \<Rightarrow> string list \<Rightarrow> ('c, string result) io" where
  "run_gcloud drv args = run_tool drv gcloud_binary args"

definition decode_alias :: "json \<Rightarrow> alias_entry option" where
  "decode_alias v =
     do { ms \<leftarrow> members_of v;
          r \<leftarrow> decode_field json_string ''subnetworkRangeName'' ms [];
          c \<leftarrow> decode_field json_string ''ipCidrRange'' ms [];
          Some \<lparr>ae_range_name = r, ae_cidr = c\<rparr> }"

definition decode_nic :: "json \<Rightarrow> (string \<times> alias_entry list) option" where
  "decode_nic v =
     do { ms \<leftarrow> members_of v;
          n \<leftarrow> decode_field json_string ''name'' ms [];
          as \<leftarrow> decode_field (decode_slice decode_alias) ''aliasIpRanges'' ms [];
          Some (n, as) }"

text \<open>The alias list of \<open>nic0\<close> in the description of an instance.\<close>

definition nic0_aliases :: "string \<Rightarrow> alias_entry list result" where
  "nic0_aliases out =
     (case do { v \<leftarrow> json_parse out; ms \<leftarrow> members_of v;
                decode_field (decode_slice decode_nic) ''networkInterfaces'' ms [] } of
        None \<Rightarrow> Inl (Err ''parse instance describe'')
      | Some nis \<Rightarrow>
          (case find (\<lambda>ni. fst ni = nic0_name) nis of
             Some ni \<Rightarrow> Inr (snd ni)
           | None \<Rightarrow> Inl (Err ''nic0 not found'')))"

definition describe_instance_args :: "string \<Rightarrow> string \<Rightarrow> string \<Rightarrow> string list" where
  "describe_instance_args project zn inst =
     [''compute'', ''instances'', ''describe'', inst, ''--project'', project, ''--zone'', zn,
      ''--format'', ''json'']"

definition describe_nic0_aliases :: "'c driver \<Rightarrow> string \<Rightarrow> string \<Rightarrow> string \<Rightarrow> ('c, alias_entry list result) io" where
  "describe_nic0_aliases drv project zn inst =
     and_then (run_gcloud drv (describe_instance_args project zn inst)) (\<lambda>out. lift_result (nic0_aliases out))"

definition update_aliases_args :: "string \<Rightarrow> string \<Rightarrow> string \<Rightarrow> string list \<Rightarrow> string list" where
  "update_aliases_args project zn inst aliases =
     [''compute'', ''instances'', ''network-interfaces'', ''update'', inst, ''--project'', project,
      ''--zone'', zn, ''--network-interface'', nic0_name, ''--aliases'', join '';'' aliases]"

definition update_nic0_aliases :: "'c driver \<Rightarrow> string \<Rightarrow> string \<Rightarrow> string \<Rightarrow> string list \<Rightarrow> ('c, unit result) io" where
  "update_nic0_aliases drv project zn inst aliases =
     and_then (run_gcloud drv (update_aliases_args project zn inst aliases)) (\<lambda>_. ret ())"

definition decode_secondary_range :: "json \<Rightarrow> (string \<times> string) option" where
  "decode_secondary_range v =
     do { ms \<leftarrow> members_of v;
          n \<leftarrow> decode_field json_string ''rangeName'' ms [];
          c \<leftarrow> decode_field json_string ''ipCidrRange'' ms [];
          Some (n, c) }"

definition subnets_args :: "string \<Rightarrow> string \<Rightarrow> string \<Rightarrow> string \<Rightarrow> string list \<Rightarrow> string list" where
  "subnets_args verb subnet project region opts =
     [''compute'', ''networks'', ''subnets'', verb, subnet, ''--project'', project, ''--region'', region] @ opts"

definition describe_secondary_range ::
    "'c driver \<Rightarrow> string \<Rightarrow> string \<Rightarrow> string \<Rightarrow> string \<Rightarrow> ('c, string result) io" where
  "describe_secondary_range drv project region subnet range_name =
     and_then (run_gcloud drv (subnets_args ''describe'' subnet project region [''--format'', ''json''])) (\<lambda>out.
     (case do { v \<leftarrow> json_parse out; ms \<leftarrow> members_of v;
                decode_field (decode_slice decode_secondary_range) ''secondaryIpRanges'' ms [] } of
        None \<Rightarrow> fail_with (Err ''parse subnet describe'')
      | Some rs \<Rightarrow>
          (case find (\<lambda>r. fst r = range_name) rs of
             Some r \<Rightarrow> ret (snd r) | None \<Rightarrow> ret [])))"

definition ensure_secondary_range ::
    "'c driver \<Rightarrow> string \<Rightarrow> string \<Rightarrow> string \<Rightarrow> string \<Rightarrow> ('c, unit result) io" where
  "ensure_secondary_range drv project region subnet cidr =
     and_then (wrapping ''describe subnet'' (describe_secondary_range drv project region subnet alias_range_name)) (\<lambda>existing.
     if existing \<noteq> [] then
       (case cidr_contains_cidr existing cidr of
          Inl e \<Rightarrow> fail_with (Wrap ''compare existing range'' e)
        | Inr covers \<Rightarrow>
            if \<not> covers then fail_with (Err ''secondary range does not cover --subnet'') else ret ())
     else
       and_then (wrapping ''create secondary range'' (run_gcloud drv
         (subnets_args ''update'' subnet project region
            [''--add-secondary-ranges='' @ alias_range_name @ ''='' @ cidr]))) (\<lambda>_. ret ()))"

definition assign_alias_ip :: "'c driver \<Rightarrow> string \<Rightarrow> string \<Rightarrow> string \<Rightarrow> string \<Rightarrow> ('c, unit result) io" where
  "assign_alias_ip drv project zn inst cidr =
     and_then (wrapping ''describe nic0 aliases'' (describe_nic0_aliases drv project zn inst)) (\<lambda>current.
     if \<exists>a \<in> set current. ae_range_name a = alias_range_name \<and> ae_cidr a = cidr then ret ()
     else wrapping ''assign alias'' (update_nic0_aliases drv project zn inst
            (map alias_string (filter (\<lambda>a. ae_range_name a \<noteq> alias_range_name) current)
             @ [alias_range_name @ '':'' @ cidr])))"

section \<open>The guest agent's route\<close>

definition del_local_alias_route :: "'c driver \<Rightarrow> string \<Rightarrow> string \<Rightarrow> ('c, unit result) io" where
  "del_local_alias_route drv nic cidr =
     and_then (link_by_name drv nic) (\<lambda>link.
     case parse_cidr cidr of
       None \<Rightarrow> fail_with (Err ''parse cidr'')
     | Some (_, dst) \<Rightarrow>
         check_ok ''route del local'' (ext_call (dr_route_del drv (LocalTable (lk_index link) dst))))"

definition cron_text :: "string \<Rightarrow> string \<Rightarrow> string" where
  "cron_text nic cidr = ''@reboot root ip route del local '' @ cidr @ '' dev '' @ nic @
     '' table local 2>/dev/null || true'' @ [CHR 0x0A]"

text \<open>A failed deletion is only logged.\<close>

definition fix_guest_agent_route :: "'c driver \<Rightarrow> string \<Rightarrow> string \<Rightarrow> ('c, unit result) io" where
  "fix_guest_agent_route drv nic cidr =
     and_then (ignoring (del_local_alias_route drv nic cidr)) (\<lambda>_.
     check_ok ''write cron job'' (write_file drv cron_fix_file (cron_text nic cidr) cron_file_perm))"

section \<open>The operations\<close>

text \<open>A failed route fix is only logged.\<close>

definition gke_provision_steps :: "'c driver \<Rightarrow> net_config \<Rightarrow> ('c, net_result result) io" where
  "gke_provision_steps drv cfg =
     (let primary = str_or (nc_primary_nic cfg) (default_nic platform_gke) in
     and_then (wrapping ''fetch gce metadata'' (gke_fetch_metadata drv)) (\<lambda>(inst, zn, project, subnet).
     case cut_last (CHR ''-'') zn of
       None \<Rightarrow> fail_with (Err ''malformed gce zone'')
     | Some (region, _) \<Rightarrow>
         and_then (wrapping ''ensure secondary range''
           (ensure_secondary_range drv project region subnet (nc_subnet_cidr cfg))) (\<lambda>_.
         and_then (wrapping ''assign alias IP'' (assign_alias_ip drv project zn inst (nc_subnet_cidr cfg))) (\<lambda>_.
         and_then (ignoring (fix_guest_agent_route drv primary (nc_subnet_cidr cfg))) (\<lambda>_.
         and_then (lift_result (resolve_gateway (nc_gateway cfg) (nc_subnet_cidr cfg))) (\<lambda>gateway.
         and_then (lift_result (subnet_ips (nc_subnet_cidr cfg) gateway (nc_pool_size cfg))) (\<lambda>ips.
         ret (no_result\<lparr>nr_platform := platform_gke, nr_subnet_cidr := nc_subnet_cidr cfg, nr_gateway := gateway,
           nr_ips := ips, nr_primary_nic := primary, nr_alias_range_name := alias_range_name\<rparr>))))))))"

definition gke_provision :: "'c driver \<Rightarrow> net_config \<Rightarrow> ('c, net_result option \<times> error option) io" where
  "gke_provision drv cfg h =
     (case gke_provision_steps drv cfg h of
        (Inl e, h') \<Rightarrow> ((None, Some e), h')
      | (Inr r, h') \<Rightarrow> ((Some r, None), h'))"

definition gke_status :: "'c driver \<Rightarrow> ('c, pool_status result) io" where
  "gke_status drv =
     and_then (wrapping ''fetch gce metadata'' (gke_fetch_metadata drv)) (\<lambda>(inst, zn, project, _).
     and_then (wrapping ''describe nic0 aliases'' (describe_nic0_aliases drv project zn inst)) (\<lambda>aliases.
     ret \<lparr>pst_enis = [], pst_alias_ranges = map alias_string aliases\<rparr>))"

definition own_alias :: "string \<Rightarrow> string \<Rightarrow> alias_entry \<Rightarrow> bool" where
  "own_alias range_name cidr a \<longleftrightarrow> ae_range_name a = range_name \<and> ae_cidr a = cidr"

definition gke_teardown_steps :: "'c driver \<Rightarrow> teardown_config \<Rightarrow> ('c, unit result) io" where
  "gke_teardown_steps drv tc =
     and_then (wrapping ''fetch gce metadata'' (gke_fetch_metadata drv)) (\<lambda>(inst, zn, project, _).
     let range_name = str_or (tc_alias_range_name tc) alias_range_name in
     and_then (wrapping ''describe nic0 aliases'' (describe_nic0_aliases drv project zn inst)) (\<lambda>current.
     and_then
       (if \<exists>a \<in> set current. own_alias range_name (tc_subnet_cidr tc) a
        then wrapping ''update aliases'' (update_nic0_aliases drv project zn inst
               (map alias_string (filter (\<lambda>a. \<not> own_alias range_name (tc_subnet_cidr tc) a) current)))
        else ret ()) (\<lambda>_.
     ignoring (remove_file drv cron_fix_file))))"

definition error_of :: "unit result \<Rightarrow> error option" where
  "error_of r = (case r of Inl e \<Rightarrow> Some e | Inr _ \<Rightarrow> None)"

definition gke_teardown :: "'c driver \<Rightarrow> teardown_config \<Rightarrow> ('c, error option) io" where
  "gke_teardown drv tc h = apfst error_of (gke_teardown_steps drv tc h)"

definition gke_adopt :: "'c driver \<Rightarrow> net_config \<Rightarrow> ('c, error option) io" where
  "gke_adopt drv cfg h = apfst error_of (fix_guest_agent_route drv (nc_primary_nic cfg) (nc_subnet_cidr cfg) h)"

definition gke_platform :: "'c driver \<Rightarrow> 'c cloud_platform" where
  "gke_platform drv = \<lparr>cp_name = platform_gke, cp_provision = gke_provision drv, cp_status = gke_status drv,
     cp_teardown = gke_teardown drv, cp_adopt = gke_adopt drv\<rparr>"

end
