(* ===== verification/Gke_Props.thy ===== *)
theory Gke_Props
  imports Gke
begin

text \<open>
  What the GKE driver does to the instance's aliases and to the host's files, and the driver as an
  instance of the interface \<open>cloud_driver\<close>.
\<close>

section \<open>The interface\<close>

lemma gke_meta_files: "keeps (files_within S) (gke_fetch_metadata drv)"
  unfolding gke_fetch_metadata_def gke_fetch_def by (intro keeps_files keeps_tool)

lemma describe_files: "keeps (files_within S) (describe_nic0_aliases drv p z i)"
  unfolding describe_nic0_aliases_def run_gcloud_def by (intro keeps_files keeps_tool)

lemma update_files: "keeps (files_within S) (update_nic0_aliases drv p z i as)"
  unfolding update_nic0_aliases_def run_gcloud_def by (intro keeps_files keeps_tool)

lemma secondary_files: "keeps (files_within S) (ensure_secondary_range drv p r s c)"
proof -
  have "keeps (files_within S) (describe_secondary_range drv p r s n)" for n
    unfolding describe_secondary_range_def run_gcloud_def
    by (intro keeps_files keeps_tool) (auto intro: keeps_files split: option.split)
  then show ?thesis
    unfolding ensure_secondary_range_def run_gcloud_def
    by (intro keeps_files) (auto intro!: keeps_files keeps_tool split: sum.split)
qed

lemma assign_files: "keeps (files_within S) (assign_alias_ip drv p z i c)"
  unfolding assign_alias_ip_def
  by (intro keeps_files describe_files) (auto intro!: keeps_files update_files)

lemma local_route_files: "keeps (files_within S) (del_local_alias_route drv n c)"
  unfolding del_local_alias_route_def
  by (intro keeps_files) (auto intro!: keeps_files split: option.split)

lemma fix_route_files: "keeps (files_within {cron_fix_file}) (fix_guest_agent_route drv n c)"
  unfolding fix_guest_agent_route_def
  by (intro keeps_files local_route_files) simp

lemma provision_files: "keeps (files_within {cron_fix_file}) (gke_provision_steps drv cfg)"
  unfolding gke_provision_steps_def Let_def
  by (intro keeps_files gke_meta_files)
    (auto intro!: keeps_files secondary_files assign_files fix_route_files
      split: option.split prod.split)

lemma teardown_files: "keeps (files_within {cron_fix_file}) (gke_teardown_steps drv tc)"
  unfolding gke_teardown_steps_def Let_def
  by (intro keeps_files gke_meta_files)
    (auto intro!: keeps_files describe_files update_files split: prod.split)

lemma provision_usable:
  assumes "gke_provision_steps drv cfg h = (Inr r, h')"
  shows "usable_result platform_gke cfg r"
  using assms
  by (auto simp: gke_provision_steps_def io_run usable_result_def Let_def no_result_def
      split: option.splits prod.splits)

interpretation gke: cloud_driver "gke_platform drv" "{cron_fix_file}" for drv :: "'c driver"
proof
  fix cfg tc h r h' and p :: path
  have files: "p \<notin> {cron_fix_file} \<Longrightarrow> keeps (files_within {cron_fix_file}) m \<Longrightarrow> h_files (snd (m h)) p = h_files h p"
    for m :: "'c host \<Rightarrow> 'z \<times> 'c host"
    by (auto simp: keeps_def files_within_def)
  show "cp_provision (gke_platform drv) cfg h = ((r, None), h') \<Longrightarrow>
      \<exists>res. r = Some res \<and> usable_result (cp_name (gke_platform drv)) cfg res"
    using provision_usable by (auto simp: gke_platform_def gke_provision_def split: prod.splits sum.splits)
  show "h_files (snd (cp_provision (gke_platform drv) cfg h)) p = h_files h p" if "p \<notin> {cron_fix_file}"
    using files [OF that provision_files]
    by (auto simp: gke_platform_def gke_provision_def split: prod.splits sum.splits) (metis snd_conv)+
  show "h_files (snd (cp_teardown (gke_platform drv) tc h)) p = h_files h p" if "p \<notin> {cron_fix_file}"
    using files [OF that teardown_files] by (simp add: gke_platform_def gke_teardown_def)
  show "h_files (snd (cp_adopt (gke_platform drv) cfg h)) p = h_files h p" if "p \<notin> {cron_fix_file}"
    using files [OF that fix_route_files] by (simp add: gke_platform_def gke_adopt_def)
  have "keeps (files_within {}) (gke_status drv)"
    unfolding gke_status_def
    by (intro keeps_files gke_meta_files) (auto intro!: keeps_files describe_files split: prod.split)
  then show "h_files (snd (cp_status (gke_platform drv) h)) = h_files h"
    by (auto simp: gke_platform_def keeps_def files_within_def)
qed

section \<open>What the driver relies on of \<open>gcloud\<close>\<close>

text \<open>An entry whose text the option \<open>--aliases\<close> can carry.\<close>

definition alias_wf :: "alias_entry \<Rightarrow> bool" where
  "alias_wf a \<longleftrightarrow> ae_cidr a \<noteq> [] \<and> (\<forall>c \<in> set (ae_range_name a @ ae_cidr a). c \<noteq> CHR '':'' \<and> c \<noteq> CHR '';'')"

text \<open>
  \<open>al\<close> reads the aliases of the instance's first interface. A description that decodes shows them, a
  successful update sets exactly the given list, and nothing else the driver calls changes them.
\<close>

definition shows_aliases :: "'c driver \<Rightarrow> string list \<Rightarrow> ('c \<Rightarrow> alias_entry list) \<Rightarrow> bool" where
  "shows_aliases drv args al \<longleftrightarrow> (\<forall>c out st c' as. dr_exec drv gcloud_binary args c = ((out, st), c') \<longrightarrow>
     al c' = al c \<and> (nic0_aliases out = Inr as \<longrightarrow> as = al c))"

definition sets_aliases :: "'c driver \<Rightarrow> (string list \<Rightarrow> string list) \<Rightarrow> ('c \<Rightarrow> alias_entry list) \<Rightarrow> bool" where
  "sets_aliases drv args al \<longleftrightarrow> (\<forall>c out st c' as. (\<forall>a \<in> set as. alias_wf a) \<longrightarrow>
     dr_exec drv gcloud_binary (args (map alias_string as)) c = ((out, st), c') \<longrightarrow>
     st \<in> {ExitOk, WaitDelay True} \<longrightarrow> al c' = as)"

definition leaves_aliases :: "'c driver \<Rightarrow> ('c \<Rightarrow> alias_entry list) \<Rightarrow> bool" where
  "leaves_aliases drv al \<longleftrightarrow>
     (\<forall>v s p r opts c. al (snd (dr_exec drv gcloud_binary (subnets_args v s p r opts) c)) = al c) \<and>
     (\<forall>url hs c. al (snd (dr_http drv url hs c)) = al c) \<and>
     (\<forall>n c. al (snd (dr_link drv n c)) = al c) \<and> (\<forall>r c. al (snd (dr_route_del drv r c)) = al c) \<and>
     (\<forall>c. al (snd (dr_disk drv c)) = al c)"

definition gce_ok :: "'c driver \<Rightarrow> string \<Rightarrow> string \<Rightarrow> string \<Rightarrow> ('c \<Rightarrow> alias_entry list) \<Rightarrow> bool" where
  "gce_ok drv project zn inst al \<longleftrightarrow> (\<forall>c. \<forall>a \<in> set (al c). alias_wf a) \<and>
     shows_aliases drv (describe_instance_args project zn inst) al \<and>
     sets_aliases drv (update_aliases_args project zn inst) al \<and> leaves_aliases drv al"

abbreviation same_aliases :: "('c \<Rightarrow> alias_entry list) \<Rightarrow> 'c host \<Rightarrow> 'c host \<Rightarrow> bool" where
  "same_aliases al h h' \<equiv> al (h_ext h') = al (h_ext h)"

lemma same_aliases_refl: "reflp (same_aliases al)" and same_aliases_trans: "transp (same_aliases al)"
  by (auto simp: reflp_def transp_def)

lemmas keeps_same = keeps_and_then [OF _ _ same_aliases_trans] keeps_wrapping keeps_check keeps_ignoring
  keeps_ret [OF same_aliases_refl]

lemma keeps_same_ext: "(\<And>c. al (snd (f c)) = al c) \<Longrightarrow> keeps (same_aliases al) (ext_call f)"
  by (rule keepsI) (simp add: ext_call_def case_prod_beta)

lemma gce_aliases_wf: "gce_ok drv p z i al \<Longrightarrow> a \<in> set (al c) \<Longrightarrow> alias_wf a"
  unfolding gce_ok_def by blast

lemma gce_frames:
  assumes "gce_ok drv p z i al"
  shows "al (snd (dr_exec drv gcloud_binary (subnets_args v s p' r opts) c)) = al c"
    and "al (snd (dr_http drv url hs c)) = al c" and "al (snd (dr_link drv n c)) = al c"
    and "al (snd (dr_route_del drv rt c)) = al c" and "al (snd (dr_disk drv c)) = al c"
  using assms by (simp_all add: gce_ok_def leaves_aliases_def)

lemma gce_describe:
  assumes "gce_ok drv p z i al" and "describe_nic0_aliases drv p z i h = (r, h')"
  shows "same_aliases al h h'" and "r = Inr as \<Longrightarrow> as = al (h_ext h)"
proof -
  obtain out st c where x: "dr_exec drv gcloud_binary (describe_instance_args p z i) (h_ext h) = ((out, st), c)"
    by (metis prod.exhaust)
  have h': "h_ext h' = c"
    using assms(2) x
    by (auto simp: describe_nic0_aliases_def run_gcloud_def and_then_def run_tool_def run_subprocess_def
        ext_call_def lift_result_def split: exit_status.splits if_splits sum.splits)
  have "al c = al (h_ext h)" using assms(1) x unfolding gce_ok_def shows_aliases_def by blast
  then show "same_aliases al h h'" by (simp add: h')
  show "as = al (h_ext h)" if "r = Inr as"
  proof -
    have "nic0_aliases out = Inr as"
      using assms(2) x that by (auto simp: describe_nic0_aliases_def io_run run_gcloud_def run_tool_Inr)
    then show ?thesis using assms(1) x unfolding gce_ok_def shows_aliases_def by blast
  qed
qed

lemma gce_update:
  assumes "gce_ok drv p z i al" and "\<forall>a \<in> set as. alias_wf a"
    and "update_nic0_aliases drv p z i (map alias_string as) h = (Inr u, h')"
  shows "al (h_ext h') = as"
proof -
  obtain out st c where x: "dr_exec drv gcloud_binary (update_aliases_args p z i (map alias_string as)) (h_ext h) = ((out, st), c)"
    and st: "st \<in> {ExitOk, WaitDelay True}" and h': "h' = h\<lparr>h_ext := c\<rparr>"
    using assms(3) by (auto simp: update_nic0_aliases_def io_run run_gcloud_def run_tool_Inr)
  have "al c = as" using assms(1,2) x st unfolding gce_ok_def sets_aliases_def by blast
  then show ?thesis by (simp add: h')
qed

lemma meta_same:
  assumes "gce_ok drv p z i al"
  shows "keeps (same_aliases al) (gke_fetch_metadata drv)"
proof -
  have "keeps (same_aliases al) (gke_fetch drv r)" for r
  proof (rule keepsI)
    fix h
    have "h_ext (snd (gke_fetch drv r h)) = snd (dr_http drv (meta_base @ r) metadata_headers (h_ext h))"
      by (simp add: gke_fetch_def fetch_metadata_def ext_call_def split: prod.split http_reply.split)
    then show "same_aliases al h (snd (gke_fetch drv r h))" by (simp add: gce_frames [OF assms])
  qed
  then show ?thesis unfolding gke_fetch_metadata_def by (intro keeps_same)
qed

lemma tool_ext: "h_ext (snd (run_tool drv b args h)) = snd (dr_exec drv b args (h_ext h))"
proof -
  obtain r h' where "run_tool drv b args h = (r, h')" by fastforce
  with run_tool_ext [OF this] show ?thesis by simp
qed

lemma networks_same:
  "gce_ok drv p z i al \<Longrightarrow> keeps (same_aliases al) (run_gcloud drv (subnets_args v s p' r opts))"
  by (rule keepsI) (simp add: run_gcloud_def tool_ext gce_frames)

lemma range_same:
  assumes "gce_ok drv p z i al"
  shows "keeps (same_aliases al) (ensure_secondary_range drv p' r s c)"
proof -
  have "keeps (same_aliases al) (describe_secondary_range drv p' r s n)" for n
    unfolding describe_secondary_range_def
    by (intro keeps_same networks_same [OF assms]) (auto intro: keeps_same split: option.split)
  then show ?thesis
    unfolding ensure_secondary_range_def
    by (intro keeps_same) (auto intro!: keeps_same networks_same [OF assms] split: sum.split)
qed

lemma agent_same:
  assumes "gce_ok drv p z i al"
  shows "keeps (same_aliases al) (fix_guest_agent_route drv n c)"
proof -
  have "keeps (same_aliases al) (link_by_name drv n)"
  proof (rule keepsI)
    fix h
    have "h_ext (snd (link_by_name drv n h)) = snd (dr_link drv n (h_ext h))"
      by (simp add: link_by_name_def ext_call_def split: prod.split option.split)
    then show "same_aliases al h (snd (link_by_name drv n h))" by (simp add: gce_frames [OF assms])
  qed
  moreover have "keeps (same_aliases al) (write_file drv f d m)" for f d m
    by (rule keepsI) (simp add: write_file_def case_prod_beta gce_frames [OF assms])
  ultimately show ?thesis
    unfolding fix_guest_agent_route_def del_local_alias_route_def
    by (intro keeps_same) (auto intro!: keeps_same keeps_same_ext gce_frames [OF assms] split: option.split)
qed

section \<open>The aliases after an operation\<close>

abbreviation cocoon_alias :: "string \<Rightarrow> alias_entry" where
  "cocoon_alias cidr \<equiv> \<lparr>ae_range_name = alias_range_name, ae_cidr = cidr\<rparr>"

text \<open>The alias list with this node's alias added, a stale one of the same range dropped.\<close>

definition with_alias :: "string \<Rightarrow> alias_entry list \<Rightarrow> alias_entry list" where
  "with_alias cidr as =
     (if cocoon_alias cidr \<in> set as then as
      else filter (\<lambda>a. ae_range_name a \<noteq> alias_range_name) as @ [cocoon_alias cidr])"

lemma with_alias_simps [simp]:
  "cocoon_alias cidr \<in> set (with_alias cidr as)"
  "with_alias cidr (with_alias cidr as) = with_alias cidr as"
  "filter (\<lambda>a. ae_range_name a \<noteq> alias_range_name) (with_alias cidr as) =
     filter (\<lambda>a. ae_range_name a \<noteq> alias_range_name) as"
  by (simp_all add: with_alias_def)

lemma own_alias_eq: "own_alias n cidr a \<longleftrightarrow> a = \<lparr>ae_range_name = n, ae_cidr = cidr\<rparr>"
  by (cases a) (auto simp: own_alias_def)

text \<open>
  C28. Assigning the alias is an exact edit. When it succeeds the instance has its previous aliases
  without stale ones of the cocoon range, in order, followed by the new one; if the alias was already
  bound nothing changes, so repeating the operation is harmless. Aliases of other ranges always stay.
\<close>

theorem assign_alias_exact:
  assumes ok: "gce_ok drv project zn inst al" and wf: "alias_wf (cocoon_alias cidr)"
    and run: "assign_alias_ip drv project zn inst cidr h = (Inr (), h')"
  shows "al (h_ext h') = with_alias cidr (al (h_ext h))"
proof -
  obtain cur h1 where d: "describe_nic0_aliases drv project zn inst h = (Inr cur, h1)"
    and rest: "(if \<exists>a \<in> set cur. ae_range_name a = alias_range_name \<and> ae_cidr a = cidr then ret ()
      else wrapping ''assign alias'' (update_nic0_aliases drv project zn inst
            (map alias_string (filter (\<lambda>a. ae_range_name a \<noteq> alias_range_name) cur)
             @ [alias_range_name @ '':'' @ cidr]))) h1 = (Inr (), h')"
    using run by (auto simp: assign_alias_ip_def io_run)
  have cur: "cur = al (h_ext h)" and same: "al (h_ext h1) = cur"
    using gce_describe [OF ok d] by auto
  have bound: "(\<exists>a \<in> set cur. ae_range_name a = alias_range_name \<and> ae_cidr a = cidr) \<longleftrightarrow>
      cocoon_alias cidr \<in> set cur"
    using own_alias_eq [of alias_range_name cidr] by (auto simp: own_alias_def)
  show ?thesis
  proof (cases "cocoon_alias cidr \<in> set cur")
    case True
    then show ?thesis using rest bound same cur by (simp add: io_run with_alias_def)
  next
    case False
    let ?as = "filter (\<lambda>a. ae_range_name a \<noteq> alias_range_name) cur @ [cocoon_alias cidr]"
    have "map alias_string ?as = map alias_string (filter (\<lambda>a. ae_range_name a \<noteq> alias_range_name) cur)
        @ [alias_range_name @ '':'' @ cidr]"
      by (simp add: alias_string_def alias_range_name_def)
    then have "update_nic0_aliases drv project zn inst (map alias_string ?as) h1 = (Inr (), h')"
      using rest bound False by (simp add: io_run)
    moreover have "\<forall>a \<in> set ?as. alias_wf a" using gce_aliases_wf [OF ok] wf cur by auto
    ultimately have "al (h_ext h') = ?as" by (intro gce_update [OF ok])
    then show ?thesis using False cur by (simp add: with_alias_def)
  qed
qed

lemma provision_aliases:
  assumes ok: "gce_ok drv project zn inst al" and wf: "alias_wf (cocoon_alias (nc_subnet_cidr cfg))"
    and meta: "gke_fetch_metadata drv h = (Inr (inst, zn, project, subnet), h0)"
    and run: "gke_provision drv cfg h = ((Some r, None), h')"
  shows "al (h_ext h') = with_alias (nc_subnet_cidr cfg) (al (h_ext h))"
    and "nr_alias_range_name r = alias_range_name \<and> nr_subnet_cidr r = nc_subnet_cidr cfg"
proof -
  have steps: "gke_provision_steps drv cfg h = (Inr r, h')"
    using run by (auto simp: gke_provision_def split: prod.splits sum.splits)
  then show "nr_alias_range_name r = alias_range_name \<and> nr_subnet_cidr r = nc_subnet_cidr cfg"
    by (auto simp: gke_provision_steps_def io_run Let_def split: option.splits prod.splits)
  obtain region h1 h2 h3 res where
    e: "ensure_secondary_range drv project region subnet (nc_subnet_cidr cfg) h0 = (Inr (), h1)" and
    a: "assign_alias_ip drv project zn inst (nc_subnet_cidr cfg) h1 = (Inr (), h2)" and
    f: "fix_guest_agent_route drv (str_or (nc_primary_nic cfg) (default_nic platform_gke))
          (nc_subnet_cidr cfg) h2 = (res, h3)" and h3: "h' = h3"
    using steps meta by (auto simp: gke_provision_steps_def io_run Let_def split: option.splits)
  have "same_aliases al h h0" by (rule keepsD [OF meta_same [OF ok] meta])
  moreover have "same_aliases al h0 h1" by (rule keepsD [OF range_same [OF ok] e])
  moreover have "al (h_ext h2) = with_alias (nc_subnet_cidr cfg) (al (h_ext h1))"
    by (rule assign_alias_exact [OF ok wf a])
  moreover have "same_aliases al h2 h3" by (rule keepsD [OF agent_same [OF ok] f])
  ultimately show "al (h_ext h') = with_alias (nc_subnet_cidr cfg) (al (h_ext h))" by (simp add: h3)
qed

lemma teardown_aliases:
  assumes ok: "gce_ok drv project zn inst al"
    and meta: "gke_fetch_metadata drv h = (Inr (inst, zn, project, subnet), h0)"
    and run: "gke_teardown drv tc h = (None, h')"
  shows "al (h_ext h') =
    filter (\<lambda>a. \<not> own_alias (str_or (tc_alias_range_name tc) alias_range_name) (tc_subnet_cidr tc) a) (al (h_ext h))"
proof -
  let ?own = "own_alias (str_or (tc_alias_range_name tc) alias_range_name) (tc_subnet_cidr tc)"
  have "gke_teardown_steps drv tc h = (Inr (), h')"
    using run by (cases "gke_teardown_steps drv tc h") (auto simp: gke_teardown_def error_of_def split: sum.splits)
  then obtain cur h1 h2 res where d: "describe_nic0_aliases drv project zn inst h0 = (Inr cur, h1)"
    and u: "(if \<exists>a \<in> set cur. ?own a
        then wrapping ''update aliases'' (update_nic0_aliases drv project zn inst
               (map alias_string (filter (\<lambda>a. \<not> ?own a) cur)))
        else ret ()) h1 = (Inr (), h2)"
    and r: "remove_file drv cron_fix_file h2 = (res, h')"
    using meta by (auto simp: gke_teardown_steps_def io_run Let_def)
  have cur: "cur = al (h_ext h0)" "al (h_ext h1) = cur" using gce_describe [OF ok d] by auto
  have "al (h_ext h2) = filter (\<lambda>a. \<not> ?own a) cur"
  proof (cases "\<exists>a \<in> set cur. ?own a")
    case True
    then have "update_nic0_aliases drv project zn inst (map alias_string (filter (\<lambda>a. \<not> ?own a) cur)) h1 = (Inr (), h2)"
      using u by (simp add: io_run)
    then show ?thesis using gce_aliases_wf [OF ok] cur(1) by (intro gce_update [OF ok]) auto
  next
    case False
    then show ?thesis using u cur(2) by (auto simp: io_run filter_id_conv)
  qed
  moreover have "h_ext h' = h_ext h2 \<or> h_ext h' = snd (dr_disk drv (h_ext h2))"
    using r by (auto simp: remove_file_def split: option.splits prod.splits)
  moreover have "same_aliases al h h0" by (rule keepsD [OF meta_same [OF ok] meta])
  ultimately show ?thesis using cur(1) gce_frames(5) [OF ok] by auto
qed

text \<open>
  C29. Provisioning and tearing down a node gives the instance's other aliases back untouched. After a
  teardown with the state a provisioning recorded, the node's own alias is gone, and the aliases of
  every other range are those, in their order, that were there before the provisioning.
\<close>

theorem provision_teardown:
  assumes ok: "gce_ok drv project zn inst al" and wf: "alias_wf (cocoon_alias (nc_subnet_cidr cfg))"
    and meta: "gke_fetch_metadata drv h = (Inr (inst, zn, project, subnet), h0)"
    and prov: "gke_provision drv cfg h = ((Some r, None), h1)"
    and meta1: "gke_fetch_metadata drv h1 = (Inr (inst, zn, project, subnet1), h2)"
    and down: "gke_teardown drv \<lparr>tc_eni_ids = nr_eni_ids r, tc_alias_range_name = nr_alias_range_name r,
        tc_subnet_cidr = nr_subnet_cidr r\<rparr> h1 = (None, h')"
  shows "cocoon_alias (nc_subnet_cidr cfg) \<notin> set (al (h_ext h')) \<and>
    filter (\<lambda>a. ae_range_name a \<noteq> alias_range_name) (al (h_ext h')) =
    filter (\<lambda>a. ae_range_name a \<noteq> alias_range_name) (al (h_ext h))"
proof -
  have r: "nr_alias_range_name r = alias_range_name" "nr_subnet_cidr r = nc_subnet_cidr cfg"
    using provision_aliases(2) [OF ok wf meta prov] by auto
  have "al (h_ext h') = filter (\<lambda>a. a \<noteq> cocoon_alias (nc_subnet_cidr cfg)) (with_alias (nc_subnet_cidr cfg) (al (h_ext h)))"
    using teardown_aliases [OF ok meta1 down] provision_aliases(1) [OF ok wf meta prov]
    by (simp add: r own_alias_eq str_or_def)
  moreover have "filter (\<lambda>a. ae_range_name a \<noteq> alias_range_name) (filter (\<lambda>a. a \<noteq> cocoon_alias c) as) =
      filter (\<lambda>a. ae_range_name a \<noteq> alias_range_name) as" for c as
    by (auto intro!: filter_cong simp: filter_filter)
  ultimately show ?thesis by simp
qed

section \<open>A \<open>gcloud\<close> that behaves as documented\<close>

definition w_parse_alias :: "string \<Rightarrow> alias_entry" where
  "w_parse_alias s = (case cut_at (CHR '':'') s of
     None \<Rightarrow> \<lparr>ae_range_name = [], ae_cidr = s\<rparr> | Some (r, c) \<Rightarrow> \<lparr>ae_range_name = r, ae_cidr = c\<rparr>)"

definition w_parse_aliases :: "string \<Rightarrow> alias_entry list" where
  "w_parse_aliases t = (if t = [] then [] else map w_parse_alias (split_char (CHR '';'') t))"

definition w_alias_json :: "alias_entry \<Rightarrow> json" where
  "w_alias_json a = JObj [(''subnetworkRangeName'', JStr (ae_range_name a)), (''ipCidrRange'', JStr (ae_cidr a))]"

definition w_instance_json :: "alias_entry list \<Rightarrow> json" where
  "w_instance_json as = JObj [(''networkInterfaces'',
     JArr [JObj [(''name'', JStr nic0_name), (''aliasIpRanges'', JArr (map w_alias_json as))]])]"

definition w_aliases :: "alias_entry list \<Rightarrow> alias_entry list" where
  "w_aliases c = filter alias_wf c"

definition w_gcloud :: "string list \<Rightarrow> alias_entry list \<Rightarrow> (string \<times> exit_status) \<times> alias_entry list" where
  "w_gcloud args c =
     (if args ! 1 = ''networks'' then ((''{}'', ExitOk), c)
      else if args ! 2 = ''describe'' then ((json_marshal_indent (w_instance_json (w_aliases c)), ExitOk), c)
      else (([], ExitOk), w_parse_aliases (last args)))"

text \<open>The metadata server tells the four questions apart by the last letter but one.\<close>

definition w_meta :: "string \<Rightarrow> string" where
  "w_meta url = (let c = last (butlast url) in
     if c = CHR ''m'' then ''node-1'' else if c = CHR ''n'' then ''7/zones/asia-east1-b''
     else if c = CHR ''i'' then ''proj'' else ''s/default'')"

definition w_gce :: "alias_entry list driver" where
  "w_gce = bare_driver\<lparr>dr_exec := (\<lambda>b args c. w_gcloud args c),
     dr_http := (\<lambda>url hs c. (HttpReply 200 (Some (w_meta url)), c))\<rparr>"

lemma alias_string_wf: "alias_wf a \<Longrightarrow> CHR '';'' \<notin> set (alias_string a)" "alias_wf a \<Longrightarrow> alias_string a \<noteq> []"
  by (auto simp: alias_wf_def alias_string_def)

lemma w_alias_round: "alias_wf a \<Longrightarrow> w_parse_alias (alias_string a) = a"
proof -
  assume "alias_wf a"
  then have "CHR '':'' \<notin> set (ae_range_name a)" "CHR '':'' \<notin> set (ae_cidr a)" by (auto simp: alias_wf_def)
  then show ?thesis
    by (cases a) (auto simp: w_parse_alias_def alias_string_def cut_at_none cut_at_append)
qed

lemma w_aliases_round: "\<forall>a \<in> set as. alias_wf a \<Longrightarrow> w_parse_aliases (join '';'' (map alias_string as)) = as"
proof (cases as)
  case (Cons a as')
  assume wf: "\<forall>a \<in> set as. alias_wf a"
  have ne: "map alias_string as \<noteq> []" using Cons by simp
  have semi: "\<forall>s \<in> set (map alias_string as). CHR '';'' \<notin> set s" using wf alias_string_wf(1) by auto
  have "alias_string a \<noteq> []" using wf Cons alias_string_wf(2) by simp
  then have "join '';'' (map alias_string as) \<noteq> []" unfolding Cons by (cases as') simp_all
  then have "w_parse_aliases (join '';'' (map alias_string as)) = map w_parse_alias (map alias_string as)"
    by (simp only: w_parse_aliases_def if_False split_join [OF semi ne])
  also have "\<dots> = as" using wf w_alias_round by (simp add: map_idI)
  finally show ?thesis .
qed (simp add: w_parse_aliases_def)

lemma w_keys [simp]:
  "field_is ''name'' ''name''" "field_is ''aliasIpRanges'' ''aliasIpRanges''" "\<not> field_is ''name'' ''aliasIpRanges''"
  "\<not> field_is ''aliasIpRanges'' ''name''" "field_is ''networkInterfaces'' ''networkInterfaces''"
  "field_is ''subnetworkRangeName'' ''subnetworkRangeName''" "field_is ''ipCidrRange'' ''ipCidrRange''"
  "\<not> field_is ''subnetworkRangeName'' ''ipCidrRange''" "\<not> field_is ''ipCidrRange'' ''subnetworkRangeName''"
  by code_simp+

lemma w_describe: "nic0_aliases (json_marshal_indent (w_instance_json as)) = Inr as"
proof -
  have "json_plain (w_instance_json as)" by (auto simp: w_instance_json_def w_alias_json_def)
  moreover have "decode_alias (w_alias_json a) = Some a" for a
    by (simp add: decode_alias_def w_alias_json_def members_of_def json_string_def)
  ultimately show ?thesis
    by (simp add: nic0_aliases_def json_parse_marshal)
      (simp add: w_instance_json_def members_of_def decode_slice_def decode_nic_def json_string_def decode_all_map)
qed

lemma w_gcloud_runs:
  "w_gcloud (describe_instance_args p z i) c = ((json_marshal_indent (w_instance_json (w_aliases c)), ExitOk), c)"
  "w_gcloud (update_aliases_args p z i as) c = (([], ExitOk), w_parse_aliases (join '';'' as))"
  "w_gcloud (subnets_args v s p r opts) c = ((''{}'', ExitOk), c)"
  by (simp_all add: w_gcloud_def describe_instance_args_def update_aliases_args_def subnets_args_def)

lemma w_gce_calls [simp]:
  "dr_exec w_gce b args c = w_gcloud args c" "dr_http w_gce url hs c = (HttpReply 200 (Some (w_meta url)), c)"
  "dr_link w_gce n c = (None, c)" "dr_route_del w_gce rt c = (False, c)" "dr_disk w_gce c = (disk_ok, c)"
  by (simp_all add: w_gce_def bare_driver_def)

lemma w_run_gcloud:
  "w_gcloud args (h_ext h) = ((out, ExitOk), c) \<Longrightarrow> run_gcloud w_gce args h = (Inr out, h\<lparr>h_ext := c\<rparr>)"
  by (simp add: run_gcloud_def run_tool_def run_subprocess_def ext_call_def)

lemma w_gce_aliases:
  "describe_nic0_aliases w_gce p z i h = (Inr (w_aliases (h_ext h)), h)"
  "update_nic0_aliases w_gce p z i as h = (Inr (), h\<lparr>h_ext := w_parse_aliases (join '';'' as)\<rparr>)"
  by (simp_all add: describe_nic0_aliases_def update_nic0_aliases_def and_then_def lift_result_def ret_def
      w_run_gcloud [OF w_gcloud_runs(1)] w_run_gcloud [OF w_gcloud_runs(2)] w_describe)

lemma w_gce_ok: "gce_ok w_gce ''proj'' ''asia-east1-b'' ''node-1'' w_aliases"
proof -
  have "filter alias_wf as = as" if "\<forall>a \<in> set as. alias_wf a" for as
    using that by (simp add: filter_id_conv)
  then have "sets_aliases w_gce (update_aliases_args p z i) w_aliases" for p z i
    by (simp add: sets_aliases_def w_gcloud_runs w_aliases_round w_aliases_def)
  moreover have "shows_aliases w_gce (describe_instance_args p z i) w_aliases" for p z i
    by (simp add: shows_aliases_def w_gcloud_runs w_describe)
  moreover have "leaves_aliases w_gce w_aliases"
    by (simp add: leaves_aliases_def w_gcloud_runs)
  ultimately show ?thesis by (simp add: gce_ok_def w_aliases_def)
qed

abbreviation w_gce_host :: "alias_entry list \<Rightarrow> alias_entry list host" where
  "w_gce_host c \<equiv> \<lparr>h_files = Map.empty, h_env = Map.empty, h_ext = c\<rparr>"

definition w_pods :: alias_entry where "w_pods = \<lparr>ae_range_name = ''pods'', ae_cidr = ''10.4.0.0/24''\<rparr>"

definition w_gce_conf :: net_config where
  "w_gce_conf = \<lparr>nc_node_name = ''n'', nc_subnet_cidr = ''172.20.1.0/29'', nc_pool_size = 3, nc_gateway = [], nc_primary_nic = []\<rparr>"

lemma w_cidr_wf: "alias_wf (cocoon_alias ''172.20.1.0/29'')"
  by (simp add: alias_wf_def alias_range_name_def)

lemma w_fetch: "gke_fetch w_gce r h = (Inr (trim_space (w_meta (meta_base @ r))), h)"
  by (simp add: gke_fetch_def fetch_metadata_def ext_call_def)

lemma w_meta_urls:
  "w_meta (b @ ''/instance/name'') = ''node-1''"
  "w_meta (b @ ''/instance/zone'') = ''7/zones/asia-east1-b''"
  "w_meta (b @ ''/project/project-id'') = ''proj''"
  "w_meta (b @ ''/instance/network-interfaces/0/subnetwork'') = ''s/default''"
  by (simp_all add: w_meta_def Let_def butlast_append)

lemma w_trimmed:
  "trim_space ''node-1'' = ''node-1''" "trim_space ''proj'' = ''proj''"
  "path_base (trim_space ''7/zones/asia-east1-b'') = ''asia-east1-b''"
  "path_base (trim_space ''s/default'') = ''default''"
  by (simp_all add: trim_space_plain graphic_def path_base_def)

lemma w_gce_meta:
  "gke_fetch_metadata w_gce h = (Inr (''node-1'', ''asia-east1-b'', ''proj'', ''default''), h)"
  by (simp only: gke_fetch_metadata_def and_then_def wrapping_def w_fetch w_meta_urls w_trimmed ret_def prod.case sum.case)

lemma w_assign: "\<exists>h'. assign_alias_ip w_gce p z i cidr h = (Inr (), h')"
  by (cases "\<exists>a \<in> set (w_aliases (h_ext h)). ae_range_name a = alias_range_name \<and> ae_cidr a = cidr")
    (simp_all add: assign_alias_ip_def and_then_def wrapping_def w_gce_aliases ret_def)

lemma w_no_range: "describe_secondary_range w_gce p r s n h = (Inr [], h)"
proof -
  have "do { v \<leftarrow> json_parse ''{}''; ms \<leftarrow> members_of v;
    decode_field (decode_slice decode_secondary_range) ''secondaryIpRanges'' ms [] } = Some []" by code_simp
  then show ?thesis
    by (simp add: describe_secondary_range_def and_then_def w_run_gcloud [OF w_gcloud_runs(3)] ret_def)
qed

lemma w_range: "ensure_secondary_range w_gce p r s cidr h = (Inr (), h)"
  by (simp add: ensure_secondary_range_def and_then_def wrapping_def w_no_range w_run_gcloud [OF w_gcloud_runs(3)] ret_def)

lemma w_cut_zone: "cut_last (CHR ''-'') ''asia-east1-b'' = Some (''asia-east1'', ''b'')"
  by code_simp

lemma w_ignoring: "\<exists>h'. ignoring m h = (Inr (), h')"
  by (simp add: ignoring_def split: prod.split)

lemma w_provision:
  assumes "resolve_gateway (nc_gateway cfg) (nc_subnet_cidr cfg) = Inr g"
    "subnet_ips (nc_subnet_cidr cfg) g (nc_pool_size cfg) = Inr ips"
  shows "\<exists>r h'. gke_provision w_gce cfg h = ((Some r, None), h')"
proof -
  obtain h1 where 1: "assign_alias_ip w_gce ''proj'' ''asia-east1-b'' ''node-1'' (nc_subnet_cidr cfg) h = (Inr (), h1)"
    using w_assign by blast
  obtain h2 where 2: "ignoring (fix_guest_agent_route w_gce (str_or (nc_primary_nic cfg) (default_nic platform_gke))
      (nc_subnet_cidr cfg)) h1 = (Inr (), h2)"
    using w_ignoring by blast
  show ?thesis
    by (simp add: gke_provision_def gke_provision_steps_def Let_def and_then_def wrapping_def w_gce_meta w_cut_zone w_range
        1 2 lift_result_def assms ret_def)
qed

lemma w_teardown: "\<exists>h'. gke_teardown w_gce tc h = (None, h')"
proof -
  let ?P = "\<exists>a \<in> set (w_aliases (h_ext h)). own_alias (str_or (tc_alias_range_name tc) alias_range_name) (tc_subnet_cidr tc) a"
  obtain h2 where "ignoring (remove_file w_gce cron_fix_file) h = (Inr (), h2)" using w_ignoring by blast
  moreover obtain h3 where "ignoring (remove_file w_gce cron_fix_file) (h\<lparr>h_ext := w_parse_aliases (join '';''
      (map alias_string (filter (\<lambda>a. \<not> own_alias (str_or (tc_alias_range_name tc) alias_range_name) (tc_subnet_cidr tc) a)
        (w_aliases (h_ext h)))))\<rparr>) = (Inr (), h3)" using w_ignoring by blast
  ultimately show ?thesis
    by (cases ?P) (simp_all add: gke_teardown_def gke_teardown_steps_def Let_def and_then_def wrapping_def w_gce_meta
        w_gce_aliases ret_def error_of_def)
qed

theorem assign_alias_exact_witness:
  "\<exists>h'. assign_alias_ip w_gce ''proj'' ''asia-east1-b'' ''node-1'' ''172.20.1.0/29'' (w_gce_host [w_pods]) = (Inr (), h') \<and>
     w_aliases (h_ext h') = [w_pods, cocoon_alias ''172.20.1.0/29'']"
proof -
  obtain h' where r: "assign_alias_ip w_gce ''proj'' ''asia-east1-b'' ''node-1'' ''172.20.1.0/29'' (w_gce_host [w_pods]) = (Inr (), h')"
    using w_assign by blast
  have "alias_wf w_pods" by (simp add: w_pods_def alias_wf_def)
  then have "with_alias ''172.20.1.0/29'' (w_aliases [w_pods]) = [w_pods, cocoon_alias ''172.20.1.0/29'']"
    by (simp add: with_alias_def w_aliases_def) (simp add: w_pods_def alias_range_name_def)
  with assign_alias_exact [OF w_gce_ok w_cidr_wf r] r show ?thesis by auto
qed

theorem provision_teardown_witness:
  "\<exists>r h1 h'. gke_provision w_gce w_gce_conf (w_gce_host [w_pods]) = ((Some r, None), h1) \<and>
     gke_teardown w_gce \<lparr>tc_eni_ids = nr_eni_ids r, tc_alias_range_name = nr_alias_range_name r,
        tc_subnet_cidr = nr_subnet_cidr r\<rparr> h1 = (None, h') \<and>
     cocoon_alias (nc_subnet_cidr w_gce_conf) \<notin> set (w_aliases (h_ext h'))"
proof -
  have "resolve_gateway (nc_gateway w_gce_conf) (nc_subnet_cidr w_gce_conf) = Inr ''172.20.1.1''" by code_simp
  moreover have "subnet_ips (nc_subnet_cidr w_gce_conf) ''172.20.1.1'' (nc_pool_size w_gce_conf) =
      Inr [''172.20.1.2'', ''172.20.1.3'', ''172.20.1.4'']" by code_simp
  ultimately obtain r h1 where p: "gke_provision w_gce w_gce_conf (w_gce_host [w_pods]) = ((Some r, None), h1)"
    using w_provision by blast
  obtain h' where d: "gke_teardown w_gce \<lparr>tc_eni_ids = nr_eni_ids r, tc_alias_range_name = nr_alias_range_name r,
        tc_subnet_cidr = nr_subnet_cidr r\<rparr> h1 = (None, h')"
    using w_teardown by blast
  have wf: "alias_wf (cocoon_alias (nc_subnet_cidr w_gce_conf))" using w_cidr_wf by (simp add: w_gce_conf_def)
  from provision_teardown [OF w_gce_ok wf w_gce_meta p w_gce_meta d] p d show ?thesis by blast
qed

end
