(* ===== verification/Volcengine.thy ===== *)
theory Volcengine
  imports Platform Go_Json
begin

text \<open>
  \<open>platform/volcengine\<close>: the driver for Volcengine. A node's addresses are secondary addresses of up to
  seven elastic network interfaces (ENIs), managed through the \<open>ve\<close> binary. The context's cancellation
  is seen by the program in \<open>sleep_ctx\<close> and \<open>ctx.Err\<close>; that it also makes a child process fail is an
  outcome of the call. The loop of \<open>find_subnet\<close> follows the service's pages and has a bound, given with
  the driver; \<open>Volcengine_Props\<close> shows how many pages are enough.
\<close>

section \<open>Constants and data\<close>

definition volc_metadata_base :: string where "volc_metadata_base = ''http://100.96.0.96/latest/meta-data''"
definition enis_per_node :: nat where "enis_per_node = 7"
definition ips_per_eni :: int where "ips_per_eni = 20"
definition eni_type_primary :: string where "eni_type_primary = ''primary''"
definition ve_page_size :: nat where "ve_page_size = 100"
definition create_propagation_delay :: duration where "create_propagation_delay = 2000000000"
definition attach_propagation_delay :: duration where "attach_propagation_delay = 4000000000"
definition ve_binary :: string where "ve_binary = ''ve''"

record net_if =
  ni_id :: string
  ni_device :: string
  ni_mac :: string
  ni_type :: string
  ni_private :: "(bool \<times> string) list"

text \<open>The value \<open>networkInterface{NetworkInterfaceID: id}\<close>.\<close>

definition bare_eni :: "string \<Rightarrow> net_if" where
  "bare_eni i = \<lparr>ni_id = i, ni_device = [], ni_mac = [], ni_type = [], ni_private = []\<rparr>"

definition decode_private :: "json \<Rightarrow> (bool \<times> string) option" where
  "decode_private v =
     do { ms \<leftarrow> members_of v;
          p \<leftarrow> decode_field json_bool ''Primary'' ms False;
          a \<leftarrow> decode_field json_string ''PrivateIpAddress'' ms [];
          Some (p, a) }"

text \<open>One member of a struct that is itself a member.\<close>

definition decode_inner :: "(json \<Rightarrow> 'a \<Rightarrow> 'a option) \<Rightarrow> string \<Rightarrow> json \<Rightarrow> 'a \<Rightarrow> 'a option" where
  "decode_inner dc key v cur = do { ms \<leftarrow> members_of v; decode_field dc key ms cur }"

definition decode_net_if :: "json \<Rightarrow> net_if option" where
  "decode_net_if v =
     do { ms \<leftarrow> members_of v;
          i \<leftarrow> decode_field json_string ''NetworkInterfaceId'' ms [];
          d \<leftarrow> decode_field json_string ''DeviceId'' ms [];
          m \<leftarrow> decode_field json_string ''MacAddress'' ms [];
          t \<leftarrow> decode_field json_string ''Type'' ms [];
          ps \<leftarrow> decode_field (decode_inner (decode_slice decode_private) ''PrivateIpSet'') ''PrivateIpSets'' ms [];
          Some \<lparr>ni_id = i, ni_device = d, ni_mac = m, ni_type = t, ni_private = ps\<rparr> }"

text \<open>A response: the member \<open>key\<close> of its \<open>Result\<close>.\<close>

definition ve_result :: "(json \<Rightarrow> 'a \<Rightarrow> 'a option) \<Rightarrow> string \<Rightarrow> 'a \<Rightarrow> string \<Rightarrow> 'a option" where
  "ve_result dc key zero out =
     do { v \<leftarrow> json_parse out; ms \<leftarrow> members_of v; decode_field (decode_inner dc key) ''Result'' ms zero }"

definition parsed :: "string \<Rightarrow> 'a option \<Rightarrow> 'a result" where
  "parsed msg x = (case x of None \<Rightarrow> Inl (Err msg) | Some y \<Rightarrow> Inr y)"

section \<open>Calls\<close>

definition run_ve :: "'c driver \<Rightarrow> string list \<Rightarrow> ('c, string result) io" where
  "run_ve drv args = run_tool drv ve_binary (''vpc'' # args)"

text \<open>\<open>sleepCtx\<close>: the error of the context when it ends first.\<close>

definition sleep_ctx :: "'c driver \<Rightarrow> duration \<Rightarrow> ('c, error option) io" where
  "sleep_ctx drv d h = (case ext_call (dr_sleep drv d) h of (ok, h') \<Rightarrow> (ok_or ''context'' ok, h'))"

definition ctx_err :: "'c driver \<Rightarrow> 'c host \<Rightarrow> error option" where
  "ctx_err drv h = ok_or ''context'' (\<not> dr_cancelled drv (h_ext h))"

definition volc_fetch_meta :: "'c driver \<Rightarrow> string \<Rightarrow> ('c, string result) io" where
  "volc_fetch_meta drv p =
     and_then (fetch_metadata drv (volc_metadata_base @ p) []) (\<lambda>val.
     if val = [] then fail_with (Err ''returned empty'') else ret val)"

definition volc_detect :: "'c driver \<Rightarrow> ('c, bool) io" where
  "volc_detect drv = probe_metadata drv (volc_metadata_base @ ''/instance-id'') []"

section \<open>Network interfaces\<close>

definition describe_enis :: "'c driver \<Rightarrow> string list \<Rightarrow> ('c, net_if list result) io" where
  "describe_enis drv filters =
     and_then (run_ve drv (''DescribeNetworkInterfaces'' # filters @ [''--PageSize'', ''100''])) (\<lambda>out.
     lift_result (parsed ''parse ENI list'' (ve_result (decode_slice decode_net_if) ''NetworkInterfaceSets'' [] out)))"

definition list_enis :: "'c driver \<Rightarrow> string \<Rightarrow> ('c, net_if list result) io" where
  "list_enis drv inst = describe_enis drv [''--InstanceId'', inst]"

definition ids_args :: "string list \<Rightarrow> string list" where
  "ids_args ids = concat (map (\<lambda>(i, x). [''--NetworkInterfaceIds.'' @ dec (i + 1), x]) (List.enumerate 0 ids))"

definition list_enis_by_ids :: "'c driver \<Rightarrow> string list \<Rightarrow> ('c, net_if list result) io" where
  "list_enis_by_ids drv ids = describe_enis drv (ids_args ids)"

definition select_reusable :: "net_if list \<Rightarrow> nat \<Rightarrow> net_if list" where
  "select_reusable enis cnt = take cnt (filter (\<lambda>e. ni_type e \<noteq> eni_type_primary) enis)"

definition delete_args :: "string \<Rightarrow> string list" where
  "delete_args i = [''DeleteNetworkInterface'', ''--NetworkInterfaceId'', i]"

definition delete_orphan :: "'c driver \<Rightarrow> string \<Rightarrow> ('c, error option) io" where
  "delete_orphan drv i h =
     (case run_ve drv (delete_args i) h of
        (Inl e, h') \<Rightarrow> (Some (Wrap ''delete orphan ENI'' e), h') | (Inr _, h') \<Rightarrow> (None, h'))"

definition create_args :: "string \<Rightarrow> string \<Rightarrow> string \<Rightarrow> nat \<Rightarrow> string list" where
  "create_args subnet sg prefix i =
     [''CreateNetworkInterface'', ''--SubnetId'', subnet, ''--SecurityGroupIds.1'', sg,
      ''--NetworkInterfaceName'', prefix @ ''-eni-'' @ dec i]"

definition attach_args :: "string \<Rightarrow> string \<Rightarrow> string list" where
  "attach_args i inst = [''AttachNetworkInterface'', ''--NetworkInterfaceId'', i, ''--InstanceId'', inst]"

definition created_id :: "string \<Rightarrow> string option" where
  "created_id out = ve_result json_string ''NetworkInterfaceId'' [] out"

text \<open>
  One turn of the loop of \<open>ensureENIs\<close>: it goes on with the interfaces so far or returns them with an
  error. The part after the creation comes first.
\<close>

datatype eni_step = GoOn "net_if list" | Return "net_if list" error

definition abandon :: "'c driver \<Rightarrow> string \<Rightarrow> net_if list \<Rightarrow> (error option \<Rightarrow> 'c host \<Rightarrow> error option list) \<Rightarrow>
    (net_if list \<Rightarrow> 'c host \<Rightarrow> eni_step) \<Rightarrow> ('c, eni_step) io" where
  "abandon drv i res errs after h =
     (case delete_orphan drv i h of
        (Some e, h') \<Rightarrow> (Return (res @ [bare_eni i]) (the (join_errors (errs (Some e) h'))), h')
      | (None, h') \<Rightarrow> (after res h', h'))"

definition attach_eni :: "'c driver \<Rightarrow> string \<Rightarrow> string \<Rightarrow> net_if list \<Rightarrow> ('c, eni_step) io" where
  "attach_eni drv inst i res h =
     (case sleep_ctx drv create_propagation_delay h of
        (Some err, h1) \<Rightarrow>
          abandon drv i res (\<lambda>cleanup h'. [Some err, cleanup]) (\<lambda>res h'. Return res err) h1
      | (None, h1) \<Rightarrow>
          (case run_ve drv (attach_args i inst) h1 of
             (Inl err, h2) \<Rightarrow>
               abandon drv i res (\<lambda>cleanup h'. [Some err, cleanup, ctx_err drv h'])
                 (\<lambda>res h'. case ctx_err drv h' of Some e \<Rightarrow> Return res e | None \<Rightarrow> GoOn res) h2
           | (Inr _, h2) \<Rightarrow>
               (case sleep_ctx drv attach_propagation_delay h2 of
                  (Some err, h3) \<Rightarrow> (Return (res @ [bare_eni i]) err, h3)
                | (None, h3) \<Rightarrow> (GoOn (res @ [bare_eni i]), h3))))"

definition create_eni :: "'c driver \<Rightarrow> string \<Rightarrow> string \<Rightarrow> string \<Rightarrow> string \<Rightarrow> nat \<Rightarrow> net_if list \<Rightarrow> ('c, eni_step) io" where
  "create_eni drv subnet sg inst prefix i res h =
     (case run_ve drv (create_args subnet sg prefix i) h of
        (Inl e, h1) \<Rightarrow> (Return res (Wrap ''create ENI'' e), h1)
      | (Inr out, h1) \<Rightarrow>
          (case created_id out of
             None \<Rightarrow> (Return res (Err ''parse create ENI response''), h1)
           | Some eni \<Rightarrow> attach_eni drv inst eni res h1))"

fun eni_loop :: "'c driver \<Rightarrow> string \<Rightarrow> string \<Rightarrow> string \<Rightarrow> string \<Rightarrow> nat list \<Rightarrow> net_if list \<Rightarrow>
    ('c, net_if list \<times> error option) io" where
  "eni_loop drv subnet sg inst prefix [] res h = ((res, None), h)"
| "eni_loop drv subnet sg inst prefix (i # is) res h =
     (case create_eni drv subnet sg inst prefix i res h of
        (Return res' e, h') \<Rightarrow> ((res', Some e), h')
      | (GoOn res', h') \<Rightarrow> eni_loop drv subnet sg inst prefix is res' h')"

definition ensure_enis :: "'c driver \<Rightarrow> string \<Rightarrow> string \<Rightarrow> string \<Rightarrow> string \<Rightarrow> nat \<Rightarrow>
    ('c, net_if list \<times> error option) io" where
  "ensure_enis drv subnet sg inst prefix cnt h =
     (case list_enis drv inst h of
        (Inl e, h') \<Rightarrow> (([], Some (Wrap ''list existing ENIs'' e)), h')
      | (Inr existing, h') \<Rightarrow>
          (let res = select_reusable existing cnt
           in eni_loop drv subnet sg inst prefix [length res + 1..<cnt + 1] res h'))"

definition assign_secondary_ips :: "'c driver \<Rightarrow> string \<Rightarrow> int \<Rightarrow> ('c, string list result) io" where
  "assign_secondary_ips drv i cnt =
     and_then (wrapping ''assign secondary IPs'' (run_ve drv [''AssignPrivateIpAddresses'',
       ''--NetworkInterfaceId'', i, ''--SecondaryPrivateIpAddressCount'', itoa cnt])) (\<lambda>out.
     lift_result (parsed ''parse assign IPs response'' (ve_result string_slice ''PrivateIpSet'' [] out)))"

section \<open>Security group and subnet\<close>

definition decode_sg :: "json \<Rightarrow> string option" where
  "decode_sg v = do { ms \<leftarrow> members_of v; decode_field json_string ''SecurityGroupId'' ms [] }"

definition get_security_group :: "'c driver \<Rightarrow> string \<Rightarrow> ('c, string result) io" where
  "get_security_group drv vpc =
     and_then (wrapping ''describe security groups'' (run_ve drv [''DescribeSecurityGroups'', ''--VpcId'', vpc,
       ''--PageSize'', ''1''])) (\<lambda>out.
     and_then (lift_result (parsed ''parse security groups'' (ve_result (decode_slice decode_sg) ''SecurityGroups'' [] out))) (\<lambda>sgs.
     case sgs of [] \<Rightarrow> fail_with (Err ''no security groups found'') | sg # _ \<Rightarrow> ret sg))"

definition decode_subnet :: "json \<Rightarrow> (string \<times> string) option" where
  "decode_subnet v =
     do { ms \<leftarrow> members_of v;
          i \<leftarrow> decode_field json_string ''SubnetId'' ms [];
          c \<leftarrow> decode_field json_string ''CidrBlock'' ms [];
          Some (i, c) }"

definition subnets_page_args :: "string \<Rightarrow> nat \<Rightarrow> string list" where
  "subnets_page_args vpc page =
     [''DescribeSubnets'', ''--VpcId'', vpc, ''--PageSize'', dec ve_page_size, ''--PageNumber'', dec page]"

definition subnets_page :: "'c driver \<Rightarrow> string \<Rightarrow> nat \<Rightarrow> ('c, (string \<times> string) list result) io" where
  "subnets_page drv vpc page =
     and_then (wrapping ''describe subnets'' (run_ve drv (subnets_page_args vpc page))) (\<lambda>out.
     lift_result (parsed ''parse describe subnets'' (ve_result (decode_slice decode_subnet) ''Subnets'' [] out)))"

text \<open>The error \<open>out_of_pages\<close> is the model's: the program would go on.\<close>

definition out_of_pages :: error where "out_of_pages = Err ''out of pages''"

fun find_subnet_from :: "'c driver \<Rightarrow> string \<Rightarrow> string \<Rightarrow> nat \<Rightarrow> nat \<Rightarrow> ('c, string result) io" where
  "find_subnet_from drv vpc cidr page 0 = fail_with out_of_pages"
| "find_subnet_from drv vpc cidr page (Suc n) =
     and_then (subnets_page drv vpc page) (\<lambda>subnets.
     case find (\<lambda>s. snd s = cidr) subnets of
       Some s \<Rightarrow> ret (fst s)
     | None \<Rightarrow> if length subnets < ve_page_size then ret [] else find_subnet_from drv vpc cidr (page + 1) n)"

definition find_subnet :: "'c driver \<Rightarrow> nat \<Rightarrow> string \<Rightarrow> string \<Rightarrow> ('c, string result) io" where
  "find_subnet drv pages vpc cidr = find_subnet_from drv vpc cidr 1 pages"

definition ensure_subnet :: "'c driver \<Rightarrow> nat \<Rightarrow> string \<Rightarrow> string \<Rightarrow> string \<Rightarrow> ('c, string result) io" where
  "ensure_subnet drv pages vpc cidr name =
     and_then (find_subnet drv pages vpc cidr) (\<lambda>found.
     if found \<noteq> [] then ret found
     else and_then (wrapping ''fetch zone'' (volc_fetch_meta drv ''/placement/availability-zone'')) (\<lambda>zn.
       and_then (wrapping ''create subnet'' (run_ve drv [''CreateSubnet'', ''--VpcId'', vpc, ''--CidrBlock'', cidr,
         ''--ZoneId'', zn, ''--SubnetName'', name @ ''-vms''])) (\<lambda>out.
       lift_result (parsed ''parse create subnet response'' (ve_result json_string ''SubnetId'' [] out)))))"

section \<open>The operations\<close>

definition volc_prepare :: "'c driver \<Rightarrow> nat \<Rightarrow> net_config \<Rightarrow> ('c, (string \<times> string \<times> string) result) io" where
  "volc_prepare drv pages cfg =
     and_then (wrapping ''get vpc id'' (volc_fetch_meta drv ''/vpc-id'')) (\<lambda>vpc.
     and_then (wrapping ''get security group id'' (get_security_group drv vpc)) (\<lambda>sg.
     and_then (wrapping ''ensure subnet'' (ensure_subnet drv pages vpc (nc_subnet_cidr cfg) (nc_node_name cfg))) (\<lambda>subnet.
     and_then (wrapping ''get instance id'' (volc_fetch_meta drv ''/instance-id'')) (\<lambda>inst.
     ret (sg, subnet, inst)))))"

definition own_ips :: "net_if \<Rightarrow> string list" where
  "own_ips e = map snd (filter (\<lambda>p. \<not> fst p) (ni_private e))"

text \<open>An interface whose assignment fails contributes the addresses it already had.\<close>

fun collect_ips :: "'c driver \<Rightarrow> net_if list \<Rightarrow> ('c, string list) io" where
  "collect_ips drv [] h = ([], h)"
| "collect_ips drv (e # es) h =
     (let existing = own_ips e; shortfall = ips_per_eni - int (length existing)
      in if shortfall > 0 then
           (case assign_secondary_ips drv (ni_id e) shortfall h of
              (r, h1) \<Rightarrow>
                (case collect_ips drv es h1 of
                   (ips, h2) \<Rightarrow> (existing @ (case r of Inl _ \<Rightarrow> [] | Inr new \<Rightarrow> new) @ ips, h2)))
         else (case collect_ips drv es h of (ips, h2) \<Rightarrow> (existing @ ips, h2)))"

definition volc_provision :: "'c driver \<Rightarrow> nat \<Rightarrow> net_config \<Rightarrow> ('c, net_result option \<times> error option) io" where
  "volc_provision drv pages cfg h =
     (case volc_prepare drv pages cfg h of
        (Inl e, h1) \<Rightarrow> ((None, Some e), h1)
      | (Inr (sg, subnet, inst), h1) \<Rightarrow>
          (case ensure_enis drv subnet sg inst (nc_node_name cfg) enis_per_node h1 of
             ((enis, err), h2) \<Rightarrow>
               (let reported = no_result\<lparr>nr_eni_ids := map ni_id enis\<rparr>
                in case err of
                     Some e \<Rightarrow> ((Some reported, Some (Wrap ''ensure ENIs'' e)), h2)
                   | None \<Rightarrow>
                       (case collect_ips drv enis h2 of
                          (ips, h3) \<Rightarrow>
                            (if ips = [] then ((Some reported, Some (Err ''no secondary IPs assigned'')), h3)
                             else (case resolve_gateway (nc_gateway cfg) (nc_subnet_cidr cfg) of
                                     Inl e \<Rightarrow> ((Some reported, Some (Wrap ''compute gateway'' e)), h3)
                                   | Inr gateway \<Rightarrow>
                                       ((Some \<lparr>nr_platform = platform_volcengine, nr_subnet_cidr = nc_subnet_cidr cfg,
                                           nr_gateway = gateway,
                                           nr_primary_nic = str_or (nc_primary_nic cfg) (default_nic platform_volcengine),
                                           nr_secondary_nics = secondary_nic_names (length enis),
                                           nr_eni_ids = map ni_id enis, nr_ips = sort_ips ips,
                                           nr_alias_range_name = []\<rparr>, None), h3)))))))"

definition volc_status :: "'c driver \<Rightarrow> ('c, pool_status result) io" where
  "volc_status drv =
     and_then (wrapping ''get instance id'' (volc_fetch_meta drv ''/instance-id'')) (\<lambda>inst.
     and_then (wrapping ''list ENIs'' (list_enis drv inst)) (\<lambda>enis.
     ret \<lparr>pst_enis = map (\<lambda>e. \<lparr>es_id = ni_id e, es_mac = ni_mac e, es_ips = own_ips e\<rparr>) enis, pst_alias_ranges = []\<rparr>))"

definition list_teardown_enis :: "'c driver \<Rightarrow> string list \<Rightarrow> ('c, net_if list result) io" where
  "list_teardown_enis drv ids =
     (if ids \<noteq> [] then list_enis_by_ids drv ids
      else and_then (wrapping ''get instance id'' (volc_fetch_meta drv ''/instance-id'')) (list_enis drv))"

definition detach_args :: "net_if \<Rightarrow> string list" where
  "detach_args e = [''DetachNetworkInterface'', ''--NetworkInterfaceId'', ni_id e, ''--InstanceId'', ni_device e]"

text \<open>The deletion at the end of a turn, and the turns; \<open>errs\<close> is the joined error so far.\<close>

definition delete_eni :: "'c driver \<Rightarrow> net_if \<Rightarrow> error option \<Rightarrow> ('c, error option) io" where
  "delete_eni drv e errs h =
     (case run_ve drv (delete_args (ni_id e)) h of
        (Inl err, h') \<Rightarrow> (join_errors [errs, Some (Wrap ''delete ENI'' err)], h')
      | (Inr _, h') \<Rightarrow> (errs, h'))"

fun teardown_loop :: "'c driver \<Rightarrow> net_if list \<Rightarrow> error option \<Rightarrow> ('c, error option) io" where
  "teardown_loop drv [] errs h = (errs, h)"
| "teardown_loop drv (e # es) errs h =
     (if ni_type e = eni_type_primary then teardown_loop drv es errs h
      else if ni_device e \<noteq> [] then
        (case run_ve drv (detach_args e) h of
           (Inl err, h1) \<Rightarrow> teardown_loop drv es (join_errors [errs, Some (Wrap ''detach ENI'' err)]) h1
         | (Inr _, h1) \<Rightarrow>
             (case sleep_ctx drv attach_propagation_delay h1 of
                (Some err, h2) \<Rightarrow> (join_errors [errs, Some err], h2)
              | (None, h2) \<Rightarrow> (case delete_eni drv e errs h2 of (errs', h3) \<Rightarrow> teardown_loop drv es errs' h3)))
      else (case delete_eni drv e errs h of (errs', h3) \<Rightarrow> teardown_loop drv es errs' h3))"

definition volc_teardown :: "'c driver \<Rightarrow> teardown_config \<Rightarrow> ('c, error option) io" where
  "volc_teardown drv tc h =
     (case list_teardown_enis drv (tc_eni_ids tc) h of
        (Inl e, h') \<Rightarrow> (Some (Wrap ''list ENIs'' e), h')
      | (Inr enis, h') \<Rightarrow> teardown_loop drv enis None h')"

definition volc_adopt :: "net_config \<Rightarrow> ('c, error option) io" where
  "volc_adopt cfg h = (None, h)"

definition volc_platform :: "'c driver \<Rightarrow> nat \<Rightarrow> 'c cloud_platform" where
  "volc_platform drv pages = \<lparr>cp_name = platform_volcengine, cp_provision = volc_provision drv pages,
     cp_status = volc_status drv, cp_teardown = volc_teardown drv, cp_adopt = volc_adopt\<rparr>"

section \<open>Credentials\<close>

definition getenv :: "string \<Rightarrow> 'c host \<Rightarrow> string" where
  "getenv k h = (case h_env h k of None \<Rightarrow> [] | Some v \<Rightarrow> v)"

text \<open>\<open>os.Setenv\<close> refuses a value with a NUL byte; its error is dropped.\<close>

definition set_env :: "string \<Rightarrow> string \<Rightarrow> 'c host \<Rightarrow> 'c host" where
  "set_env k v h = (if CHR 0x00 \<in> set v then h else h\<lparr>h_env := (h_env h)(k \<mapsto> v)\<rparr>)"

definition decode_credentials :: "string \<Rightarrow> (string \<times> string \<times> string) option" where
  "decode_credentials data =
     do { v \<leftarrow> json_parse data; ms \<leftarrow> members_of v;
          a \<leftarrow> decode_field json_string ''access_key_id'' ms [];
          s \<leftarrow> decode_field json_string ''secret_access_key'' ms [];
          r \<leftarrow> decode_field json_string ''region'' ms [];
          Some (a, s, r) }"

definition load_env :: "'c driver \<Rightarrow> ('c, error option) io" where
  "load_env drv h =
     (if getenv ''VOLCENGINE_ACCESS_KEY_ID'' h \<noteq> [] then (None, h)
      else if getenv ''HOME'' h = [] then (None, h)
      else (case read_file drv (join_path [getenv ''HOME'' h, ''.volcengine'', ''config.json'']) h of
              NoFile \<Rightarrow> (None, h)
            | Unreadable \<Rightarrow> (Some (Err ''read''), h)
            | FileData data \<Rightarrow>
                (case decode_credentials data of
                   None \<Rightarrow> (Some (Err ''parse''), h)
                 | Some (a, s, r) \<Rightarrow>
                     (let h1 = (if a \<noteq> [] then set_env ''VOLCENGINE_SECRET_ACCESS_KEY'' s
                                  (set_env ''VOLCENGINE_ACCESS_KEY_ID'' a h) else h)
                      in (None, if r \<noteq> [] then set_env ''VOLCENGINE_REGION'' r h1 else h1)))))"

definition volc_new :: "'c driver \<Rightarrow> ('c, error option) io" where
  "volc_new drv h = (case load_env drv h of (e, h') \<Rightarrow> (wrap_error ''load volcengine env'' e, h'))"

end
