(* ===== verification/Volcengine_Props.thy ===== *)
theory Volcengine_Props
  imports Volcengine
begin

text \<open>
  Which calls the operations of the Volcengine driver make, the driver as an instance of the interface
  \<open>cloud_driver\<close>, and what its calls do to the account's network interfaces: nothing it creates is left
  behind unreported, a teardown deletes what it was asked to, and the search for a subnet ends.
\<close>

section \<open>Traces of calls\<close>

text \<open>
  \<open>ve_steps drv A h h'\<close>: from \<open>h\<close> to \<open>h'\<close> by metadata requests, waits and calls of \<open>ve vpc\<close> whose
  arguments are in \<open>A\<close>.
\<close>

inductive ve_steps :: "'c driver \<Rightarrow> string list set \<Rightarrow> 'c host \<Rightarrow> 'c host \<Rightarrow> bool" for drv A where
  none: "ve_steps drv A h h"
| call: "ve_steps drv A h h1 \<Longrightarrow> args \<in> A \<Longrightarrow>
    ve_steps drv A h (h1\<lparr>h_ext := snd (dr_exec drv ve_binary (''vpc'' # args) (h_ext h1))\<rparr>)"
| ask: "ve_steps drv A h h1 \<Longrightarrow> ve_steps drv A h (h1\<lparr>h_ext := snd (dr_http drv url hs (h_ext h1))\<rparr>)"
| wait: "ve_steps drv A h h1 \<Longrightarrow> ve_steps drv A h (h1\<lparr>h_ext := snd (dr_sleep drv d (h_ext h1))\<rparr>)"

lemma ve_steps_trans:
  assumes "ve_steps drv A h1 h2" and "ve_steps drv A h0 h1"
  shows "ve_steps drv A h0 h2"
  using assms by (induction rule: ve_steps.induct) (auto intro: ve_steps.intros)

lemma ve_steps_mono: "ve_steps drv A h h' \<Longrightarrow> A \<subseteq> B \<Longrightarrow> ve_steps drv B h h'"
  by (induction rule: ve_steps.induct) (auto intro: ve_steps.intros)

lemma ve_steps_frame: "ve_steps drv A h h' \<Longrightarrow> h_files h' = h_files h \<and> h_env h' = h_env h"
  by (induction rule: ve_steps.induct) auto

lemma ve_reflp: "reflp (ve_steps drv A)"
  by (simp add: reflp_def ve_steps.none)

lemma ve_transp: "transp (ve_steps drv A)"
  by (rule transpI) (rule ve_steps_trans)

lemma keeps_run_ve: "args \<in> A \<Longrightarrow> keeps (ve_steps drv A) (run_ve drv args)"
proof (rule keepsI)
  fix h :: "'a host"
  assume a: "args \<in> A"
  obtain r h' where "run_ve drv args h = (r, h')" by fastforce
  then show "ve_steps drv A h (snd (run_ve drv args h))"
    using run_tool_ext ve_steps.call [OF ve_steps.none a] by (force simp: run_ve_def)
qed

lemma keeps_ve_http: "keeps (ve_steps drv A) (fetch_metadata drv url hs)"
proof (rule keepsI)
  fix h :: "'a host"
  have "snd (fetch_metadata drv url hs h) = h\<lparr>h_ext := snd (dr_http drv url hs (h_ext h))\<rparr>"
    by (simp add: fetch_metadata_def ext_call_def split: prod.splits http_reply.splits)
  then show "ve_steps drv A h (snd (fetch_metadata drv url hs h))" by (simp add: ve_steps.ask [OF ve_steps.none])
qed

lemma keeps_sleep: "keeps (ve_steps drv A) (sleep_ctx drv d)"
  by (rule keepsI)
    (simp add: sleep_ctx_def ext_call_def case_prod_beta ve_steps.wait [OF ve_steps.none])

lemmas keeps_ve = keeps_and_then [OF _ _ ve_transp] keeps_wrapping keeps_ret [OF ve_reflp] keeps_run_ve
  keeps_ve_http keeps_sleep

lemma ve_stepsD: "keeps (ve_steps drv A) m \<Longrightarrow> m h = (r, h') \<Longrightarrow> ve_steps drv A h h'"
  by (rule keepsD)

section \<open>Calls that leave the interfaces alone\<close>

text \<open>Everything but creating and deleting one.\<close>

definition plain_call :: "string list \<Rightarrow> bool" where
  "plain_call a \<longleftrightarrow> take 1 a \<noteq> [''CreateNetworkInterface''] \<and> take 1 a \<noteq> [''DeleteNetworkInterface'']"

lemma plain_calls [simp]:
  "plain_call (''DescribeNetworkInterfaces'' # a)" "plain_call (''AssignPrivateIpAddresses'' # a)"
  "plain_call (''DescribeSecurityGroups'' # a)" "plain_call (''DescribeSubnets'' # a)" "plain_call (''CreateSubnet'' # a)"
  "plain_call (attach_args i inst)" "plain_call (detach_args e)"
  by (simp_all add: plain_call_def attach_args_def detach_args_def)

abbreviation quiet :: "'c driver \<Rightarrow> 'c host \<Rightarrow> 'c host \<Rightarrow> bool" where
  "quiet drv \<equiv> ve_steps drv {a. plain_call a}"

lemma quiet_meta: "keeps (quiet drv) (volc_fetch_meta drv p)"
  unfolding volc_fetch_meta_def by (intro keeps_ve) (auto intro: keeps_ve)

lemma quiet_describe: "keeps (quiet drv) (describe_enis drv fs)"
  unfolding describe_enis_def by (intro keeps_ve) simp

lemma quiet_list: "keeps (quiet drv) (list_enis drv inst)"
  unfolding list_enis_def by (rule quiet_describe)

lemma quiet_assign: "keeps (quiet drv) (assign_secondary_ips drv i n)"
  unfolding assign_secondary_ips_def by (intro keeps_ve) simp

lemma quiet_group: "keeps (quiet drv) (get_security_group drv vpc)"
  unfolding get_security_group_def by (intro keeps_ve) (auto intro: keeps_ve split: list.split)

lemma quiet_page: "keeps (quiet drv) (subnets_page drv vpc n)"
  unfolding subnets_page_def subnets_page_args_def by (intro keeps_ve) simp

lemma quiet_find: "keeps (quiet drv) (find_subnet_from drv vpc cidr p n)"
  by (induction n arbitrary: p) (auto intro!: keeps_ve quiet_page split: option.split)

lemma quiet_subnet: "keeps (quiet drv) (ensure_subnet drv pages vpc cidr name)"
  unfolding ensure_subnet_def find_subnet_def
  by (intro keeps_ve quiet_find) (auto intro!: keeps_ve quiet_meta)

lemma quiet_prepare: "keeps (quiet drv) (volc_prepare drv pages cfg)"
  unfolding volc_prepare_def by (intro keeps_ve quiet_meta quiet_group quiet_subnet)

lemma collect_simp:
  "collect_ips drv (e # es) h =
     (if int (length (own_ips e)) < ips_per_eni then
        (let (r, h1) = assign_secondary_ips drv (ni_id e) (ips_per_eni - int (length (own_ips e))) h;
             (ips, h2) = collect_ips drv es h1
         in (own_ips e @ (case r of Inl _ \<Rightarrow> [] | Inr new \<Rightarrow> new) @ ips, h2))
      else (let (ips, h2) = collect_ips drv es h in (own_ips e @ ips, h2)))"
  by (simp add: Let_def)

lemma quiet_collect: "quiet drv h (snd (collect_ips drv es h))"
proof (induction es arbitrary: h)
  case (Cons e es)
  define n where "n = ips_per_eni - int (length (own_ips e))"
  have "quiet drv h (snd (assign_secondary_ips drv (ni_id e) n h))" by (rule keeps_at [OF quiet_assign])
  then have "quiet drv h (snd (collect_ips drv es (snd (assign_secondary_ips drv (ni_id e) n h))))"
    by (rule ve_steps_trans [OF Cons.IH])
  with Cons.IH [of h] show ?case by (simp add: collect_simp n_def Let_def case_prod_beta del: collect_ips.simps)
qed (simp add: ve_steps.none)

lemma quiet_status: "keeps (quiet drv) (volc_status drv)"
  unfolding volc_status_def by (intro keeps_ve quiet_meta quiet_list)

lemma quiet_teardown_list: "keeps (quiet drv) (list_teardown_enis drv ids)"
  unfolding list_teardown_enis_def list_enis_by_ids_def
  by (auto intro!: keeps_ve quiet_meta quiet_list quiet_describe)

section \<open>The interface\<close>

lemma attach_steps: "ve_steps drv UNIV h (snd (attach_eni drv inst i res h))"
proof -
  have orphan: "ve_steps drv UNIV h' (snd (abandon drv i res errs after h'))" for errs after h'
    using keeps_run_ve [of "delete_args i" UNIV drv]
    by (auto simp: abandon_def delete_orphan_def keeps_def split: prod.splits sum.splits option.splits) (metis snd_conv)+
  have sl: "sleep_ctx drv d h0 = (r, h') \<Longrightarrow> ve_steps drv UNIV h0 h'" for d h0 r h' by (rule ve_stepsD [OF keeps_sleep])
  have run: "run_ve drv a h0 = (r, h') \<Longrightarrow> ve_steps drv UNIV h0 h'" for a h0 r h'
    by (rule ve_stepsD [OF keeps_run_ve]) simp_all
  show ?thesis
    by (auto simp: attach_eni_def split: prod.split sum.split option.split
        intro: ve_steps_trans [OF orphan] sl run ve_steps_trans dest!: sl run)
qed

lemma create_steps: "ve_steps drv UNIV h (snd (create_eni drv subnet sg inst prefix i res h))"
proof -
  have "run_ve drv a h = (r, h') \<Longrightarrow> ve_steps drv UNIV h h'" for a r h'
    by (rule ve_stepsD [OF keeps_run_ve]) simp_all
  then show ?thesis
    by (auto simp: create_eni_def split: prod.split sum.split option.split intro: ve_steps_trans [OF attach_steps])
qed

lemma loop_steps: "ve_steps drv UNIV h (snd (eni_loop drv subnet sg inst prefix is res h))"
proof (induction "is" arbitrary: res h)
  case (Cons i "is")
  show ?case using create_steps [of drv h subnet sg inst prefix i res]
    by (auto split: prod.split eni_step.split intro: ve_steps_trans [OF Cons.IH])
qed (simp add: ve_steps.none)

lemma ensure_steps: "ve_steps drv UNIV h (snd (ensure_enis drv subnet sg inst prefix n h))"
proof -
  have "list_enis drv inst h = (r, h1) \<Longrightarrow> ve_steps drv UNIV h h1" for r h1
    by (rule ve_steps_mono [OF ve_stepsD [OF quiet_list]]) auto
  then show ?thesis
    by (auto simp: ensure_enis_def Let_def split: prod.split sum.split intro: ve_steps_trans [OF loop_steps])
qed

lemma provision_steps: "ve_steps drv UNIV h (snd (volc_provision drv pages cfg h))"
proof -
  have prep: "volc_prepare drv pages cfg h = (r, h1) \<Longrightarrow> ve_steps drv UNIV h h1" for r h1
    using ve_steps_mono [OF ve_stepsD [OF quiet_prepare]] by blast
  have ens: "ensure_enis drv subnet sg inst name n h1 = (r, h2) \<Longrightarrow> ve_steps drv UNIV h1 h2" for subnet sg inst name n h1 r h2
    using ensure_steps [of drv h1 subnet sg inst name n] by simp
  have col: "collect_ips drv es h2 = (r, h3) \<Longrightarrow> ve_steps drv UNIV h2 h3" for es h2 r h3
    using ve_steps_mono [OF quiet_collect [of drv h2 es]] by fastforce
  show ?thesis
    by (auto simp: volc_provision_def Let_def split: prod.split sum.split option.split
        intro: prep ve_steps_trans [OF ens prep] ve_steps_trans [OF col ve_steps_trans [OF ens prep]])
qed

lemma teardown_steps: "ve_steps drv UNIV h (snd (volc_teardown drv tc h))"
proof -
  have run: "run_ve drv a h0 = (r, h') \<Longrightarrow> ve_steps drv UNIV h0 h'" for a h0 r h'
    by (rule ve_stepsD [OF keeps_run_ve]) simp_all
  have sl: "sleep_ctx drv d h0 = (r, h') \<Longrightarrow> ve_steps drv UNIV h0 h'" for d h0 r h' by (rule ve_stepsD [OF keeps_sleep])
  have del: "delete_eni drv e errs h0 = (r, h') \<Longrightarrow> ve_steps drv UNIV h0 h'" for e errs h0 r h'
    by (auto simp: delete_eni_def split: prod.splits sum.splits dest: run)
  have loop: "ve_steps drv UNIV h0 (snd (teardown_loop drv es errs h0))" for es errs h0
  proof (induction es arbitrary: errs h0)
    case (Cons e es)
    show ?case
      by (auto split: prod.split sum.split option.split
          intro: Cons.IH sl run ve_steps_trans [OF Cons.IH run] ve_steps_trans [OF sl run]
            ve_steps_trans [OF Cons.IH ve_steps_trans [OF del ve_steps_trans [OF sl run]]]
            ve_steps_trans [OF Cons.IH del])
  qed (simp add: ve_steps.none)
  have "list_teardown_enis drv ids h = (r, h1) \<Longrightarrow> ve_steps drv UNIV h h1" for ids r h1
    using ve_steps_mono [OF ve_stepsD [OF quiet_teardown_list]] by blast
  then show ?thesis
    by (auto simp: volc_teardown_def split: prod.split sum.split intro: ve_steps_trans [OF loop])
qed

interpretation volc: cloud_driver "volc_platform drv pages" "{}" for drv :: "'c driver" and pages :: nat
proof
  fix cfg tc h r h' and p :: path
  show "cp_provision (volc_platform drv pages) cfg h = ((r, None), h') \<Longrightarrow>
      \<exists>res. r = Some res \<and> usable_result (cp_name (volc_platform drv pages)) cfg res"
    by (auto simp: volc_platform_def volc_provision_def usable_result_def Let_def
        split: prod.splits sum.splits option.splits if_splits)
  show "h_files (snd (cp_provision (volc_platform drv pages) cfg h)) p = h_files h p"
    using ve_steps_frame [OF provision_steps [of drv h pages cfg]] by (simp add: volc_platform_def)
  show "h_files (snd (cp_teardown (volc_platform drv pages) tc h)) p = h_files h p"
    using ve_steps_frame [OF teardown_steps [of drv h tc]] by (simp add: volc_platform_def)
  show "h_files (snd (cp_adopt (volc_platform drv pages) cfg h)) p = h_files h p"
    by (simp add: volc_platform_def volc_adopt_def)
  show "h_files (snd (cp_status (volc_platform drv pages) h)) = h_files h"
    using ve_steps_frame [OF keeps_at [OF quiet_status, of drv h]] by (simp add: volc_platform_def)
qed


section \<open>The service\<close>

text \<open>
  What the driver relies on. \<open>live\<close> reads the interfaces of the account. A successful creation adds a
  fresh one and prints its id, a failed one adds none; a successful deletion removes exactly the one it
  names, a failed one at most that; no other call adds or removes any.
\<close>

definition succeeded :: "exit_status \<Rightarrow> bool" where
  "succeeded st \<longleftrightarrow> st \<in> {ExitOk, WaitDelay True}"

definition plain_keeps :: "'c driver \<Rightarrow> ('c \<Rightarrow> string set) \<Rightarrow> bool" where
  "plain_keeps drv live \<longleftrightarrow>
     (\<forall>a c. plain_call a \<longrightarrow> live (snd (dr_exec drv ve_binary (''vpc'' # a) c)) = live c) \<and>
     (\<forall>url hs c. live (snd (dr_http drv url hs c)) = live c) \<and> (\<forall>d c. live (snd (dr_sleep drv d c)) = live c)"

definition creates_one :: "'c driver \<Rightarrow> ('c \<Rightarrow> string set) \<Rightarrow> bool" where
  "creates_one drv live \<longleftrightarrow>
     (\<forall>s g p i c out st c'. dr_exec drv ve_binary (''vpc'' # create_args s g p i) c = ((out, st), c') \<longrightarrow>
        (if succeeded st then \<exists>x. created_id out = Some x \<and> x \<notin> live c \<and> live c' = insert x (live c)
         else live c' = live c))"

definition deletes_one :: "'c driver \<Rightarrow> ('c \<Rightarrow> string set) \<Rightarrow> bool" where
  "deletes_one drv live \<longleftrightarrow>
     (\<forall>x c out st c'. dr_exec drv ve_binary (''vpc'' # delete_args x) c = ((out, st), c') \<longrightarrow>
        live c - {x} \<subseteq> live c' \<and> live c' \<subseteq> live c \<and> (succeeded st \<longrightarrow> live c' = live c - {x}))"

definition ve_ok :: "'c driver \<Rightarrow> ('c \<Rightarrow> string set) \<Rightarrow> bool" where
  "ve_ok drv live \<longleftrightarrow> plain_keeps drv live \<and> creates_one drv live \<and> deletes_one drv live"

lemma run_ve_cases:
  assumes "run_ve drv a h = (r, h')"
  obtains out st c where "dr_exec drv ve_binary (''vpc'' # a) (h_ext h) = ((out, st), c)" "h' = h\<lparr>h_ext := c\<rparr>"
    "succeeded st \<longleftrightarrow> r = Inr out" "succeeded st \<or> (\<exists>e. r = Inl e)"
  using assms
  by (auto simp: run_ve_def run_tool_def run_subprocess_def ext_call_def succeeded_def
      split: prod.splits exit_status.splits if_splits)

lemma quiet_live:
  assumes "ve_ok drv live" and "quiet drv h h'"
  shows "live (h_ext h') = live (h_ext h)"
  using assms(2,1) by (induction rule: ve_steps.induct) (auto simp: ve_ok_def plain_keeps_def)

lemma quiet_keeps_live:
  "ve_ok drv live \<Longrightarrow> keeps (quiet drv) m \<Longrightarrow> m h = (r, h') \<Longrightarrow> live (h_ext h') = live (h_ext h)"
  by (rule quiet_live) (auto dest: keepsD)

lemma plain_live:
  "ve_ok drv live \<Longrightarrow> plain_call a \<Longrightarrow> run_ve drv a h = (r, h') \<Longrightarrow> live (h_ext h') = live (h_ext h)"
  by (rule quiet_keeps_live [OF _ keeps_run_ve]) auto

lemma sleep_live: "ve_ok drv live \<Longrightarrow> sleep_ctx drv d h = (r, h') \<Longrightarrow> live (h_ext h') = live (h_ext h)"
  by (rule quiet_keeps_live [OF _ keeps_sleep])

lemma delete_live:
  assumes "ve_ok drv live" and "run_ve drv (delete_args x) h = (r, h')"
  shows "live (h_ext h) - {x} \<subseteq> live (h_ext h')" and "live (h_ext h') \<subseteq> live (h_ext h)"
    and "r = Inr out \<Longrightarrow> live (h_ext h') = live (h_ext h) - {x}"
proof -
  obtain out st c where e: "dr_exec drv ve_binary (''vpc'' # delete_args x) (h_ext h) = ((out, st), c)"
    and h: "h' = h\<lparr>h_ext := c\<rparr>" "succeeded st \<longleftrightarrow> r = Inr out" "succeeded st \<or> (\<exists>e. r = Inl e)"
    using assms(2) by (rule run_ve_cases)
  have "live (h_ext h) - {x} \<subseteq> live c \<and> live c \<subseteq> live (h_ext h) \<and> (succeeded st \<longrightarrow> live c = live (h_ext h) - {x})"
    using assms(1) e unfolding ve_ok_def deletes_one_def by blast
  with h show "live (h_ext h) - {x} \<subseteq> live (h_ext h')" "live (h_ext h') \<subseteq> live (h_ext h)"
    "r = Inr out' \<Longrightarrow> live (h_ext h') = live (h_ext h) - {x}" for out' by auto
qed

lemma create_live:
  assumes "ve_ok drv live" and "run_ve drv (create_args s g p i) h = (r, h')"
  shows "r = Inl e \<Longrightarrow> live (h_ext h') = live (h_ext h)"
    and "r = Inr out \<Longrightarrow> \<exists>x. created_id out = Some x \<and> x \<notin> live (h_ext h) \<and> live (h_ext h') = insert x (live (h_ext h))"
proof -
  obtain out st c where e: "dr_exec drv ve_binary (''vpc'' # create_args s g p i) (h_ext h) = ((out, st), c)"
    and h: "h' = h\<lparr>h_ext := c\<rparr>" "succeeded st \<longleftrightarrow> r = Inr out" "succeeded st \<or> (\<exists>e. r = Inl e)"
    using assms(2) by (rule run_ve_cases)
  have "if succeeded st then \<exists>x. created_id out = Some x \<and> x \<notin> live (h_ext h) \<and> live c = insert x (live (h_ext h))
      else live c = live (h_ext h)"
    using assms(1) e unfolding ve_ok_def creates_one_def by blast
  with h show "r = Inl e \<Longrightarrow> live (h_ext h') = live (h_ext h)"
    "r = Inr out' \<Longrightarrow> \<exists>x. created_id out' = Some x \<and> x \<notin> live (h_ext h) \<and> live (h_ext h') = insert x (live (h_ext h))"
    for e out' by (auto split: if_splits)
qed

section \<open>No interface is left behind\<close>

text \<open>\<open>accounted B enis h\<close>: the interfaces of \<open>B\<close> are there, and every other one is in the list.\<close>

definition accounted :: "('c \<Rightarrow> string set) \<Rightarrow> string set \<Rightarrow> net_if list \<Rightarrow> 'c host \<Rightarrow> bool" where
  "accounted live B enis h \<longleftrightarrow> B \<subseteq> live (h_ext h) \<and> live (h_ext h) \<subseteq> B \<union> ni_id ` set enis"

lemma bare_eni_id [simp]: "ni_id (bare_eni x) = x"
  by (simp add: bare_eni_def)

fun step_enis :: "eni_step \<Rightarrow> net_if list" where
  "step_enis (GoOn es) = es"
| "step_enis (Return es e) = es"

lemma abandon_accounted:
  assumes ok: "ve_ok drv live" and acc: "accounted live B (res @ [bare_eni x]) h" and new: "x \<notin> B"
    and r: "abandon drv x res errs after h = (st, h')" and after: "\<And>h. step_enis (after res h) = res"
  shows "accounted live B (step_enis st) h'"
proof -
  obtain r h1 where del: "run_ve drv (delete_args x) h = (r, h1)" by fastforce
  have h': "h' = h1" using r del by (auto simp: abandon_def delete_orphan_def split: sum.splits)
  show ?thesis
  proof (cases r)
    case (Inl e)
    then have "step_enis st = res @ [bare_eni x]" using r del by (auto simp: abandon_def delete_orphan_def)
    then show ?thesis using acc new delete_live(1,2) [OF ok del] by (auto simp: accounted_def h')
  next
    case (Inr out)
    then have "step_enis st = res" using r del after by (auto simp: abandon_def delete_orphan_def)
    then show ?thesis using acc new delete_live(3) [OF ok del Inr] by (auto simp: accounted_def h')
  qed
qed

lemma accounted_cong: "live (h_ext h') = live (h_ext h) \<Longrightarrow> accounted live B es h' = accounted live B es h"
  by (simp add: accounted_def)

lemma attach_accounted:
  assumes ok: "ve_ok drv live" and acc: "accounted live B (res @ [bare_eni x]) h" and new: "x \<notin> B"
    and r: "attach_eni drv inst x res h = (st, h')"
  shows "accounted live B (step_enis st) h'"
proof -
  obtain s1 h1 where 1: "sleep_ctx drv create_propagation_delay h = (s1, h1)" by fastforce
  have a1: "accounted live B (res @ [bare_eni x]) h1" using acc sleep_live [OF ok 1] by (simp add: accounted_def)
  obtain r2 h2 where 2: "run_ve drv (attach_args x inst) h1 = (r2, h2)" by fastforce
  have a2: "accounted live B (res @ [bare_eni x]) h2" using a1 plain_live [OF ok _ 2] by (simp add: accounted_def)
  obtain s3 h3 where 3: "sleep_ctx drv attach_propagation_delay h2 = (s3, h3)" by fastforce
  have a3: "accounted live B (res @ [bare_eni x]) h3" using a2 sleep_live [OF ok 3] by (simp add: accounted_def)
  show ?thesis
  proof (cases s1)
    case (Some e)
    then show ?thesis using r 1 by (auto simp: attach_eni_def intro: abandon_accounted [OF ok a1 new])
  next
    case None
    show ?thesis
    proof (cases r2)
      case (Inl e)
      then have "abandon drv x res (\<lambda>cleanup h'. [Some e, cleanup, ctx_err drv h'])
          (\<lambda>res h'. case ctx_err drv h' of Some e \<Rightarrow> Return res e | None \<Rightarrow> GoOn res) h2 = (st, h')"
        using r 1 2 None by (simp add: attach_eni_def)
      then show ?thesis by (rule abandon_accounted [OF ok a2 new]) (simp split: option.split)
    next
      case (Inr out)
      then show ?thesis using r 1 2 3 None a3 by (auto simp: attach_eni_def split: option.splits)
    qed
  qed
qed

lemma loop_accounted:
  assumes ok: "ve_ok drv live"
  shows "accounted live B res h \<Longrightarrow> eni_loop drv subnet sg inst prefix is res h = ((enis, e), h') \<Longrightarrow>
    accounted live B enis h'"
proof (induction "is" arbitrary: res h)
  case (Cons i "is")
  obtain r h1 where cr: "run_ve drv (create_args subnet sg prefix i) h = (r, h1)" by fastforce
  obtain st h2 where st: "create_eni drv subnet sg inst prefix i res h = (st, h2)" by fastforce
  have "accounted live B (step_enis st) h2"
  proof (cases r)
    case (Inl e')
    then show ?thesis using st cr Cons.prems(1) create_live(1) [OF ok cr Inl] by (auto simp: create_eni_def accounted_def)
  next
    case (Inr out)
    then obtain x where x: "created_id out = Some x" "x \<notin> live (h_ext h)" "live (h_ext h1) = insert x (live (h_ext h))"
      using create_live(2) [OF ok cr] by blast
    have "accounted live B (res @ [bare_eni x]) h1" "x \<notin> B" using Cons.prems(1) x by (auto simp: accounted_def)
    then show ?thesis using st cr Inr x(1) by (auto simp: create_eni_def intro: attach_accounted [OF ok])
  qed
  then show ?case using Cons.prems(2) st Cons.IH by (cases st) auto
qed simp

lemma ensure_accounted:
  assumes ok: "ve_ok drv live" and en: "ensure_enis drv subnet sg inst prefix n h = ((enis, err), h')"
  shows "accounted live (live (h_ext h)) enis h'"
proof -
  obtain r h1 where l: "list_enis drv inst h = (r, h1)" by fastforce
  have "live (h_ext h1) = live (h_ext h)" by (rule quiet_keeps_live [OF ok quiet_list l])
  then have acc: "accounted live (live (h_ext h)) res h1" for res by (auto simp: accounted_def)
  show ?thesis
  proof (cases r)
    case (Inl e)
    then show ?thesis using en l acc by (simp add: ensure_enis_def)
  next
    case (Inr es)
    then show ?thesis using en l loop_accounted [OF ok acc] by (simp add: ensure_enis_def Let_def)
  qed
qed

lemma provision_accounts:
  assumes ok: "ve_ok drv live" and r: "volc_provision drv pages cfg h = ((r, e), h')"
  shows "live (h_ext h) \<subseteq> live (h_ext h') \<and>
    live (h_ext h') \<subseteq> live (h_ext h) \<union> set (case r of None \<Rightarrow> [] | Some res \<Rightarrow> nr_eni_ids res)"
proof -
  obtain p h1 where p: "volc_prepare drv pages cfg h = (p, h1)" by fastforce
  have l1: "live (h_ext h1) = live (h_ext h)" by (rule quiet_keeps_live [OF ok quiet_prepare p])
  show ?thesis
  proof (cases p)
    case (Inl e')
    then show ?thesis using r p l1 by (simp add: volc_provision_def)
  next
    case (Inr x)
    then obtain sg subnet inst where x: "p = Inr (sg, subnet, inst)" by (cases x) auto
    obtain enis err h2 where en: "ensure_enis drv subnet sg inst (nc_node_name cfg) enis_per_node h1 = ((enis, err), h2)"
      by (metis surj_pair)
    have "accounted live (live (h_ext h)) enis h2"
      using ensure_accounted [OF ok en] l1 by simp
    moreover have "live (h_ext (snd (collect_ips drv enis h2))) = live (h_ext h2)" by (rule quiet_live [OF ok quiet_collect])
    then have "live (h_ext h') = live (h_ext h2)"
      using r p x en by (auto simp: volc_provision_def Let_def split: option.splits prod.splits sum.splits if_splits)
    moreover have "\<exists>res. r = Some res \<and> nr_eni_ids res = map ni_id enis"
      using r p x en by (auto simp: volc_provision_def Let_def split: option.splits prod.splits sum.splits if_splits)
    ultimately show ?thesis by (auto simp: accounted_def)
  qed
qed


section \<open>Teardown\<close>

text \<open>The interfaces a teardown removes, and the calls it may make for them.\<close>

definition doomed :: "net_if list \<Rightarrow> string set" where
  "doomed enis = ni_id ` {e \<in> set enis. ni_type e \<noteq> eni_type_primary}"

definition teardown_calls :: "net_if list \<Rightarrow> string list set" where
  "teardown_calls enis = {a. \<exists>e \<in> set enis. ni_type e \<noteq> eni_type_primary \<and> (a = detach_args e \<or> a = delete_args (ni_id e))}"

lemma doomed_simps [simp]:
  "doomed [] = {}" "doomed (e # es) = (if ni_type e = eni_type_primary then doomed es else insert (ni_id e) (doomed es))"
  by (auto simp: doomed_def)

lemma teardown_calls_Cons: "teardown_calls es \<subseteq> teardown_calls (e # es)"
  by (auto simp: teardown_calls_def)

text \<open>\<open>shrinks live D h h' all\<close>: at most the interfaces of \<open>D\<close> are gone, and all of them if \<open>all\<close>.\<close>

definition shrinks :: "('c \<Rightarrow> string set) \<Rightarrow> string set \<Rightarrow> 'c host \<Rightarrow> 'c host \<Rightarrow> bool \<Rightarrow> bool" where
  "shrinks live D h h' everything \<longleftrightarrow> live (h_ext h) - D \<subseteq> live (h_ext h') \<and> live (h_ext h') \<subseteq> live (h_ext h) \<and>
     (everything \<longrightarrow> live (h_ext h') = live (h_ext h) - D)"

lemma shrinks_trans:
  "shrinks live D h h1 x \<Longrightarrow> shrinks live E h1 h2 y \<Longrightarrow> (z \<longrightarrow> x \<and> y) \<Longrightarrow> shrinks live (D \<union> E) h h2 z"
  unfolding shrinks_def by blast

lemma shrinks_part: "shrinks live {} h h' True \<Longrightarrow> \<not> y \<Longrightarrow> shrinks live D h h' y"
  unfolding shrinks_def by blast

lemma shrinks_weaken: "shrinks live D h h' False \<Longrightarrow> D \<subseteq> E \<Longrightarrow> \<not> y \<Longrightarrow> shrinks live E h h' y"
  unfolding shrinks_def by blast

lemma delete_eni_shrinks:
  assumes ok: "ve_ok drv live" and d: "delete_eni drv e errs h = (errs', h')"
  shows "shrinks live {ni_id e} h h' (errs' = None)" and "errs' = None \<Longrightarrow> errs = None"
    and "delete_args (ni_id e) \<in> A \<Longrightarrow> ve_steps drv A h h'"
proof -
  obtain r h1 where r: "run_ve drv (delete_args (ni_id e)) h = (r, h1)" by fastforce
  have h: "h1 = h'" using d r by (auto simp: delete_eni_def split: sum.splits)
  show "errs' = None \<Longrightarrow> errs = None" using d r by (auto simp: delete_eni_def split: sum.splits)
  show "delete_args (ni_id e) \<in> A \<Longrightarrow> ve_steps drv A h h'" using r h by (auto dest: ve_stepsD [OF keeps_run_ve])
  have "errs' = None \<Longrightarrow> \<exists>out. r = Inr out" using d r by (auto simp: delete_eni_def split: sum.splits)
  then show "shrinks live {ni_id e} h h' (errs' = None)"
    using delete_live [OF ok r] by (auto simp: shrinks_def h)
qed

text \<open>What the loop over \<open>es\<close> guarantees.\<close>

definition torn :: "'c driver \<Rightarrow> ('c \<Rightarrow> string set) \<Rightarrow> net_if list \<Rightarrow> error option \<Rightarrow> 'c host \<Rightarrow> error option \<Rightarrow> 'c host \<Rightarrow> bool" where
  "torn drv live es errs h e' h' \<longleftrightarrow> shrinks live (doomed es) h h' (e' = None) \<and> (e' = None \<longrightarrow> errs = None) \<and>
     ve_steps drv (teardown_calls es) h h'"

lemma torn_after:
  assumes t: "torn drv live es errs1 h1 e' h'" and s: "shrinks live D h h1 (errs1 = None)"
    and e: "errs1 = None \<Longrightarrow> errs = None" and st: "ve_steps drv (teardown_calls (e # es)) h h1"
    and D: "D \<union> doomed es = doomed (e # es)"
  shows "torn drv live (e # es) errs h e' h'"
proof -
  have "shrinks live (D \<union> doomed es) h h' (e' = None)"
    by (rule shrinks_trans [OF s, where y = "e' = None"]) (use t in \<open>auto simp: torn_def\<close>)
  moreover have "ve_steps drv (teardown_calls (e # es)) h1 h'"
    using t ve_steps_mono [OF _ teardown_calls_Cons] by (auto simp: torn_def)
  ultimately show ?thesis using t e ve_steps_trans [OF _ st] D by (auto simp: torn_def)
qed

lemma torn_delete:
  assumes ok: "ve_ok drv live" and np: "ni_type e \<noteq> eni_type_primary"
    and q: "live (h_ext h0) = live (h_ext h)" "ve_steps drv (teardown_calls (e # es)) h h0"
    and d: "delete_eni drv e errs h0 = (errs1, h1)" and t: "torn drv live es errs1 h1 e' h'"
  shows "torn drv live (e # es) errs h e' h'"
proof (rule torn_after [OF t])
  note del = delete_eni_shrinks [OF ok d]
  show "shrinks live {ni_id e} h h1 (errs1 = None)" using del(1) q(1) by (simp add: shrinks_def)
  show "errs1 = None \<Longrightarrow> errs = None" by (rule del(2))
  show "ve_steps drv (teardown_calls (e # es)) h h1"
    by (rule ve_steps_trans [OF del(3) q(2)]) (use np in \<open>auto simp: teardown_calls_def\<close>)
  show "{ni_id e} \<union> doomed es = doomed (e # es)" using np by simp
qed

lemma torn_stop:
  "live (h_ext h') = live (h_ext h) \<Longrightarrow> ve_steps drv (teardown_calls es) h h' \<Longrightarrow> torn drv live es errs h (Some e) h'"
  by (auto simp: torn_def shrinks_def)

lemma teardown_loop_torn:
  assumes ok: "ve_ok drv live"
  shows "teardown_loop drv es errs h = (e', h') \<Longrightarrow> torn drv live es errs h e' h'"
proof (induction es arbitrary: errs h)
  case Nil
  then show ?case by (auto simp: torn_def shrinks_def ve_steps.none)
next
  case (Cons e es)
  consider "ni_type e = eni_type_primary" | "ni_type e \<noteq> eni_type_primary" "ni_device e = []"
    | "ni_type e \<noteq> eni_type_primary" "ni_device e \<noteq> []" by blast
  then show ?case
  proof cases
    case 1
    then have "torn drv live es errs h e' h'" using Cons by simp
    then show ?thesis
      by (rule torn_after [where D = "{}"]) (use 1 in \<open>auto simp: shrinks_def ve_steps.none\<close>)
  next
    case 2
    obtain errs1 h1 where d: "delete_eni drv e errs h = (errs1, h1)" by fastforce
    with 2 Cons show ?thesis by (auto intro: torn_delete [OF ok 2(1) _ ve_steps.none d])
  next
    case 3
    have call: "detach_args e \<in> teardown_calls (e # es)" using 3 by (auto simp: teardown_calls_def)
    obtain r h1 where r: "run_ve drv (detach_args e) h = (r, h1)" by fastforce
    note s1 = plain_live [OF ok _ r, simplified] ve_stepsD [OF keeps_run_ve [OF call] r]
    obtain s h2 where s: "sleep_ctx drv attach_propagation_delay h1 = (s, h2)" by fastforce
    have l: "live (h_ext h2) = live (h_ext h)" using sleep_live [OF ok s] s1(1) by simp
    note st = ve_steps_trans [OF ve_stepsD [OF keeps_sleep s] s1(2)]
    consider err where "r = Inl err" | out err where "r = Inr out" "s = Some err" | out where "r = Inr out" "s = None"
      by (cases r; cases s) auto
    then show ?thesis
    proof cases
      case 1
      then have "torn drv live es (join_errors [errs, Some (Wrap ''detach ENI'' err)]) h1 e' h'" using Cons 3 r by auto
      then have t: "torn drv live es (join_errors [errs, Some (Wrap ''detach ENI'' err)]) h1 e' h'" "e' \<noteq> None"
        by (auto simp: torn_def)
      then show ?thesis using s1 ve_steps_trans [OF ve_steps_mono [OF _ teardown_calls_Cons] s1(2)]
        by (auto simp: torn_def shrinks_def 3)
    next
      case 2
      then show ?thesis using Cons.prems 3 r s l st by (auto intro: torn_stop simp: join_errors_def List.map_filter_simps split: option.splits)
    next
      case t: 3
      obtain errs1 h3 where d: "delete_eni drv e errs h2 = (errs1, h3)" by fastforce
      with t r s 3 Cons show ?thesis by (auto intro: torn_delete [OF ok 3(1) l st d])
    qed
  qed
qed

text \<open>
  C31. A teardown removes what it was asked to and nothing else. Beyond the listing it makes only
  detach and delete calls, for listed interfaces that are not primary; whatever fails, no other interface
  disappears; and when it reports no error, every listed interface that is not primary is gone.
\<close>

theorem teardown_exact:
  assumes ok: "ve_ok drv live" and l: "list_teardown_enis drv (tc_eni_ids tc) h = (Inr enis, h1)"
    and t: "volc_teardown drv tc h = (e, h')"
  shows "ve_steps drv (teardown_calls enis) h1 h' \<and>
    live (h_ext h) - doomed enis \<subseteq> live (h_ext h') \<and> live (h_ext h') \<subseteq> live (h_ext h) \<and>
    (e = None \<longrightarrow> live (h_ext h') = live (h_ext h) - doomed enis)"
proof -
  have "live (h_ext h1) = live (h_ext h)" by (rule quiet_keeps_live [OF ok quiet_teardown_list l])
  moreover have "teardown_loop drv enis None h1 = (e, h')" using t l by (simp add: volc_teardown_def)
  then have "torn drv live enis None h1 e h'" by (rule teardown_loop_torn [OF ok])
  ultimately show ?thesis by (auto simp: torn_def shrinks_def)
qed

section \<open>The search for a subnet\<close>

text \<open>The service pages through the VPC's subnets \<open>subs\<close> in a fixed order.\<close>

definition page_of :: "'a list \<Rightarrow> nat \<Rightarrow> 'a list" where
  "page_of xs n = take ve_page_size (drop (ve_page_size * (n - 1)) xs)"

definition pages_subnets :: "'c driver \<Rightarrow> string \<Rightarrow> (string \<times> string) list \<Rightarrow> bool" where
  "pages_subnets drv vpc subs \<longleftrightarrow> (\<forall>n h. 0 < n \<longrightarrow> (\<exists>h'. subnets_page drv vpc n h = (Inr (page_of subs n), h')))"

definition subnet_with :: "string \<Rightarrow> (string \<times> string) list \<Rightarrow> string" where
  "subnet_with cidr subs = (case find (\<lambda>s. snd s = cidr) subs of None \<Rightarrow> [] | Some s \<Rightarrow> fst s)"

lemma find_append: "find P (xs @ ys) = (case find P xs of None \<Rightarrow> find P ys | Some x \<Rightarrow> Some x)"
  by (induction xs) auto

lemma find_subnet_from_pages:
  assumes "pages_subnets drv vpc subs"
  shows "length (drop (ve_page_size * p) subs) < ve_page_size * n \<Longrightarrow>
    \<exists>h'. find_subnet_from drv vpc cidr (p + 1) n h = (Inr (subnet_with cidr (drop (ve_page_size * p) subs)), h')"
proof (induction n arbitrary: p h)
  case (Suc n)
  define rest where "rest = drop (ve_page_size * p) subs"
  obtain h1 where pg: "subnets_page drv vpc (p + 1) h = (Inr (take ve_page_size rest), h1)"
    using assms unfolding pages_subnets_def page_of_def rest_def by fastforce
  have next_page: "drop (ve_page_size * (p + 1)) subs = drop ve_page_size rest"
    by (simp add: rest_def drop_drop)
  have sw: "subnet_with cidr rest = (case find (\<lambda>s. snd s = cidr) (take ve_page_size rest) of
      None \<Rightarrow> subnet_with cidr (drop ve_page_size rest) | Some s \<Rightarrow> fst s)"
    using find_append [of "\<lambda>s. snd s = cidr" "take ve_page_size rest" "drop ve_page_size rest"]
    by (simp add: subnet_with_def split: option.split)
  show ?case
  proof (cases "find (\<lambda>s. snd s = cidr) (take ve_page_size rest)")
    case (Some s)
    then show ?thesis using pg sw by (simp add: and_then_def ret_def flip: rest_def)
  next
    case None
    show ?thesis
    proof (cases "length rest < ve_page_size")
      case True
      then have "subnet_with cidr rest = []" using sw None by (simp add: subnet_with_def)
      then show ?thesis using pg None True by (simp add: and_then_def ret_def flip: rest_def)
    next
      case False
      have "length (drop (ve_page_size * (p + 1)) subs) < ve_page_size * n"
        using Suc.prems False unfolding next_page rest_def by simp
      then obtain h' where "find_subnet_from drv vpc cidr (p + 1 + 1) n h1 =
          (Inr (subnet_with cidr (drop (ve_page_size * (p + 1)) subs)), h')"
        using Suc.IH by blast
      then show ?thesis using pg None False sw next_page by (simp add: and_then_def flip: rest_def)
    qed
  qed
qed simp

text \<open>
  C32. The search for the subnet ends, within one page more than the full ones, and finds the first
  subnet of the VPC with the wanted CIDR, or the empty id when there is none.
\<close>

theorem find_subnet_ends:
  assumes "pages_subnets drv vpc subs" and "length subs div ve_page_size < pages"
  shows "\<exists>h'. find_subnet drv pages vpc cidr h = (Inr (subnet_with cidr subs), h')"
proof -
  have "length subs < ve_page_size * pages"
    using assms(2) by (simp add: ve_page_size_def div_less_iff_less_mult mult.commute)
  then show ?thesis using find_subnet_from_pages [OF assms(1), of 0 pages cidr h] by (simp add: find_subnet_def)
qed

section \<open>A service that behaves as documented\<close>

text \<open>
  Its state is the list of the secondary interfaces. With \<open>bad\<close>, attaching and deleting fail.
\<close>

definition w_fresh :: "string list \<Rightarrow> string" where
  "w_fresh c = replicate (Suc (sum_list (map length c))) (CHR ''x'')"

definition w_reply :: "string \<Rightarrow> json \<Rightarrow> string" where
  "w_reply k v = json_marshal_indent (JObj [(''Result'', JObj [(k, v)])])"

definition w_eni_json :: "net_if \<Rightarrow> json" where
  "w_eni_json e = JObj [(''NetworkInterfaceId'', JStr (ni_id e)), (''DeviceId'', JStr (ni_device e)), (''Type'', JStr (ni_type e))]"

definition w_eni :: "string \<Rightarrow> string \<Rightarrow> net_if" where
  "w_eni t x = \<lparr>ni_id = x, ni_device = ''i'', ni_mac = [], ni_type = t, ni_private = []\<rparr>"

definition w_listing :: "string list \<Rightarrow> net_if list" where
  "w_listing c = w_eni eni_type_primary ''p'' # map (w_eni ''secondary'') c"

definition w_ve_exec :: "bool \<Rightarrow> string list \<Rightarrow> string list \<Rightarrow> (string \<times> exit_status) \<times> string list" where
  "w_ve_exec bad args c =
     (let verb = (case args of _ # v # _ \<Rightarrow> v | _ \<Rightarrow> [])
      in if verb = ''CreateNetworkInterface'' then
           ((w_reply ''NetworkInterfaceId'' (JStr (w_fresh c)), ExitOk), w_fresh c # c)
         else if verb = ''DeleteNetworkInterface'' then
           (if bad then (([], ExitFailed), c) else (([], ExitOk), removeAll (last args) c))
         else if verb = ''AttachNetworkInterface'' then (([], if bad then ExitFailed else ExitOk), c)
         else if verb = ''DescribeNetworkInterfaces'' then
           ((w_reply ''NetworkInterfaceSets'' (JArr (map w_eni_json (w_listing c))), ExitOk), c)
         else if verb = ''DescribeSecurityGroups'' then
           ((w_reply ''SecurityGroups'' (JArr [JObj [(''SecurityGroupId'', JStr ''sg'')]]), ExitOk), c)
         else ((''{}'', ExitOk), c))"

definition w_ve :: "bool \<Rightarrow> string list driver" where
  "w_ve bad = bare_driver\<lparr>dr_exec := (\<lambda>b args c. w_ve_exec bad args c),
     dr_http := (\<lambda>url hs c. (HttpReply 200 (Some ''m''), c))\<rparr>"

lemma w_ve_fields [simp]:
  "dr_exec (w_ve bad) b args c = w_ve_exec bad args c" "dr_http (w_ve bad) url hs c = (HttpReply 200 (Some ''m''), c)"
  "dr_sleep (w_ve bad) d c = (True, c)" "dr_cancelled (w_ve bad) c = False"
  by (simp_all add: w_ve_def bare_driver_def)

lemma w_ve_runs:
  "w_ve_exec bad (''vpc'' # create_args s g p i) c = ((w_reply ''NetworkInterfaceId'' (JStr (w_fresh c)), ExitOk), w_fresh c # c)"
  "w_ve_exec bad (''vpc'' # delete_args x) c = (if bad then (([], ExitFailed), c) else (([], ExitOk), removeAll x c))"
  "w_ve_exec bad (''vpc'' # attach_args x j) c = (([], if bad then ExitFailed else ExitOk), c)"
  "w_ve_exec bad (''vpc'' # detach_args e) c = ((''{}'', ExitOk), c)"
  "w_ve_exec bad (''vpc'' # ''DescribeNetworkInterfaces'' # fs) c =
     ((w_reply ''NetworkInterfaceSets'' (JArr (map w_eni_json (w_listing c))), ExitOk), c)"
  "w_ve_exec bad (''vpc'' # ''DescribeSecurityGroups'' # fs) c =
     ((w_reply ''SecurityGroups'' (JArr [JObj [(''SecurityGroupId'', JStr ''sg'')]]), ExitOk), c)"
  "w_ve_exec bad (''vpc'' # ''DescribeSubnets'' # fs) c = ((''{}'', ExitOk), c)"
  "w_ve_exec bad (''vpc'' # ''CreateSubnet'' # fs) c = ((''{}'', ExitOk), c)"
  by (simp_all add: w_ve_exec_def create_args_def delete_args_def attach_args_def detach_args_def Let_def)

lemma w_ve_plain: "plain_call a \<Longrightarrow> set (snd (w_ve_exec bad (''vpc'' # a) c)) = set c"
  by (cases a) (auto simp: w_ve_exec_def plain_call_def Let_def)

lemma w_ve_keys [simp]:
  "field_is ''Result'' ''Result''" "field_is ''NetworkInterfaceId'' ''NetworkInterfaceId''"
  "field_is ''NetworkInterfaceSets'' ''NetworkInterfaceSets''" "field_is ''SecurityGroups'' ''SecurityGroups''"
  "field_is ''SecurityGroupId'' ''SecurityGroupId''" "field_is ''DeviceId'' ''DeviceId''" "field_is ''Type'' ''Type''"
  "\<not> field_is ''NetworkInterfaceId'' ''DeviceId''" "\<not> field_is ''NetworkInterfaceId'' ''Type''"
  "\<not> field_is ''DeviceId'' ''NetworkInterfaceId''" "\<not> field_is ''DeviceId'' ''Type''"
  "\<not> field_is ''Type'' ''NetworkInterfaceId''" "\<not> field_is ''Type'' ''DeviceId''"
  "\<not> field_is ''MacAddress'' ''NetworkInterfaceId''" "\<not> field_is ''MacAddress'' ''DeviceId''" "\<not> field_is ''MacAddress'' ''Type''"
  "\<not> field_is ''PrivateIpSets'' ''NetworkInterfaceId''" "\<not> field_is ''PrivateIpSets'' ''DeviceId''" "\<not> field_is ''PrivateIpSets'' ''Type''"
  by code_simp+

lemma w_result: "json_plain v \<Longrightarrow> field_is k k \<Longrightarrow> ve_result dc k z (w_reply k v) = dc v z"
  by (simp add: ve_result_def w_reply_def json_parse_marshal members_of_def decode_inner_def)

lemma w_created: "created_id (w_reply ''NetworkInterfaceId'' (JStr x)) = Some x"
  unfolding created_id_def by (subst w_result) (simp_all add: json_string_def)

lemma w_decode_eni: "decode_net_if (w_eni_json (w_eni t x)) = Some (w_eni t x)"
  by (simp add: decode_net_if_def w_eni_json_def w_eni_def members_of_def json_string_def)

lemma w_listed: "ve_result (decode_slice decode_net_if) ''NetworkInterfaceSets'' [] (w_reply ''NetworkInterfaceSets''
    (JArr (map w_eni_json (w_listing c)))) = Some (w_listing c)"
proof -
  have "decode_all decode_net_if (map w_eni_json (map (w_eni t) c)) = Some (map (w_eni t) c)" for t
    by (induction c) (simp_all add: w_decode_eni)
  then have "decode_all decode_net_if (map w_eni_json (w_listing c)) = Some (w_listing c)"
    by (simp add: w_listing_def w_decode_eni del: map_map)
  then show ?thesis by (subst w_result) (auto simp: decode_slice_def w_eni_json_def)
qed

lemma w_ve_ok: "ve_ok (w_ve bad) set"
proof -
  have "w_fresh c \<notin> set c" for c
  proof
    assume "w_fresh c \<in> set c"
    then have "length (w_fresh c) \<le> sum_list (map length c)" by (simp add: member_le_sum_list)
    then show False by (simp add: w_fresh_def)
  qed
  then show ?thesis
    by (auto simp: ve_ok_def plain_keeps_def creates_one_def deletes_one_def succeeded_def w_ve_runs w_created w_ve_plain)
qed

abbreviation w_ve_host :: "string list \<Rightarrow> string list host" where
  "w_ve_host c \<equiv> \<lparr>h_files = Map.empty, h_env = Map.empty, h_ext = c\<rparr>"

lemma w_run_ve:
  "w_ve_exec bad (''vpc'' # a) (h_ext h) = ((out, ExitOk), c) \<Longrightarrow> run_ve (w_ve bad) a h = (Inr out, h\<lparr>h_ext := c\<rparr>)"
  "w_ve_exec bad (''vpc'' # a) (h_ext h) = ((out, ExitFailed), c) \<Longrightarrow>
     run_ve (w_ve bad) a h = (Inl (Wrap ve_binary (Err out)), h\<lparr>h_ext := c\<rparr>)"
  by (simp_all add: run_ve_def run_tool_def run_subprocess_def ext_call_def)

lemma w_list: "describe_enis (w_ve bad) fs h = (Inr (w_listing (h_ext h)), h)"
  by (simp add: describe_enis_def and_then_def w_run_ve(1) [OF w_ve_runs(5)] w_listed lift_result_def parsed_def)

lemma w_volc_meta: "volc_fetch_meta (w_ve bad) p h = (Inr ''m'', h)"
proof -
  have "trim_space ''m'' = ''m''" by (simp add: trim_space_plain graphic_def)
  then show ?thesis by (simp add: volc_fetch_meta_def and_then_def fetch_metadata_def ext_call_def ret_def)
qed

lemma w_prepare: "volc_prepare (w_ve bad) (Suc n) cfg h = (Inr (''sg'', [], ''m''), h)"
proof -
  have sg: "ve_result (decode_slice decode_sg) ''SecurityGroups'' []
      (w_reply ''SecurityGroups'' (JArr [JObj [(''SecurityGroupId'', JStr ''sg'')]])) = Some [''sg'']"
    by (subst w_result) (simp_all add: decode_slice_def decode_sg_def members_of_def json_string_def)
  have none: "ve_result (decode_slice decode_subnet) ''Subnets'' [] ''{}'' = Some []"
    "ve_result json_string ''SubnetId'' [] ''{}'' = Some []" by code_simp+
  show ?thesis
    by (simp add: volc_prepare_def and_then_def wrapping_def w_volc_meta get_security_group_def
        w_run_ve(1) [OF w_ve_runs(6)] w_run_ve(1) [OF w_ve_runs(7)] w_run_ve(1) [OF w_ve_runs(8)] sg none parsed_def
        lift_result_def ret_def ensure_subnet_def find_subnet_def subnets_page_def subnets_page_args_def ve_page_size_def)
qed

definition w_volc_conf :: net_config where
  "w_volc_conf = \<lparr>nc_node_name = ''n'', nc_subnet_cidr = ''172.20.1.0/24'', nc_pool_size = 3, nc_gateway = [], nc_primary_nic = []\<rparr>"

lemma w_orphan:
  "\<exists>e. ensure_enis (w_ve True) [] ''sg'' ''m'' ''n'' enis_per_node (w_ve_host []) = (([bare_eni ''x''], Some e), w_ve_host [''x''])"
proof -
  have sel: "select_reusable (w_listing []) enis_per_node = []"
    by (simp add: select_reusable_def w_listing_def w_eni_def)
  have first: "[length ([] :: net_if list) + 1..<enis_per_node + 1] = 1 # [2..<8]"
    by (simp add: enis_per_node_def upt_conv_Cons numeral_2_eq_2 del: upt_Suc)
  have "create_eni (w_ve True) [] ''sg'' ''m'' ''n'' 1 [] (w_ve_host []) = (Return [bare_eni ''x''] e, w_ve_host [''x'']) \<Longrightarrow> ?thesis" for e
    by (simp only: ensure_enis_def list_enis_def w_list prod.case sum.case Let_def host.simps sel first eni_loop.simps eni_step.case) simp
  then show ?thesis
    by (simp add: create_eni_def w_run_ve(1) [OF w_ve_runs(1)] w_created attach_eni_def
        sleep_ctx_def ext_call_def ok_or_def abandon_def delete_orphan_def w_run_ve(2) w_ve_runs w_fresh_def)
qed


theorem teardown_exact_witness:
  "\<exists>h'. volc_teardown (w_ve False) \<lparr>tc_eni_ids = [''x''], tc_alias_range_name = [], tc_subnet_cidr = []\<rparr> (w_ve_host [''x'']) =
     (None, h') \<and> set (h_ext h') = {''x''} - doomed (w_listing [''x''])"
proof -
  let ?tc = "\<lparr>tc_eni_ids = [''x''], tc_alias_range_name = [], tc_subnet_cidr = []\<rparr>"
  have l: "list_teardown_enis (w_ve False) (tc_eni_ids ?tc) (w_ve_host [''x'']) = (Inr (w_listing [''x'']), w_ve_host [''x''])"
    by (simp add: list_teardown_enis_def list_enis_by_ids_def w_list)
  have "eni_type_primary \<noteq> ''secondary''" by (simp add: eni_type_primary_def)
  then have t: "volc_teardown (w_ve False) ?tc (w_ve_host [''x'']) = (None, w_ve_host [])"
    using l by (simp add: volc_teardown_def w_listing_def w_eni_def w_run_ve(1) [OF w_ve_runs(4)] sleep_ctx_def ext_call_def
        ok_or_def delete_eni_def w_run_ve(1) w_ve_runs)
  from teardown_exact [OF w_ve_ok l t] t show ?thesis by auto
qed

theorem find_subnet_ends_witness:
  "\<exists>h'. find_subnet (w_ve False) 1 ''m'' ''172.20.1.0/24'' (w_ve_host []) = (Inr [], h')"
proof -
  have "ve_result (decode_slice decode_subnet) ''Subnets'' [] ''{}'' = Some []" by code_simp
  then have "pages_subnets (w_ve False) ''m'' []"
    by (simp add: pages_subnets_def subnets_page_def subnets_page_args_def and_then_def wrapping_def parsed_def
        w_run_ve(1) [OF w_ve_runs(7)] lift_result_def page_of_def)
  from find_subnet_ends [OF this, of 1 "''172.20.1.0/24''" "w_ve_host []"] show ?thesis
    by (simp add: subnet_with_def ve_page_size_def)
qed

end
