(* ===== verification/Node.thy ===== *)
theory Node
  imports Host Go_Json "HOL-Library.AList" "HOL-Library.Char_ord" "HOL-Library.List_Lexorder"
begin

text \<open>
  \<open>node\<close>: the host's network configuration: secondary interfaces, bridge, kernel parameters, iptables
  rules and the CNI configuration. Netlink and iptables are reached through the driver; the order in which
  a Go map is walked is an argument. The stubs for systems other than Linux only return an error.
\<close>

section \<open>Constants and configuration\<close>

definition bridge_name :: string where "bridge_name = ''cni0''"
definition cni_conf_dir :: path where "cni_conf_dir = ''/etc/cni/net.d''"
definition cni_conf_file :: string where "cni_conf_file = ''30-cocoon-dhcp.conflist''"
definition node_file_perm :: file_mode where "node_file_perm = 420"
definition proc_sys_base :: path where "proc_sys_base = ''/proc/sys''"
definition drop_rule_comment :: string where "drop_rule_comment = ''cocoon-net-drop''"

record node_config =
  nd_gateway :: string
  nd_subnet_cidr :: string
  nd_primary_nic :: string
  nd_secondary_nics :: "string list"
  nd_skip_iptables :: bool
  nd_drop_internal :: bool
  nd_drop_cidrs :: "string list"

section \<open>Links\<close>

fun present_links :: "'c driver \<Rightarrow> string list \<Rightarrow> ('c, string list) io" where
  "present_links drv [] h = ([], h)"
| "present_links drv (n # ns) h =
     (case link_by_name drv n h of
        (Inl _, h1) \<Rightarrow> present_links drv ns h1
      | (Inr _, h1) \<Rightarrow> (case present_links drv ns h1 of (ps, h2) \<Rightarrow> (n # ps, h2)))"

text \<open>The map from names to addresses, as an association list.\<close>

fun link_macs_into :: "'c driver \<Rightarrow> string list \<Rightarrow> (string \<times> string) list \<Rightarrow> ('c, (string \<times> string) list) io" where
  "link_macs_into drv [] macs h = (macs, h)"
| "link_macs_into drv (n # ns) macs h =
     (case link_by_name drv n h of
        (Inl _, h1) \<Rightarrow> link_macs_into drv ns macs h1
      | (Inr l, h1) \<Rightarrow> link_macs_into drv ns (AList.update n (mac_string (lk_mac l)) macs) h1)"

definition link_macs :: "'c driver \<Rightarrow> string list \<Rightarrow> ('c, (string \<times> string) list) io" where
  "link_macs drv ns = link_macs_into drv ns []"

definition link_mtu :: "'c driver \<Rightarrow> string \<Rightarrow> ('c, int result) io" where
  "link_mtu drv n = and_then (link_by_name drv n) (\<lambda>l. ret (lk_mtu l))"

fun setup_secondary_nics :: "'c driver \<Rightarrow> string list \<Rightarrow> ('c, unit result) io" where
  "setup_secondary_nics drv [] = ret ()"
| "setup_secondary_nics drv (n # ns) =
     and_then (link_by_name drv n) (\<lambda>l.
     and_then (check_ok ''set link up'' (ext_call (dr_set_up drv l))) (\<lambda>_.
     setup_secondary_nics drv ns))"

definition usable_secondary_nics :: "'c driver \<Rightarrow> string list \<Rightarrow> string list \<Rightarrow> ('c, string list result) io" where
  "usable_secondary_nics drv expected present =
     and_then (ignoring (ext_call (dr_gauge drv ''expected'' (length expected)))) (\<lambda>_.
     and_then (ignoring (ext_call (dr_gauge drv ''present'' (length present)))) (\<lambda>_.
     if expected \<noteq> [] \<and> present = [] then fail_with (Err ''none of the secondary NICs is present'')
     else ret present))"

section \<open>The bridge\<close>

definition add_bridge :: "'c driver \<Rightarrow> int \<Rightarrow> ('c, unit result) io" where
  "add_bridge drv mtu h =
     (case ext_call (dr_add_bridge drv bridge_name mtu) h of
        (LinkAddFailed, h') \<Rightarrow> (Inl (Err ''create bridge''), h') | (_, h') \<Rightarrow> (Inr (), h'))"

definition gateway_net :: "string \<Rightarrow> string \<Rightarrow> ipnet result" where
  "gateway_net gateway cidr =
     (case parse_cidr cidr of
        None \<Rightarrow> Inl (Err ''parse subnet cidr'')
      | Some (_, n) \<Rightarrow>
          (let ip = parse_ip gateway
           in if ip = [] then Inl (Err ''invalid gateway ip'')
              else if to4 ip = [] then Inl (Err ''gateway is not ipv4'')
              else Inr (n\<lparr>net_ip := to4 ip\<rparr>)))"

definition setup_bridge :: "'c driver \<Rightarrow> string \<Rightarrow> string \<Rightarrow> int \<Rightarrow> ('c, unit result) io" where
  "setup_bridge drv gateway cidr mtu =
     and_then (add_bridge drv mtu) (\<lambda>_.
     and_then (wrapping ''get bridge'' (link_by_name drv bridge_name)) (\<lambda>l.
     and_then (if lk_mtu l \<noteq> mtu then check_ok ''set mtu'' (ext_call (dr_set_mtu drv l mtu)) else ret ()) (\<lambda>_.
     and_then (lift_result (gateway_net gateway cidr)) (\<lambda>n.
     and_then (check_ok ''assign address'' (ext_call (dr_addr_replace drv l n))) (\<lambda>_.
     check_ok ''bring up'' (ext_call (dr_set_up drv l)))))))"

section \<open>Kernel parameters\<close>

definition sysctl_path :: "string \<Rightarrow> path" where
  "sysctl_path key = join_path [proc_sys_base, replace_char (CHR ''.'') (CHR ''/'') key]"

definition write_sysctl :: "'c driver \<Rightarrow> string \<Rightarrow> string \<Rightarrow> ('c, unit result) io" where
  "write_sysctl drv key val = check_ok ''write'' (write_file drv (sysctl_path key) val node_file_perm)"

definition required_sysctls :: "(string \<times> string) list" where
  "required_sysctls =
     [(''net.ipv4.ip_forward'', ''1''), (''net.ipv4.conf.all.rp_filter'', ''0''),
      (''net.ipv4.conf.default.rp_filter'', ''0''), (''net.ipv4.conf.'' @ bridge_name @ ''.rp_filter'', ''0'')]"

fun write_required :: "'c driver \<Rightarrow> (string \<times> string) list \<Rightarrow> ('c, unit result) io" where
  "write_required drv [] = ret ()"
| "write_required drv ((k, v) # kvs) =
     and_then (wrapping ''write sysctl'' (write_sysctl drv k v)) (\<lambda>_. write_required drv kvs)"

fun write_best_effort :: "'c driver \<Rightarrow> string list \<Rightarrow> ('c, unit result) io" where
  "write_best_effort drv [] = ret ()"
| "write_best_effort drv (i # is) =
     and_then (ignoring (write_sysctl drv (''net.ipv4.conf.'' @ i @ ''.rp_filter'') ''0'')) (\<lambda>_.
     write_best_effort drv is)"

text \<open>\<open>order\<close> is the order in which the map of required keys is walked.\<close>

definition setup_sysctl :: "'c driver \<Rightarrow> (string \<times> string) list \<Rightarrow> string \<Rightarrow> string list \<Rightarrow> ('c, unit result) io" where
  "setup_sysctl drv order primary secondary =
     and_then (write_required drv order) (\<lambda>_.
     write_best_effort drv ((if primary \<noteq> [] then [primary] else []) @ secondary))"

section \<open>iptables\<close>

definition ensure_ipt_rule :: "'c driver \<Rightarrow> string \<Rightarrow> string \<Rightarrow> bool \<Rightarrow> string list \<Rightarrow> ('c, unit result) io" where
  "ensure_ipt_rule drv table chain at_head args h =
     (case ext_call (dr_ipt_exists drv table chain args) h of
        (None, h1) \<Rightarrow> (Inl (Err ''check rule''), h1)
      | (Some True, h1) \<Rightarrow> (Inr (), h1)
      | (Some False, h1) \<Rightarrow>
          check_ok ''add rule'' (ext_call (if at_head then dr_ipt_insert drv table chain 1 args
                                           else dr_ipt_append drv table chain args)) h1)"

text \<open>The arguments of the rules.\<close>

definition accept_args :: "string \<Rightarrow> string \<Rightarrow> string list" where
  "accept_args i out = [''-i'', i, ''-o'', out, ''-j'', ''ACCEPT'']"

definition masquerade_args :: "string \<Rightarrow> string list" where
  "masquerade_args cidr = [''-s'', cidr, ''!'', ''-o'', bridge_name, ''-j'', ''MASQUERADE'']"

definition drop_args :: "string \<Rightarrow> string list" where
  "drop_args dst = [''-i'', bridge_name, ''-d'', dst, ''-m'', ''comment'', ''--comment'', drop_rule_comment, ''-j'', ''DROP'']"

definition filter_table :: string where "filter_table = ''filter''"
definition forward :: string where "forward = ''FORWARD''"
definition nat_table :: string where "nat_table = ''nat''"
definition postrouting :: string where "postrouting = ''POSTROUTING''"

fun resolve_targets :: "string list \<Rightarrow> string list result" where
  "resolve_targets [] = Inr []"
| "resolve_targets (c # cs) =
     (case parse_cidr c of
        None \<Rightarrow> Inl (Err ''parse drop CIDR'')
      | Some (ip, n) \<Rightarrow>
          if to4 ip = [] then Inl (Err ''drop CIDR must be IPv4'')
          else (case resolve_targets cs of Inl e \<Rightarrow> Inl e | Inr ts \<Rightarrow> Inr (ipnet_string n # ts)))"

definition resolve_drop_targets :: "string \<Rightarrow> bool \<Rightarrow> string list \<Rightarrow> string list result" where
  "resolve_drop_targets cidr internal cidrs = resolve_targets ((if internal then [cidr] else []) @ cidrs)"

definition rule_dest :: "string list \<Rightarrow> string option" where
  "rule_dest flds =
     (case dropWhile (\<lambda>f. f \<noteq> ''-d'') flds of _ # dst # _ \<Rightarrow> Some dst | _ \<Rightarrow> None)"

text \<open>
  The loop of \<open>reconcileDropRules\<close> with its two counters. Slicing \<open>fields[2:]\<close> of a line with fewer
  than two fields would panic.
\<close>

definition slice_panic :: error where "slice_panic = Err ''panic: slice bounds out of range''"

fun prune_loop :: "'c driver \<Rightarrow> string list \<Rightarrow> string list \<Rightarrow> nat \<Rightarrow> nat \<Rightarrow> ('c, (nat \<times> nat) result) io" where
  "prune_loop drv want [] removed failed h = (Inr (removed, failed), h)"
| "prune_loop drv want (line # lines) removed failed h =
     (let flds = fields_of line
      in if \<not> contains_text line drop_rule_comment then prune_loop drv want lines removed failed h
         else if (case rule_dest flds of Some dst \<Rightarrow> dst \<in> set want | None \<Rightarrow> False)
         then prune_loop drv want lines removed failed h
         else if length flds < 2 then (Inl slice_panic, h)
         else (case ext_call (dr_ipt_delete drv filter_table forward (drop 2 flds)) h of
                 (ok, h1) \<Rightarrow> prune_loop drv want lines (if ok then removed + 1 else removed)
                               (if ok then failed else failed + 1) h1))"

definition list_forward :: "'c driver \<Rightarrow> ('c, string list result) io" where
  "list_forward drv h =
     (case ext_call (dr_ipt_list drv filter_table forward) h of
        (None, h1) \<Rightarrow> (Inl (Err ''list FORWARD''), h1) | (Some ls, h1) \<Rightarrow> (Inr ls, h1))"

definition reconcile_drop_rules :: "'c driver \<Rightarrow> string list \<Rightarrow> ('c, unit result) io" where
  "reconcile_drop_rules drv want =
     and_then (list_forward drv) (\<lambda>lines.
     and_then (prune_loop drv want lines 0 0) (\<lambda>(removed, failed).
     if failed > 0 then fail_with (Err ''delete drop rules failed'') else ret ()))"

definition init_iptables :: "'c driver \<Rightarrow> ('c, unit result) io" where
  "init_iptables drv = check_ok ''init iptables'' (ext_call (dr_ipt_new drv))"

definition clear_drop_rules :: "'c driver \<Rightarrow> ('c, unit result) io" where
  "clear_drop_rules drv = and_then (init_iptables drv) (\<lambda>_. reconcile_drop_rules drv [])"

fun accept_nics :: "'c driver \<Rightarrow> string list \<Rightarrow> ('c, unit result) io" where
  "accept_nics drv [] = ret ()"
| "accept_nics drv (i # is) =
     and_then (wrapping ''add FORWARD'' (ensure_ipt_rule drv filter_table forward False (accept_args i bridge_name))) (\<lambda>_.
     and_then (wrapping ''add FORWARD'' (ensure_ipt_rule drv filter_table forward False (accept_args bridge_name i))) (\<lambda>_.
     accept_nics drv is))"

fun insert_drops :: "'c driver \<Rightarrow> string list \<Rightarrow> ('c, unit result) io" where
  "insert_drops drv [] = ret ()"
| "insert_drops drv (dst # dsts) =
     and_then (wrapping ''insert FORWARD drop'' (ensure_ipt_rule drv filter_table forward True (drop_args dst))) (\<lambda>_.
     insert_drops drv dsts)"

definition setup_iptables :: "'c driver \<Rightarrow> string \<Rightarrow> string list \<Rightarrow> bool \<Rightarrow> string list \<Rightarrow> ('c, unit result) io" where
  "setup_iptables drv cidr nics internal cidrs =
     and_then (lift_result (resolve_drop_targets cidr internal cidrs)) (\<lambda>targets.
     and_then (init_iptables drv) (\<lambda>_.
     and_then (accept_nics drv nics) (\<lambda>_.
     and_then (wrapping ''add FORWARD'' (ensure_ipt_rule drv filter_table forward False (accept_args bridge_name bridge_name))) (\<lambda>_.
     and_then (wrapping ''add NAT MASQUERADE'' (ensure_ipt_rule drv nat_table postrouting False (masquerade_args cidr))) (\<lambda>_.
     and_then (insert_drops drv targets) (\<lambda>_.
     wrapping ''reconcile drop rules'' (reconcile_drop_rules drv targets)))))))"

section \<open>The CNI configuration\<close>

text \<open>\<open>encoding/json\<close> writes the keys of a map in order.\<close>

definition json_map :: "(string \<times> json) list \<Rightarrow> json" where
  "json_map kvs = JObj (sort_key fst kvs)"

definition cni_conflist :: "int \<Rightarrow> string" where
  "cni_conflist mtu =
     json_marshal_indent (json_map
       [(''cniVersion'', JStr ''1.0.0''), (''name'', JStr ''cocoon-dhcp''),
        (''plugins'', JArr [json_map
           [(''type'', JStr ''bridge''), (''bridge'', JStr bridge_name), (''mtu'', JNum (itoa mtu)),
            (''isGateway'', JBool False), (''ipMasq'', JBool False), (''portIsolation'', JBool True),
            (''macspoofchk'', JBool True), (''ipam'', json_map [])]])]) @ [CHR 0x0A]"

definition cni_conf_path :: path where
  "cni_conf_path = join_path [cni_conf_dir, cni_conf_file]"

definition write_cni_conflist :: "'c driver \<Rightarrow> int \<Rightarrow> ('c, unit result) io" where
  "write_cni_conflist drv mtu =
     and_then (check_ok ''create cni conf dir'' (ext_call (dr_mkdir drv cni_conf_dir))) (\<lambda>_ h.
       if read_file drv cni_conf_path h = FileData (cni_conflist mtu) then (Inr (), h)
       else check_ok ''write cni conflist'' (write_file drv cni_conf_path (cni_conflist mtu) node_file_perm) h)"

section \<open>\<open>Setup\<close>\<close>

definition present_result :: "'c driver \<Rightarrow> string list \<Rightarrow> ('c, string list result) io" where
  "present_result drv ns h = (case present_links drv ns h of (ps, h') \<Rightarrow> (Inr ps, h'))"

definition node_setup :: "'c driver \<Rightarrow> (string \<times> string) list \<Rightarrow> node_config \<Rightarrow> ('c, unit result) io" where
  "node_setup drv order cfg =
     and_then (wrapping ''primary NIC'' (link_mtu drv (nd_primary_nic cfg))) (\<lambda>mtu.
     and_then (present_result drv (nd_secondary_nics cfg)) (\<lambda>present.
     and_then (usable_secondary_nics drv (nd_secondary_nics cfg) present) (\<lambda>nics.
     and_then (wrapping ''secondary NICs'' (setup_secondary_nics drv nics)) (\<lambda>_.
     and_then (wrapping ''bridge'' (setup_bridge drv (nd_gateway cfg) (nd_subnet_cidr cfg) mtu)) (\<lambda>_.
     and_then (wrapping ''sysctl'' (setup_sysctl drv order (nd_primary_nic cfg) nics)) (\<lambda>_.
     and_then (if nd_skip_iptables cfg then ret ()
               else wrapping ''iptables'' (setup_iptables drv (nd_subnet_cidr cfg) nics (nd_drop_internal cfg)
                      (nd_drop_cidrs cfg))) (\<lambda>_.
     wrapping ''cni conflist'' (write_cni_conflist drv mtu))))))))"

end
