(* ===== verification/Node_Props.thy ===== *)
theory Node_Props
  imports Node
begin

text \<open>
  What the node's setup does to the firewall: the iptables rules as a function of the rules before,
  shown by refining each operation to an operation on lists of rules.
\<close>

section \<open>Rules as lines and fields\<close>

lemma space_head_graphic: "graphic c \<Longrightarrow> space_head space_seqs (c # s) = None"
proof -
  assume "graphic c"
  then have "take (length q) (c # s) \<noteq> q" if "q \<in> set space_seqs" for q
    using space_seq_ends [OF that] by (cases q) auto
  then show ?thesis by (auto simp: space_head_def find_None_iff has_prefix_def)
qed

lemma space_head_blank: "space_head space_seqs (CHR '' '' # s) = Some [CHR '' '']"
proof -
  have "char_of (9::nat) \<noteq> CHR '' ''" "char_of (10::nat) \<noteq> CHR '' ''" "char_of (11::nat) \<noteq> CHR '' ''"
    "char_of (12::nat) \<noteq> CHR '' ''" "char_of (13::nat) \<noteq> CHR '' ''" "char_of (32::nat) = CHR '' ''" by code_simp+
  then show ?thesis by (simp add: space_head_def space_seqs_def has_prefix_def)
qed

lemma fields_from_graphic: "\<forall>c \<in> set f. graphic c \<Longrightarrow> fields_from cur (f @ s) = fields_from (cur @ f) s"
proof (induction f arbitrary: cur)
  case (Cons c f)
  have "fields_from cur (c # f @ s) = fields_from (cur @ [c]) (f @ s)"
    using Cons.prems space_head_graphic by (subst fields_from.simps) simp
  then show ?case using Cons by simp
qed simp

definition plain_field :: "string \<Rightarrow> bool" where
  "plain_field f \<longleftrightarrow> f \<noteq> [] \<and> (\<forall>c \<in> set f. graphic c)"

lemma fields_of_join: "\<forall>f \<in> set fs. plain_field f \<Longrightarrow> fields_of (join '' '' fs) = fs"
proof (induction fs)
  case Nil
  then show ?case by (simp add: fields_of_def fields_from.simps)
next
  case (Cons f fs)
  have f: "\<forall>c \<in> set f. graphic c" "f \<noteq> []" using Cons.prems by (auto simp: plain_field_def)
  show ?case
  proof (cases fs)
    case Nil
    then show ?thesis using fields_from_graphic [OF f(1), of "[]" "[]"] f(2)
      by (simp add: fields_of_def fields_from.simps)
  next
    case (Cons g gs)
    have "fields_of (join '' '' (f # fs)) = fields_from ([] @ f) (CHR '' '' # join '' '' fs)"
      using fields_from_graphic [OF f(1), of "[]" "CHR '' '' # join '' '' fs"] Cons by (simp add: fields_of_def)
    also have "\<dots> = f # fields_of (join '' '' fs)"
      using f(2) by (subst fields_from.simps) (simp add: space_head_blank fields_of_def)
    finally show ?thesis using Cons.IH Cons.prems by simp
  qed
qed

section \<open>The firewall\<close>

type_synonym rules = "string \<times> string \<Rightarrow> string list list"

abbreviation forward_key :: "string \<times> string" where "forward_key \<equiv> (filter_table, forward)"

text \<open>The line by which \<open>iptables -S\<close> shows a rule of FORWARD, and the rules a run prunes.\<close>

definition rule_line :: "string list \<Rightarrow> string" where
  "rule_line r = join '' '' (''-A'' # forward # r)"

definition tagged :: "string list \<Rightarrow> bool" where
  "tagged r \<longleftrightarrow> contains_text (rule_line r) drop_rule_comment"

definition dest_in :: "string list \<Rightarrow> string list \<Rightarrow> bool" where
  "dest_in want r \<longleftrightarrow> (case rule_dest r of Some dst \<Rightarrow> dst \<in> set want | None \<Rightarrow> False)"

definition stale :: "string list \<Rightarrow> string list \<Rightarrow> bool" where
  "stale want r \<longleftrightarrow> tagged r \<and> \<not> dest_in want r"

text \<open>
  What the driver relies on of iptables: \<open>norm\<close> is the form in which a rule is listed; a rule is found,
  added and deleted up to it, a failed change leaves the rules as they are, and listing, checking and
  initialising change none. A listed rule is its own form and its fields have no white space.
\<close>

definition canonical :: "(string list \<Rightarrow> string list) \<Rightarrow> string list \<Rightarrow> bool" where
  "canonical norm r \<longleftrightarrow> norm r = r \<and> (\<forall>f \<in> set r. plain_field f)"

definition ipt_reads :: "'c driver \<Rightarrow> (string list \<Rightarrow> string list) \<Rightarrow> ('c \<Rightarrow> rules) \<Rightarrow> bool" where
  "ipt_reads drv norm rl \<longleftrightarrow>
     (\<forall>c ok c'. dr_ipt_new drv c = (ok, c') \<longrightarrow> rl c' = rl c) \<and>
     (\<forall>t ch a c r c'. dr_ipt_exists drv t ch a c = (r, c') \<longrightarrow>
        rl c' = rl c \<and> (r = None \<or> r = Some (norm a \<in> set (rl c (t, ch)))))"

definition ipt_lists :: "'c driver \<Rightarrow> ('c \<Rightarrow> rules) \<Rightarrow> bool" where
  "ipt_lists drv rl \<longleftrightarrow>
     (\<forall>c r c'. dr_ipt_list drv filter_table forward c = (r, c') \<longrightarrow>
        rl c' = rl c \<and> (r = None \<or> (\<exists>policy. r = Some (policy @ map rule_line (rl c forward_key)) \<and>
          (\<forall>l \<in> set policy. \<not> contains_text l drop_rule_comment))))"

definition ipt_writes :: "'c driver \<Rightarrow> (string list \<Rightarrow> string list) \<Rightarrow> ('c \<Rightarrow> rules) \<Rightarrow> bool" where
  "ipt_writes drv norm rl \<longleftrightarrow>
     (\<forall>t ch a c ok c'. dr_ipt_append drv t ch a c = (ok, c') \<longrightarrow>
        rl c' = (if ok then (rl c)((t, ch) := rl c (t, ch) @ [norm a]) else rl c)) \<and>
     (\<forall>t ch a c ok c'. dr_ipt_insert drv t ch 1 a c = (ok, c') \<longrightarrow>
        rl c' = (if ok then (rl c)((t, ch) := norm a # rl c (t, ch)) else rl c)) \<and>
     (\<forall>t ch a c ok c'. dr_ipt_delete drv t ch a c = (ok, c') \<longrightarrow>
        rl c' = (if ok then (rl c)((t, ch) := remove1 (norm a) (rl c (t, ch))) else rl c))"

definition ipt_ok :: "'c driver \<Rightarrow> (string list \<Rightarrow> string list) \<Rightarrow> ('c \<Rightarrow> rules) \<Rightarrow> bool" where
  "ipt_ok drv norm rl \<longleftrightarrow> ipt_reads drv norm rl \<and> ipt_lists drv rl \<and> ipt_writes drv norm rl \<and>
     (\<forall>c. \<forall>r \<in> set (rl c forward_key). canonical norm r)"

abbreviation fw :: "('c \<Rightarrow> rules) \<Rightarrow> 'c host \<Rightarrow> rules" where
  "fw rl h \<equiv> rl (h_ext h)"

lemma ipt_writesD:
  assumes "ipt_ok drv norm rl"
  shows "dr_ipt_append drv t ch a c = (True, c') \<Longrightarrow> rl c' = (rl c)((t, ch) := rl c (t, ch) @ [norm a])"
    and "dr_ipt_insert drv t ch 1 a c = (True, c') \<Longrightarrow> rl c' = (rl c)((t, ch) := norm a # rl c (t, ch))"
    and "dr_ipt_delete drv t ch a c = (ok, c') \<Longrightarrow>
      rl c' = (if ok then (rl c)((t, ch) := remove1 (norm a) (rl c (t, ch))) else rl c)"
proof -
  have w: "ipt_writes drv norm rl" using assms by (simp add: ipt_ok_def)
  show "dr_ipt_append drv t ch a c = (True, c') \<Longrightarrow> rl c' = (rl c)((t, ch) := rl c (t, ch) @ [norm a])"
    using w [unfolded ipt_writes_def] by fastforce
  show "dr_ipt_insert drv t ch 1 a c = (True, c') \<Longrightarrow> rl c' = (rl c)((t, ch) := norm a # rl c (t, ch))"
    using w [unfolded ipt_writes_def, THEN conjunct2, THEN conjunct1, rule_format, of t ch a c True c'] by simp
  show "dr_ipt_delete drv t ch a c = (ok, c') \<Longrightarrow>
      rl c' = (if ok then (rl c)((t, ch) := remove1 (norm a) (rl c (t, ch))) else rl c)"
    using w unfolding ipt_writes_def by blast
qed

text \<open>\<open>ensureIPTRule\<close> on a list of rules.\<close>

definition put_rule :: "bool \<Rightarrow> string list \<Rightarrow> string list list \<Rightarrow> string list list" where
  "put_rule at_head r rs = (if r \<in> set rs then rs else if at_head then r # rs else rs @ [r])"

lemma ensure_refines:
  assumes ok: "ipt_ok drv norm rl" and e: "ensure_ipt_rule drv t ch at_head a h = (Inr (), h')"
  shows "fw rl h' = (fw rl h)((t, ch) := put_rule at_head (norm a) (fw rl h (t, ch)))"
proof -
  obtain r c1 where ex: "dr_ipt_exists drv t ch a (h_ext h) = (r, c1)" by fastforce
  have r: "rl c1 = fw rl h" "r = None \<or> r = Some (norm a \<in> set (fw rl h (t, ch)))"
    using ok ex unfolding ipt_ok_def ipt_reads_def by blast+
  show ?thesis
  proof (cases "norm a \<in> set (fw rl h (t, ch))")
    case True
    then show ?thesis using e ex r by (auto simp: ensure_ipt_rule_def ext_call_def put_rule_def)
  next
    case False
    define call where "call = (if at_head then dr_ipt_insert drv t ch 1 a else dr_ipt_append drv t ch a)"
    have "r = Some False" using e ex r False by (auto simp: ensure_ipt_rule_def ext_call_def)
    then obtain c2 where c2: "call c1 = (True, c2)" "h' = h\<lparr>h_ext := c2\<rparr>"
      using e ex by (auto simp: ensure_ipt_rule_def ext_call_def check_ok_def call_def split: prod.splits if_splits)
    have "rl c2 = (rl c1)((t, ch) := (if at_head then norm a # rl c1 (t, ch) else rl c1 (t, ch) @ [norm a]))"
      using c2(1) ipt_writesD(1, 2) [OF ok] unfolding call_def by (cases at_head) auto
    then show ?thesis using c2(2) r(1) False by (simp add: put_rule_def)
  qed
qed

section \<open>Pruning\<close>

lemma rule_dest_line [simp]: "rule_dest (''-A'' # forward # r) = rule_dest r"
  by (simp add: rule_dest_def forward_def)

lemma plain_head: "plain_field ''-A''" "plain_field forward"
  by (simp_all add: plain_field_def forward_def graphic_def)

lemma fields_rule_line: "canonical norm r \<Longrightarrow> fields_of (rule_line r) = ''-A'' # forward # r"
  unfolding rule_line_def by (rule fields_of_join) (auto simp: canonical_def plain_head)

lemma prune_loop_skip:
  "\<forall>l \<in> set policy. \<not> contains_text l drop_rule_comment \<Longrightarrow>
   prune_loop drv want (policy @ ls) a b h = prune_loop drv want ls a b h"
  by (induction policy) (auto simp: Let_def)

lemma prune_line:
  assumes "canonical norm r"
  shows "prune_loop drv want (rule_line r # ls) a b h =
    (if stale want r
     then (case ext_call (dr_ipt_delete drv filter_table forward r) h of
             (ok, h1) \<Rightarrow> prune_loop drv want ls (if ok then a + 1 else a) (if ok then b else b + 1) h1)
     else prune_loop drv want ls a b h)"
  using fields_rule_line [OF assms]
  by (simp add: Let_def stale_def tagged_def dest_in_def numeral_2_eq_2 split: option.split)

declare prune_loop.simps(2) [simp del]

lemma fold_remove1_Cons_other:
  "x \<notin> set xs \<Longrightarrow> fold remove1 xs (x # ys) = x # fold remove1 xs ys"
  by (induction xs arbitrary: ys) auto

lemma fold_remove1_filter: "fold remove1 (filter P xs) xs = filter (\<lambda>x. \<not> P x) xs"
  by (induction xs) (auto simp: fold_remove1_Cons_other)

lemma prune_loop_refines:
  assumes ok: "ipt_ok drv norm rl"
  shows "\<forall>r \<in> set rs. canonical norm r \<Longrightarrow> prune_loop drv want (map rule_line rs) a b h = (res, h') \<Longrightarrow>
    \<exists>removed failed R. res = Inr (removed, failed) \<and> b \<le> failed \<and> fw rl h' = (fw rl h)(forward_key := R) \<and>
      filter (\<lambda>r. \<not> stale want r) R = filter (\<lambda>r. \<not> stale want r) (fw rl h forward_key) \<and>
      (failed = b \<longrightarrow> R = fold remove1 (filter (stale want) rs) (fw rl h forward_key))"
proof (induction rs arbitrary: a b h)
  case (Cons r rs)
  have can: "canonical norm r" "\<forall>r \<in> set rs. canonical norm r" using Cons.prems by simp_all
  show ?case
  proof (cases "stale want r")
    case False
    then show ?thesis using Cons.IH [OF can(2)] Cons.prems by (simp add: prune_line [OF can(1)])
  next
    case True
    obtain ok' c1 where d: "dr_ipt_delete drv filter_table forward r (h_ext h) = (ok', c1)" by fastforce
    have w: "rl c1 = (if ok' then (fw rl h)(forward_key := remove1 (norm r) (fw rl h forward_key)) else fw rl h)"
      by (rule ipt_writesD(3) [OF ok d])
    have t: "prune_loop drv want (map rule_line rs) (if ok' then a + 1 else a) (if ok' then b else b + 1)
        (h\<lparr>h_ext := c1\<rparr>) = (res, h')"
      using Cons.prems(2) True d by (simp add: prune_line [OF can(1)] ext_call_def)
    have nr: "norm r = r" using can(1) by (simp add: canonical_def)
    have keep: "filter (\<lambda>r. \<not> stale want r) (remove1 r R) = filter (\<lambda>r. \<not> stale want r) R" for R
      using True by (simp add: filter_remove1)
    have ext: "h_ext (h\<lparr>h_ext := c1\<rparr>) = c1" by simp
    from Cons.IH [OF can(2) t, unfolded ext] obtain removed failed R where
      ih: "res = Inr (removed, failed)" "(if ok' then b else b + 1) \<le> failed" "fw rl h' = (rl c1)(forward_key := R)"
        "filter (\<lambda>r. \<not> stale want r) R = filter (\<lambda>r. \<not> stale want r) (rl c1 forward_key)"
        "failed = (if ok' then b else b + 1) \<longrightarrow> R = fold remove1 (filter (stale want) rs) (rl c1 forward_key)"
      by blast
    have "fw rl h' = (fw rl h)(forward_key := R)" using ih(3) w by (simp split: if_splits)
    then show ?thesis using ih(1,2,4,5) w True nr keep
      by (intro exI [of _ removed] exI [of _ failed] exI [of _ R]) (cases ok'; simp)
  qed
qed auto

text \<open>What a reconciliation of the drop rules does.\<close>

lemma reconcile_refines:
  assumes ok: "ipt_ok drv norm rl" and r: "reconcile_drop_rules drv want h = (res, h')"
  shows "\<exists>R. fw rl h' = (fw rl h)(forward_key := R) \<and>
      filter (\<lambda>r. \<not> stale want r) R = filter (\<lambda>r. \<not> stale want r) (fw rl h forward_key) \<and>
      (res = Inr () \<longrightarrow> R = filter (\<lambda>r. \<not> stale want r) (fw rl h forward_key))"
proof -
  let ?R = "fw rl h forward_key"
  obtain ls c1 where l: "dr_ipt_list drv filter_table forward (h_ext h) = (ls, c1)" by fastforce
  have c1: "rl c1 = fw rl h" "ls = None \<or> (\<exists>policy. ls = Some (policy @ map rule_line ?R) \<and>
      (\<forall>l \<in> set policy. \<not> contains_text l drop_rule_comment))"
    using ok l unfolding ipt_ok_def ipt_lists_def by blast+
  show ?thesis
  proof (cases ls)
    case None
    then show ?thesis using r l c1(1)
      by (auto simp: reconcile_drop_rules_def and_then_def list_forward_def ext_call_def intro!: exI [of _ ?R])
  next
    case (Some lines)
    then obtain policy where p: "lines = policy @ map rule_line ?R" "\<forall>l \<in> set policy. \<not> contains_text l drop_rule_comment"
      using c1(2) by auto
    obtain res2 h2 where t: "prune_loop drv want (map rule_line ?R) 0 0 (h\<lparr>h_ext := c1\<rparr>) = (res2, h2)" by fastforce
    have can: "\<forall>r \<in> set ?R. canonical norm r" using ok unfolding ipt_ok_def by blast
    obtain removed failed R where pr: "res2 = Inr (removed, failed)" "fw rl h2 = (fw rl h)(forward_key := R)"
      "filter (\<lambda>r. \<not> stale want r) R = filter (\<lambda>r. \<not> stale want r) ?R"
      "failed = 0 \<longrightarrow> R = fold remove1 (filter (stale want) ?R) ?R"
      using prune_loop_refines [OF ok can t] c1(1) by auto
    have "res = (if failed > 0 then Inl (Err ''delete drop rules failed'') else Inr ()) \<and> h' = h2"
      using r l Some p(1) t pr(1)
      by (simp add: prune_loop_skip [OF p(2)] reconcile_drop_rules_def and_then_def list_forward_def ext_call_def fail_with_def ret_def split: if_splits)
    then show ?thesis using pr fold_remove1_filter by (intro exI [of _ R]) auto
  qed
qed

section \<open>The whole of \<open>setupIPTables\<close>\<close>

definition accept_rules :: "(string list \<Rightarrow> string list) \<Rightarrow> string list \<Rightarrow> string list list" where
  "accept_rules norm nics =
     concat (map (\<lambda>i. [norm (accept_args i bridge_name), norm (accept_args bridge_name i)]) nics) @
     [norm (accept_args bridge_name bridge_name)]"

definition drop_rules :: "(string list \<Rightarrow> string list) \<Rightarrow> string list \<Rightarrow> string list list" where
  "drop_rules norm targets = map (\<lambda>t. norm (drop_args t)) targets"

text \<open>The chain FORWARD after a successful run.\<close>

definition configured :: "(string list \<Rightarrow> string list) \<Rightarrow> string list \<Rightarrow> string list \<Rightarrow> string list list \<Rightarrow> string list list" where
  "configured norm nics targets rs =
     filter (\<lambda>r. \<not> stale targets r)
       (fold (put_rule True) (drop_rules norm targets) (fold (put_rule False) (accept_rules norm nics) rs))"

lemma accept_nics_refines:
  assumes ok: "ipt_ok drv norm rl"
  shows "accept_nics drv nics h = (Inr (), h') \<Longrightarrow> fw rl h' = (fw rl h)(forward_key := fold (put_rule False)
    (concat (map (\<lambda>i. [norm (accept_args i bridge_name), norm (accept_args bridge_name i)]) nics)) (fw rl h forward_key))"
proof (induction nics arbitrary: h)
  case (Cons i nics)
  from Cons.prems obtain h1 h2 where s:
    "ensure_ipt_rule drv filter_table forward False (accept_args i bridge_name) h = (Inr (), h1)"
    "ensure_ipt_rule drv filter_table forward False (accept_args bridge_name i) h1 = (Inr (), h2)"
    "accept_nics drv nics h2 = (Inr (), h')" by (auto simp: io_run)
  show ?case
    by (rule ext) (simp add: Cons.IH [OF s(3)] ensure_refines [OF ok s(2)] ensure_refines [OF ok s(1)])
qed (simp add: io_run)

lemma insert_drops_refines:
  assumes ok: "ipt_ok drv norm rl"
  shows "insert_drops drv ts h = (Inr (), h') \<Longrightarrow>
    fw rl h' = (fw rl h)(forward_key := fold (put_rule True) (drop_rules norm ts) (fw rl h forward_key))"
proof (induction ts arbitrary: h)
  case (Cons t ts)
  from Cons.prems obtain h1 where s: "ensure_ipt_rule drv filter_table forward True (drop_args t) h = (Inr (), h1)"
    "insert_drops drv ts h1 = (Inr (), h')" by (auto simp: io_run)
  show ?case
    by (rule ext) (simp add: Cons.IH [OF s(2)] ensure_refines [OF ok s(1)] drop_rules_def)
qed (simp add: io_run drop_rules_def)

lemma tables_differ [simp]: "nat_table \<noteq> filter_table" "filter_table \<noteq> nat_table"
  by (simp_all add: nat_table_def filter_table_def)

lemma setup_iptables_refines:
  assumes ok: "ipt_ok drv norm rl" and t: "resolve_drop_targets cidr internal cidrs = Inr targets"
    and s: "setup_iptables drv cidr nics internal cidrs h = (Inr (), h')"
  shows "fw rl h' = (fw rl h)
    ((nat_table, postrouting) := put_rule False (norm (masquerade_args cidr)) (fw rl h (nat_table, postrouting)),
     forward_key := configured norm nics targets (fw rl h forward_key))"
proof -
  let ?N = "(nat_table, postrouting)"
  from s t obtain h1 h2 h3 h4 h5 where
    i: "init_iptables drv h = (Inr (), h1)"
    and a: "accept_nics drv nics h1 = (Inr (), h2)"
    and b: "ensure_ipt_rule drv filter_table forward False (accept_args bridge_name bridge_name) h2 = (Inr (), h3)"
    and m: "ensure_ipt_rule drv nat_table postrouting False (masquerade_args cidr) h3 = (Inr (), h4)"
    and d: "insert_drops drv targets h4 = (Inr (), h5)"
    and r: "reconcile_drop_rules drv targets h5 = (Inr (), h')"
    unfolding setup_iptables_def io_run by auto
  obtain o1 c1 where n: "dr_ipt_new drv (h_ext h) = (o1, c1)" by fastforce
  then have "rl c1 = fw rl h" using ok unfolding ipt_ok_def ipt_reads_def by blast
  then have "fw rl h1 = fw rl h" using i n by (auto simp: init_iptables_def check_ok_def ext_call_def split: if_splits)
  then have "fw rl h3 = (fw rl h)(forward_key := fold (put_rule False) (accept_rules norm nics) (fw rl h forward_key))"
    by (intro ext) (simp add: ensure_refines [OF ok b] accept_nics_refines [OF ok a] accept_rules_def)
  then have "fw rl h5 = (fw rl h)(?N := put_rule False (norm (masquerade_args cidr)) (fw rl h ?N),
      forward_key := fold (put_rule True) (drop_rules norm targets)
        (fold (put_rule False) (accept_rules norm nics) (fw rl h forward_key)))"
    by (intro ext) (simp add: insert_drops_refines [OF ok d] ensure_refines [OF ok m])
  moreover obtain R where "fw rl h' = (fw rl h5)(forward_key := R)" "R = filter (\<lambda>r. \<not> stale targets r) (fw rl h5 forward_key)"
    using reconcile_refines [OF ok r] by auto
  ultimately show ?thesis by (simp add: configured_def)
qed

subsection \<open>The list of rules\<close>

lemma set_put [simp]: "set (put_rule b r rs) = insert r (set rs)"
  by (auto simp: put_rule_def)

lemma set_fold_put [simp]: "set (fold (put_rule b) xs rs) = set xs \<union> set rs"
  by (induction xs arbitrary: rs) auto

lemma put_known: "r \<in> set rs \<Longrightarrow> put_rule b r rs = rs"
  by (simp add: put_rule_def)

lemma fold_put_known: "set xs \<subseteq> set rs \<Longrightarrow> fold (put_rule b) xs rs = rs"
  by (induction xs) (auto simp: put_known)

lemma filter_put: "\<not> P r \<Longrightarrow> filter P (put_rule b r rs) = filter P rs"
  by (simp add: put_rule_def)

lemma filter_fold_put: "\<forall>x \<in> set xs. \<not> P x \<Longrightarrow> filter P (fold (put_rule b) xs rs) = filter P rs"
  by (induction xs arbitrary: rs) (simp_all add: filter_put)

text \<open>Rules satisfying \<open>P\<close> stay before those satisfying \<open>Q\<close>.\<close>

definition before :: "('a \<Rightarrow> bool) \<Rightarrow> ('a \<Rightarrow> bool) \<Rightarrow> 'a list \<Rightarrow> bool" where
  "before P Q xs \<longleftrightarrow> (\<exists>a b. xs = a @ b \<and> (\<forall>x \<in> set a. \<not> Q x) \<and> (\<forall>x \<in> set b. \<not> P x))"

lemma before_put_head: "\<not> Q r \<Longrightarrow> before P Q rs \<Longrightarrow> before P Q (put_rule True r rs)"
  unfolding before_def put_rule_def by (metis append_Cons set_ConsD)

lemma before_put_end:
  assumes "\<not> P r" and "before P Q rs"
  shows "before P Q (put_rule False r rs)"
proof -
  obtain a b where "rs = a @ b" "\<forall>x \<in> set a. \<not> Q x" "\<forall>x \<in> set b. \<not> P x" using assms(2) by (auto simp: before_def)
  then show ?thesis using assms unfolding before_def put_rule_def
    by (auto intro: exI [of _ a] exI [of _ "b @ [r]"])
qed

lemma before_fold_put:
  "\<forall>x \<in> set xs. if b then \<not> Q x else \<not> P x \<Longrightarrow> before P Q rs \<Longrightarrow> before P Q (fold (put_rule b) xs rs)"
proof (induction xs arbitrary: rs)
  case (Cons x xs)
  have "before P Q (put_rule b x rs)" using Cons.prems by (cases b) (auto intro: before_put_head before_put_end)
  then show ?case using Cons by simp
qed simp

lemma before_filter:
  assumes "before P Q rs"
  shows "before P Q (filter R rs)"
proof -
  obtain a b where "rs = a @ b" "\<forall>x \<in> set a. \<not> Q x" "\<forall>x \<in> set b. \<not> P x" using assms by (auto simp: before_def)
  then show ?thesis unfolding before_def
    by (intro exI [of _ "filter R a"] exI [of _ "filter R b"]) auto
qed

section \<open>Properties\<close>

text \<open>
  C33. Reconciling the drop rules is exact. A run that reports success leaves the chain without the
  tagged rules whose destination is not wanted and otherwise as it was; a run that fails has removed only
  such rules; no other chain is touched.
\<close>

theorem reconcile_exact:
  assumes "ipt_ok drv norm rl" and "reconcile_drop_rules drv want h = (res, h')"
  shows "(\<forall>k. k \<noteq> forward_key \<longrightarrow> fw rl h' k = fw rl h k) \<and>
    filter (\<lambda>r. \<not> stale want r) (fw rl h' forward_key) = filter (\<lambda>r. \<not> stale want r) (fw rl h forward_key) \<and>
    (res = Inr () \<longrightarrow> fw rl h' forward_key = filter (\<lambda>r. \<not> stale want r) (fw rl h forward_key))"
  using reconcile_refines [OF assms] by auto

text \<open>
  The listed form of a rule of the program: a drop for a target keeps its tag and its destination, an
  accept has no tag.
\<close>

definition drop_shown :: "(string list \<Rightarrow> string list) \<Rightarrow> string \<Rightarrow> bool" where
  "drop_shown norm dst \<longleftrightarrow> tagged (norm (drop_args dst)) \<and> rule_dest (norm (drop_args dst)) = Some dst"

definition accepts_shown :: "(string list \<Rightarrow> string list) \<Rightarrow> string list \<Rightarrow> bool" where
  "accepts_shown norm nics \<longleftrightarrow> (\<forall>r \<in> set (accept_rules norm nics). \<not> tagged r)"

lemma drops_kept: "\<forall>t \<in> set ts. drop_shown norm t \<Longrightarrow> r \<in> set (drop_rules norm ts) \<Longrightarrow> tagged r \<and> \<not> stale ts r"
  by (auto simp: drop_rules_def drop_shown_def stale_def dest_in_def)

lemma accepts_kept: "accepts_shown norm nics \<Longrightarrow> r \<in> set (accept_rules norm nics) \<Longrightarrow> \<not> tagged r \<and> \<not> stale ts r"
  by (auto simp: accepts_shown_def stale_def)

text \<open>
  C34. A successful run configures the firewall. FORWARD then has the accepts of every interface and the
  drop of every target, no tagged rule for another destination, and the rules of others as they were and
  in their order; if no accept of the program stood before a tagged drop, none does now; the NAT table
  has the masquerade.
\<close>

theorem setup_iptables_configures:
  assumes ok: "ipt_ok drv norm rl" and t: "resolve_drop_targets cidr internal cidrs = Inr targets"
    and shown: "\<forall>t \<in> set targets. drop_shown norm t" "accepts_shown norm nics"
    and s: "setup_iptables drv cidr nics internal cidrs h = (Inr (), h')"
  shows "let R = fw rl h' forward_key; R0 = fw rl h forward_key; own = set (accept_rules norm nics) in
    own \<subseteq> set R \<and> set (drop_rules norm targets) \<subseteq> set R \<and> (\<forall>r \<in> set R. tagged r \<longrightarrow> dest_in targets r) \<and>
    filter (\<lambda>r. \<not> tagged r \<and> r \<notin> own) R = filter (\<lambda>r. \<not> tagged r \<and> r \<notin> own) R0 \<and>
    (before tagged (\<lambda>r. r \<in> own) R0 \<longrightarrow> before tagged (\<lambda>r. r \<in> own) R) \<and>
    norm (masquerade_args cidr) \<in> set (fw rl h' (nat_table, postrouting))"
proof -
  let ?own = "set (accept_rules norm nics)" and ?old = "fw rl h forward_key" and ?R = "fw rl h' forward_key"
  let ?F = "fold (put_rule True) (drop_rules norm targets) (fold (put_rule False) (accept_rules norm nics) ?old)"
  note eq = setup_iptables_refines [OF ok t s]
  have R: "?R = filter (\<lambda>r. \<not> stale targets r) ?F" by (simp add: eq configured_def)
  have "set ?F = set (drop_rules norm targets) \<union> (?own \<union> set ?old)" by simp
  then have "?own \<subseteq> set ?R" "set (drop_rules norm targets) \<subseteq> set ?R"
    unfolding R using accepts_kept [OF shown(2)] drops_kept [OF shown(1)] by auto
  moreover have "\<forall>r \<in> set ?R. tagged r \<longrightarrow> dest_in targets r" unfolding R by (auto simp: stale_def)
  moreover have "filter (\<lambda>r. \<not> tagged r \<and> r \<notin> ?own) ?R = filter (\<lambda>r. \<not> tagged r \<and> r \<notin> ?own) ?F"
    unfolding R by (simp add: stale_def conj_commute cong: conj_cong) (rule filter_cong, auto)
  moreover have "filter (\<lambda>r. \<not> tagged r \<and> r \<notin> ?own) ?F = filter (\<lambda>r. \<not> tagged r \<and> r \<notin> ?own) ?old"
    using drops_kept [OF shown(1)] by (subst filter_fold_put, blast, subst filter_fold_put, blast, simp)
  moreover have "before tagged (\<lambda>r. r \<in> ?own) ?R" if "before tagged (\<lambda>r. r \<in> ?own) ?old"
    unfolding R using that drops_kept [OF shown(1)] accepts_kept [OF shown(2)]
    by (intro before_filter before_fold_put) auto
  moreover have "norm (masquerade_args cidr) \<in> set (fw rl h' (nat_table, postrouting))" by (simp add: eq)
  ultimately show ?thesis by (simp add: Let_def)
qed

text \<open>
  C35. The setup is idempotent: a second run with the same configuration that succeeds changes no rule,
  whatever the first one found.
\<close>

theorem setup_iptables_idempotent:
  assumes ok: "ipt_ok drv norm rl" and t: "resolve_drop_targets cidr internal cidrs = Inr targets"
    and shown: "\<forall>t \<in> set targets. drop_shown norm t" "accepts_shown norm nics"
    and s1: "setup_iptables drv cidr nics internal cidrs h = (Inr (), h1)"
    and s2: "setup_iptables drv cidr nics internal cidrs h1 = (Inr (), h2)"
  shows "fw rl h2 = fw rl h1"
proof -
  let ?F = "fold (put_rule True) (drop_rules norm targets) (fold (put_rule False) (accept_rules norm nics) (fw rl h forward_key))"
  note eq1 = setup_iptables_refines [OF ok t s1] and eq2 = setup_iptables_refines [OF ok t s2]
  have R: "fw rl h1 forward_key = filter (\<lambda>r. \<not> stale targets r) ?F" by (simp add: eq1 configured_def)
  have "set ?F = set (drop_rules norm targets) \<union> (set (accept_rules norm nics) \<union> set (fw rl h forward_key))" by simp
  then have "set (accept_rules norm nics) \<subseteq> set (fw rl h1 forward_key)"
    "set (drop_rules norm targets) \<subseteq> set (fw rl h1 forward_key)"
    unfolding R using accepts_kept [OF shown(2)] drops_kept [OF shown(1)] by auto
  then have "configured norm nics targets (fw rl h1 forward_key) = filter (\<lambda>r. \<not> stale targets r) (fw rl h1 forward_key)"
    by (simp add: configured_def fold_put_known)
  also have "\<dots> = fw rl h1 forward_key" unfolding R by simp
  finally have "configured norm nics targets (fw rl h1 forward_key) = fw rl h1 forward_key" .
  moreover have "norm (masquerade_args cidr) \<in> set (fw rl h1 (nat_table, postrouting))" by (simp add: eq1)
  ultimately show ?thesis unfolding eq2 by (intro ext) (simp add: put_known)
qed

text \<open>
  C36. A drop whose listed form has no destination is lost. iptables does not print the destination
  \<open>0.0.0.0/0\<close>, so the rule a run inserts for this target is pruned by the same run: after a success the
  chain does not have it.
\<close>

theorem undisplayed_drop_lost:
  assumes "ipt_ok drv norm rl" and "resolve_drop_targets cidr internal cidrs = Inr targets"
    and "setup_iptables drv cidr nics internal cidrs h = (Inr (), h')" and "dst \<in> set targets"
    and "tagged (norm (drop_args dst))" and "rule_dest (norm (drop_args dst)) = None"
  shows "norm (drop_args dst) \<notin> set (fw rl h' forward_key)"
  using assms(5,6) by (simp add: setup_iptables_refines [OF assms(1-3)] configured_def stale_def dest_in_def)

section \<open>An iptables that behaves as documented\<close>

text \<open>The destination of everything is not shown.\<close>

definition w_norm :: "string list \<Rightarrow> string list" where
  "w_norm a = (if take 2 (drop 2 a) = [''-d'', ''0.0.0.0/0''] then take 2 a @ drop 4 a else a)"

definition w_chain :: "rules \<Rightarrow> rules" where
  "w_chain c = (\<lambda>k. if k = forward_key then filter (canonical w_norm) (c k) else c k)"

definition w_add :: "bool \<Rightarrow> string \<times> string \<Rightarrow> string list \<Rightarrow> rules \<Rightarrow> bool \<times> rules" where
  "w_add at_head k a c =
     (if k = forward_key \<and> \<not> canonical w_norm (w_norm a) then (False, c)
      else (True, c(k := if at_head then w_norm a # c k else c k @ [w_norm a])))"

definition w_ipt :: "rules driver" where
  "w_ipt = bare_driver\<lparr>dr_ipt_new := (\<lambda>c. (True, c)),
     dr_ipt_list := (\<lambda>t ch c. (Some (''-P FORWARD DROP'' # map rule_line (w_chain c (t, ch))), c)),
     dr_ipt_exists := (\<lambda>t ch a c. (Some (w_norm a \<in> set (w_chain c (t, ch))), c)),
     dr_ipt_append := (\<lambda>t ch a c. w_add False (t, ch) a c),
     dr_ipt_insert := (\<lambda>t ch n a c. w_add True (t, ch) a c),
     dr_ipt_delete := (\<lambda>t ch a c. (True, c((t, ch) := remove1 (w_norm a) (w_chain c (t, ch)))))\<rparr>"

lemma w_ipt_fields [simp]:
  "dr_ipt_new w_ipt c = (True, c)" "dr_ipt_append w_ipt t ch a c = w_add False (t, ch) a c"
  "dr_ipt_list w_ipt t ch c = (Some (''-P FORWARD DROP'' # map rule_line (w_chain c (t, ch))), c)"
  "dr_ipt_exists w_ipt t ch a c = (Some (w_norm a \<in> set (w_chain c (t, ch))), c)"
  "dr_ipt_insert w_ipt t ch n a c = w_add True (t, ch) a c"
  "dr_ipt_delete w_ipt t ch a c = (True, c((t, ch) := remove1 (w_norm a) (w_chain c (t, ch))))"
  by (simp_all add: w_ipt_def bare_driver_def)

lemma w_policy: "\<not> contains_text ''-P FORWARD DROP'' drop_rule_comment"
  by (simp add: drop_rule_comment_def has_prefix_def)

lemma w_ipt_ok: "ipt_ok w_ipt w_norm w_chain"
proof -
  have add: "w_chain c' = (if ok then (w_chain c)(k := if b then w_norm a # w_chain c k else w_chain c k @ [w_norm a]) else w_chain c)"
    if "w_add b k a c = (ok, c')" for b k a c ok c'
    using that by (intro ext) (auto simp: w_add_def w_chain_def split: if_splits)
  have "w_chain (c(k := remove1 x (w_chain c k))) = (w_chain c)(k := remove1 x (w_chain c k))" for c k x
    by (intro ext) (auto simp: w_chain_def filter_remove1)
  then have "ipt_writes w_ipt w_norm w_chain" by (auto simp: ipt_writes_def dest: add)
  moreover have "ipt_lists w_ipt w_chain"
    unfolding ipt_lists_def using w_policy by (auto intro: exI [of _ "[''-P FORWARD DROP'']"])
  ultimately show ?thesis by (auto simp: ipt_ok_def ipt_reads_def w_chain_def)
qed

lemma w_ensure:
  assumes "k = forward_key \<Longrightarrow> canonical w_norm (w_norm a)" and "k = (t, ch)"
  shows "\<exists>h'. ensure_ipt_rule w_ipt t ch b a h = (Inr (), h')"
  using assms by (auto simp: ensure_ipt_rule_def ext_call_def check_ok_def w_add_def split: bool.split)

lemma w_accept_nics:
  "\<forall>r \<in> set (accept_rules w_norm nics). canonical w_norm r \<Longrightarrow> \<exists>h'. accept_nics w_ipt nics h = (Inr (), h')"
proof (induction nics arbitrary: h)
  case (Cons i nics)
  have "canonical w_norm (w_norm (accept_args i bridge_name))" "canonical w_norm (w_norm (accept_args bridge_name i))"
    "\<forall>r \<in> set (accept_rules w_norm nics). canonical w_norm r" using Cons.prems by (auto simp: accept_rules_def)
  then show ?case using w_ensure Cons.IH by (simp add: io_run) metis
qed (simp add: io_run)

lemma w_insert_drops:
  "\<forall>r \<in> set (drop_rules w_norm ts). canonical w_norm r \<Longrightarrow> \<exists>h'. insert_drops w_ipt ts h = (Inr (), h')"
proof (induction ts arbitrary: h)
  case (Cons t ts)
  have "canonical w_norm (w_norm (drop_args t))" "\<forall>r \<in> set (drop_rules w_norm ts). canonical w_norm r"
    using Cons.prems by (auto simp: drop_rules_def)
  then show ?case using w_ensure Cons.IH by (simp add: io_run) metis
qed (simp add: io_run)

lemma w_prune: "\<forall>r \<in> set rs. canonical w_norm r \<Longrightarrow> \<exists>x h'. prune_loop w_ipt want (map rule_line rs) a b h = (Inr (x, b), h')"
proof (induction rs arbitrary: a h)
  case (Cons r rs)
  then have can: "canonical w_norm r" "\<forall>r \<in> set rs. canonical w_norm r" by simp_all
  then show ?case using Cons.IH by (simp add: prune_line [OF can(1)] ext_call_def)
qed auto

lemma w_reconcile: "\<exists>h'. reconcile_drop_rules w_ipt want h = (Inr (), h')"
proof -
  have "\<forall>r \<in> set (w_chain (h_ext h) forward_key). canonical w_norm r" by (simp add: w_chain_def)
  then obtain x h' where "prune_loop w_ipt want (map rule_line (w_chain (h_ext h) forward_key)) 0 0 h = (Inr (x, 0), h')"
    using w_prune by blast
  moreover have "prune_loop w_ipt want (''-P FORWARD DROP'' # ls) 0 0 h = prune_loop w_ipt want ls 0 0 h" for ls
    using prune_loop_skip [of "[''-P FORWARD DROP'']"] w_policy by simp
  ultimately show ?thesis
    by (simp add: reconcile_drop_rules_def and_then_def list_forward_def ext_call_def ret_def)
qed

lemma w_setup:
  assumes "resolve_drop_targets cidr internal cidrs = Inr ts"
    and "\<forall>r \<in> set (accept_rules w_norm nics @ drop_rules w_norm ts). canonical w_norm r"
  shows "\<exists>h'. setup_iptables w_ipt cidr nics internal cidrs h = (Inr (), h')"
proof -
  have i: "init_iptables w_ipt h = (Inr (), h)" by (simp add: init_iptables_def check_ok_def ext_call_def)
  obtain h1 where 1: "accept_nics w_ipt nics h = (Inr (), h1)" using w_accept_nics assms(2) by force
  have "canonical w_norm (w_norm (accept_args bridge_name bridge_name))" using assms(2) by (simp add: accept_rules_def)
  then obtain h2 where 2: "ensure_ipt_rule w_ipt filter_table forward False (accept_args bridge_name bridge_name) h1 = (Inr (), h2)"
    using w_ensure by blast
  obtain h3 where 3: "ensure_ipt_rule w_ipt nat_table postrouting False (masquerade_args cidr) h2 = (Inr (), h3)"
    using w_ensure [of "(nat_table, postrouting)"] by force
  obtain h4 where 4: "insert_drops w_ipt ts h3 = (Inr (), h4)" using w_insert_drops assms(2) by force
  obtain h5 where "reconcile_drop_rules w_ipt ts h4 = (Inr (), h5)" using w_reconcile by blast
  then show ?thesis using i 1 2 3 4 assms(1) by (auto simp: setup_iptables_def io_run)
qed

abbreviation w_fw_host :: "string list list \<Rightarrow> rules host" where
  "w_fw_host rs \<equiv> \<lparr>h_files = Map.empty, h_env = Map.empty, h_ext = (\<lambda>k. if k = forward_key then rs else [])\<rparr>"

lemma w_plain [simp]:
  "plain_field ''-i''" "plain_field ''-o''" "plain_field ''-j''" "plain_field ''ACCEPT''" "plain_field ''-d''" "plain_field ''-m''"
  "plain_field ''comment''" "plain_field ''--comment''" "plain_field ''DROP''" "plain_field bridge_name" "plain_field drop_rule_comment"
  by (simp_all add: plain_field_def graphic_def bridge_name_def drop_rule_comment_def)

lemma w_accept_canonical: "plain_field i \<Longrightarrow> plain_field j \<Longrightarrow> canonical w_norm (w_norm (accept_args i j))"
  by (simp add: canonical_def w_norm_def accept_args_def)

lemma w_drop_norm:
  "dst \<noteq> ''0.0.0.0/0'' \<Longrightarrow> w_norm (drop_args dst) = drop_args dst"
  "w_norm (drop_args ''0.0.0.0/0'') = [''-i'', bridge_name, ''-m'', ''comment'', ''--comment'', drop_rule_comment, ''-j'', ''DROP'']"
  by (simp_all add: w_norm_def drop_args_def)

lemma w_drop_canonical: "plain_field dst \<Longrightarrow> canonical w_norm (w_norm (drop_args dst))"
  by (cases "dst = ''0.0.0.0/0''") (simp_all add: w_drop_norm canonical_def, simp_all add: w_norm_def drop_args_def)

lemma join_append: "as \<noteq> [] \<Longrightarrow> bs \<noteq> [] \<Longrightarrow> join sep (as @ bs) = join sep as @ sep @ join sep bs"
proof (induction as)
  case (Cons a as)
  then show ?case by (cases as; cases bs) auto
qed simp

lemma w_tagged: "ys \<noteq> [] \<Longrightarrow> tagged (xs @ drop_rule_comment # ys)"
proof -
  assume ys: "ys \<noteq> []"
  let ?a = "''-A'' # forward # xs"
  have "rule_line (xs @ drop_rule_comment # ys) = join '' '' (?a @ ([drop_rule_comment] @ ys))" by (simp add: rule_line_def)
  also have "\<dots> = join '' '' ?a @ '' '' @ join '' '' ([drop_rule_comment] @ ys)" by (rule join_append) simp_all
  also have "join '' '' ([drop_rule_comment] @ ys) = drop_rule_comment @ '' '' @ join '' '' ys"
    using join_append [of "[drop_rule_comment]" ys "'' ''"] ys by simp
  finally have "rule_line (xs @ drop_rule_comment # ys) = (join '' '' ?a @ '' '') @ drop_rule_comment @ ('' '' @ join '' '' ys)"
    by (simp only: append_assoc)
  then show ?thesis unfolding tagged_def by (simp only: contains_text_append)
qed

lemma w_drop_tagged: "tagged (w_norm (drop_args dst))"
proof (cases "dst = ''0.0.0.0/0''")
  case True
  have "tagged ([''-i'', bridge_name, ''-m'', ''comment'', ''--comment''] @ drop_rule_comment # [''-j'', ''DROP''])"
    by (rule w_tagged) simp
  then show ?thesis unfolding True w_drop_norm(2) by (simp only: append_Cons append_Nil)
next
  case False
  have "tagged ([''-i'', bridge_name, ''-d'', dst, ''-m'', ''comment'', ''--comment''] @ drop_rule_comment # [''-j'', ''DROP''])"
    by (rule w_tagged) simp
  then show ?thesis unfolding w_drop_norm(1) [OF False] unfolding drop_args_def by (simp only: append_Cons append_Nil)
qed

lemma w_dest: "dst \<noteq> ''0.0.0.0/0'' \<Longrightarrow> rule_dest (w_norm (drop_args dst)) = Some dst"
  "rule_dest (w_norm (drop_args ''0.0.0.0/0'')) = None"
  by (simp_all add: w_drop_norm) (simp_all add: rule_dest_def drop_args_def bridge_name_def drop_rule_comment_def)

lemma w_accepts_shown: "accepts_shown w_norm [''eth1'']"
  unfolding accepts_shown_def accept_rules_def
  by (simp add: accept_args_def w_norm_def tagged_def rule_line_def forward_def bridge_name_def drop_rule_comment_def has_prefix_def)

lemma w_all_canonical: "\<forall>t \<in> set ts. plain_field t \<Longrightarrow> \<forall>r \<in> set (accept_rules w_norm [''eth1''] @ drop_rules w_norm ts). canonical w_norm r"
proof -
  assume "\<forall>t \<in> set ts. plain_field t"
  moreover have "plain_field ''eth1''" by (simp add: plain_field_def graphic_def)
  ultimately show ?thesis by (auto simp: accept_rules_def drop_rules_def w_accept_canonical w_drop_canonical)
qed

definition w_targets :: "string list" where "w_targets = [''172.20.1.0/24'', ''10.0.0.0/8'']"

lemma w_resolve: "resolve_drop_targets ''172.20.1.0/24'' True [''10.0.0.0/8''] = Inr w_targets"
  "resolve_drop_targets ''172.20.1.0/24'' False [''0.0.0.0/0''] = Inr [''0.0.0.0/0'']"
  by code_simp+

lemma w_targets_shown: "\<forall>t \<in> set w_targets. drop_shown w_norm t" "\<forall>t \<in> set w_targets. plain_field t"
  using w_drop_tagged w_dest(1) by (auto simp: w_targets_def drop_shown_def plain_field_def graphic_def)

text \<open>A host with the drop of an earlier configuration and a rule of someone else.\<close>

definition w_rules :: "string list list" where
  "w_rules = [w_norm (drop_args ''192.168.0.0/16''), [''-j'', ''DROP'']]"

theorem reconcile_exact_witness:
  "\<exists>h'. reconcile_drop_rules w_ipt [] (w_fw_host w_rules) = (Inr (), h') \<and>
     filter (\<lambda>r. \<not> stale [] r) (fw w_chain h' forward_key) = filter (\<lambda>r. \<not> stale [] r) (fw w_chain (w_fw_host w_rules) forward_key)"
proof -
  obtain h' where r: "reconcile_drop_rules w_ipt [] (w_fw_host w_rules) = (Inr (), h')" using w_reconcile by blast
  show ?thesis using reconcile_exact [OF w_ipt_ok r] r by blast
qed

theorem setup_iptables_configures_witness:
  "\<exists>h'. setup_iptables w_ipt ''172.20.1.0/24'' [''eth1''] True [''10.0.0.0/8''] (w_fw_host w_rules) = (Inr (), h') \<and>
     set (drop_rules w_norm w_targets) \<subseteq> set (fw w_chain h' forward_key)"
proof -
  obtain h' where s: "setup_iptables w_ipt ''172.20.1.0/24'' [''eth1''] True [''10.0.0.0/8''] (w_fw_host w_rules) = (Inr (), h')"
    using w_setup [OF w_resolve(1) w_all_canonical [OF w_targets_shown(2)]] by blast
  show ?thesis using setup_iptables_configures [OF w_ipt_ok w_resolve(1) w_targets_shown(1) w_accepts_shown s] s
    unfolding Let_def by blast
qed

theorem setup_iptables_idempotent_witness:
  "\<exists>h1 h2. setup_iptables w_ipt ''172.20.1.0/24'' [''eth1''] True [''10.0.0.0/8''] (w_fw_host w_rules) = (Inr (), h1) \<and>
     setup_iptables w_ipt ''172.20.1.0/24'' [''eth1''] True [''10.0.0.0/8''] h1 = (Inr (), h2) \<and> fw w_chain h2 = fw w_chain h1"
proof -
  note run = w_setup [OF w_resolve(1) w_all_canonical [OF w_targets_shown(2)]]
  obtain h1 where s1: "setup_iptables w_ipt ''172.20.1.0/24'' [''eth1''] True [''10.0.0.0/8''] (w_fw_host w_rules) = (Inr (), h1)"
    using run by blast
  obtain h2 where s2: "setup_iptables w_ipt ''172.20.1.0/24'' [''eth1''] True [''10.0.0.0/8''] h1 = (Inr (), h2)"
    using run by blast
  show ?thesis using setup_iptables_idempotent [OF w_ipt_ok w_resolve(1) w_targets_shown(1) w_accepts_shown s1 s2] s1 s2 by blast
qed

theorem undisplayed_drop_lost_witness:
  "\<exists>h'. setup_iptables w_ipt ''172.20.1.0/24'' [''eth1''] False [''0.0.0.0/0''] (w_fw_host w_rules) = (Inr (), h') \<and>
     w_norm (drop_args ''0.0.0.0/0'') \<notin> set (fw w_chain h' forward_key)"
proof -
  have "\<forall>t \<in> set [''0.0.0.0/0'']. plain_field t" by (simp add: plain_field_def graphic_def)
  then obtain h' where s: "setup_iptables w_ipt ''172.20.1.0/24'' [''eth1''] False [''0.0.0.0/0''] (w_fw_host w_rules) = (Inr (), h')"
    using w_setup [OF w_resolve(2) w_all_canonical] by blast
  have "''0.0.0.0/0'' \<in> set [''0.0.0.0/0'']" by simp
  from undisplayed_drop_lost [OF w_ipt_ok w_resolve(2) s this w_drop_tagged w_dest(2)] s show ?thesis by blast
qed

end
