(* ===== verification/Node_Files.thy ===== *)
theory Node_Files
  imports Node
begin

text \<open>
  The files the node's setup writes: which it may touch, and what they hold after a success.
\<close>

section \<open>Frames\<close>

definition iface_key :: "string \<Rightarrow> string" where
  "iface_key i = ''net.ipv4.conf.'' @ i @ ''.rp_filter''"

definition required_paths :: "path set" where
  "required_paths = sysctl_path ` fst ` set required_sysctls"

definition setup_paths :: "string list \<Rightarrow> path set" where
  "setup_paths ifaces = insert cni_conf_path (required_paths \<union> (\<lambda>i. sysctl_path (iface_key i)) ` set ifaces)"

text \<open>The parameters of the interfaces are none of the other files.\<close>

definition own_keys :: "string list \<Rightarrow> bool" where
  "own_keys ifaces \<longleftrightarrow> (\<forall>i \<in> set ifaces. sysctl_path (iface_key i) \<notin> insert cni_conf_path required_paths)"

lemma sysctl_files: "sysctl_path k \<in> S \<Longrightarrow> keeps (files_within S) (write_sysctl drv k v)"
  unfolding write_sysctl_def by (intro keeps_files)

lemma required_files: "sysctl_path ` fst ` set kvs \<subseteq> S \<Longrightarrow> keeps (files_within S) (write_required drv kvs)"
proof (induction kvs)
  case (Cons kv kvs)
  then show ?case by (cases kv) (auto intro!: keeps_files sysctl_files)
qed (simp add: keeps_files)

lemma best_effort_files: "(\<lambda>i. sysctl_path (iface_key i)) ` set is \<subseteq> S \<Longrightarrow> keeps (files_within S) (write_best_effort drv is)"
  by (induction "is") (auto intro!: keeps_files sysctl_files simp: iface_key_def)

lemma links_files: "keeps (files_within S) (present_links drv ns)"
proof (rule keepsI)
  fix h :: "'a host"
  show "files_within S h (snd (present_links drv ns h))"
  proof (induction ns arbitrary: h)
    case (Cons n ns)
    obtain r h1 where l: "link_by_name drv n h = (r, h1)" by fastforce
    have "files_within S h h1" by (rule keepsD [OF keeps_link_by_name l])
    then show ?case using Cons.IH [of h1] l by (auto simp: files_within_def split: prod.split sum.split)
  qed (simp add: files_within_def)
qed

lemma present_files: "keeps (files_within S) (present_result drv ns)"
  using links_files [of S drv ns] by (simp add: keeps_def present_result_def case_prod_beta)

lemma nics_files: "keeps (files_within S) (setup_secondary_nics drv ns)"
  by (induction ns) (auto intro!: keeps_files)

lemma bridge_files: "keeps (files_within S) (setup_bridge drv g c m)"
proof -
  have "keeps (files_within S) (add_bridge drv m)"
    by (rule keepsI) (simp add: add_bridge_def ext_call_def files_within_def split: prod.split add_reply.split)
  then show ?thesis unfolding setup_bridge_def by (auto intro!: keeps_files)
qed

lemma rule_files: "keeps (files_within S) (ensure_ipt_rule drv t ch b a)"
  by (rule keepsI)
    (simp add: ensure_ipt_rule_def ext_call_def check_ok_def files_within_def split: prod.split option.split bool.split)

lemma prune_files: "keeps (files_within S) (prune_loop drv want ls a b)"
proof (rule keepsI)
  fix h :: "'a host"
  show "files_within S h (snd (prune_loop drv want ls a b h))"
  proof (induction ls arbitrary: a b h)
    case (Cons l ls)
    have "ext_call f h = (r, h1) \<Longrightarrow> h_files h1 = h_files h" for f :: "'a \<Rightarrow> bool \<times> 'a" and r h1
      by (auto simp: ext_call_def split: prod.splits)
    then show ?case using Cons.IH by (fastforce simp: Let_def files_within_def split: prod.split)
  qed (simp add: files_within_def)
qed

lemma iptables_files: "keeps (files_within S) (setup_iptables drv cidr nics internal cidrs)"
proof -
  have "keeps (files_within S) (accept_nics drv nics)" by (induction nics) (auto intro!: keeps_files rule_files)
  moreover have "keeps (files_within S) (insert_drops drv ts)" for ts by (induction ts) (auto intro!: keeps_files rule_files)
  moreover have "keeps (files_within S) (list_forward drv)"
    by (rule keepsI) (simp add: list_forward_def ext_call_def files_within_def split: prod.split option.split)
  then have "keeps (files_within S) (reconcile_drop_rules drv want)" for want
    unfolding reconcile_drop_rules_def by (auto intro!: keeps_files prune_files split: prod.split)
  ultimately show ?thesis
    unfolding setup_iptables_def init_iptables_def by (intro keeps_files rule_files)
qed

lemma usable_files: "keeps (files_within S) (usable_secondary_nics drv e p)"
  unfolding usable_secondary_nics_def by (auto intro!: keeps_files)

lemma conflist_files: "cni_conf_path \<in> S \<Longrightarrow> keeps (files_within S) (write_cni_conflist drv mtu)"
  unfolding write_cni_conflist_def
proof (intro keeps_files)
  assume p: "cni_conf_path \<in> S"
  have "keeps (files_within S) (check_ok ''write cni conflist'' (write_file drv cni_conf_path (cni_conflist mtu) node_file_perm))"
    using p by (intro keeps_files)
  then show "keeps (files_within S) (\<lambda>h. if read_file drv cni_conf_path h = FileData (cni_conflist mtu) then (Inr (), h)
      else check_ok ''write cni conflist'' (write_file drv cni_conf_path (cni_conflist mtu) node_file_perm) h)"
    by (simp add: keeps_def files_within_def)
qed

text \<open>The secondary interfaces that are set up are among the configured ones.\<close>

lemma present_subset: "present_links drv ns h = (ps, h') \<Longrightarrow> set ps \<subseteq> set ns"
  by (induction ns arbitrary: ps h) (fastforce split: prod.splits sum.splits)+

section \<open>Contents\<close>

definition file_data :: "'c host \<Rightarrow> path \<Rightarrow> string option" where
  "file_data h p = map_option f_data (h_files h p)"

lemma write_sysctl_data: "write_sysctl drv k v h = (Inr (), h') \<Longrightarrow> file_data h' (sysctl_path k) = Some v"
  by (auto simp: write_sysctl_def io_run file_data_def dest: write_file_ok)

lemma file_data_frame: "files_within S h h' \<Longrightarrow> p \<notin> S \<Longrightarrow> file_data h' p = file_data h p"
  by (simp add: files_within_def file_data_def)

lemma write_required_data:
  "write_required drv kvs h = (Inr (), h') \<Longrightarrow> distinct (map (sysctl_path \<circ> fst) kvs) \<Longrightarrow> (k, v) \<in> set kvs \<Longrightarrow>
   file_data h' (sysctl_path k) = Some v"
proof (induction kvs arbitrary: h)
  case (Cons kv kvs)
  obtain k1 v1 where kv: "kv = (k1, v1)" by (cases kv)
  from Cons.prems(1) obtain h1 where w: "write_sysctl drv k1 v1 h = (Inr (), h1)" and r: "write_required drv kvs h1 = (Inr (), h')"
    by (auto simp: kv io_run)
  show ?case
  proof (cases "(k, v) \<in> set kvs")
    case True
    then show ?thesis using Cons.IH [OF r] Cons.prems(2) by simp
  next
    case False
    then have "sysctl_path k \<notin> sysctl_path ` fst ` set kvs" "(k, v) = (k1, v1)" using Cons.prems(2,3) kv by (auto simp: image_image)
    then show ?thesis
      using write_sysctl_data [OF w] file_data_frame [OF keepsD [OF required_files [OF order.refl] r]] by auto
  qed
qed simp

lemma conflist_data: "write_cni_conflist drv mtu h = (Inr (), h') \<Longrightarrow> file_data h' cni_conf_path = Some (cni_conflist mtu)"
  by (auto simp: write_cni_conflist_def io_run file_data_def read_file_def dest!: write_file_ok split: if_splits option.splits)

text \<open>Every key once: an order in which Go may walk the map.\<close>

definition map_order :: "('a \<times> 'b) list \<Rightarrow> ('a \<times> 'b) list \<Rightarrow> bool" where
  "map_order order kvs \<longleftrightarrow> distinct order \<and> set order = set kvs"

lemma required_keys:
  "distinct (map (sysctl_path \<circ> fst) required_sysctls)" "cni_conf_path \<notin> required_paths"
proof -
  show "distinct (map (sysctl_path \<circ> fst) required_sysctls)" by code_simp
  show "cni_conf_path \<notin> required_paths" unfolding required_paths_def by code_simp
qed

section \<open>After the links are known\<close>

definition setup_rest :: "'c driver \<Rightarrow> (string \<times> string) list \<Rightarrow> node_config \<Rightarrow> int \<Rightarrow> string list \<Rightarrow> ('c, unit result) io" where
  "setup_rest drv order cfg mtu present =
     and_then (usable_secondary_nics drv (nd_secondary_nics cfg) present) (\<lambda>nics.
     and_then (wrapping ''secondary NICs'' (setup_secondary_nics drv nics)) (\<lambda>_.
     and_then (wrapping ''bridge'' (setup_bridge drv (nd_gateway cfg) (nd_subnet_cidr cfg) mtu)) (\<lambda>_.
     and_then (wrapping ''sysctl'' (setup_sysctl drv order (nd_primary_nic cfg) nics)) (\<lambda>_.
     and_then (if nd_skip_iptables cfg then ret ()
               else wrapping ''iptables'' (setup_iptables drv (nd_subnet_cidr cfg) nics (nd_drop_internal cfg)
                      (nd_drop_cidrs cfg))) (\<lambda>_.
     wrapping ''cni conflist'' (write_cni_conflist drv mtu))))))"

lemma order_paths: "map_order order required_sysctls \<Longrightarrow> sysctl_path ` fst ` set order = required_paths"
  by (simp add: map_order_def required_paths_def)

lemma usable_present: "usable_secondary_nics drv e p h = (Inr nics, h') \<Longrightarrow> nics = p"
  by (auto simp: usable_secondary_nics_def io_run split: if_splits)

lemma setup_rest_files:
  assumes "map_order order required_sysctls" and "set ps \<subseteq> set (nd_secondary_nics cfg)"
  shows "keeps (files_within (setup_paths (nd_primary_nic cfg # nd_secondary_nics cfg))) (setup_rest drv order cfg mtu ps)"
    (is "keeps ?R _")
proof (rule keepsI)
  fix h
  obtain r h1 where u: "usable_secondary_nics drv (nd_secondary_nics cfg) ps h = (r, h1)" by fastforce
  have f: "?R h h1" by (rule keepsD [OF usable_files u])
  have sys: "keeps ?R (setup_sysctl drv order (nd_primary_nic cfg) ps)"
    unfolding setup_sysctl_def using assms(2) order_paths [OF assms(1)]
    by (intro keeps_files required_files best_effort_files) (auto simp: setup_paths_def)
  show "?R h (snd (setup_rest drv order cfg mtu ps h))"
  proof (cases r)
    case (Inl e)
    then show ?thesis using u f by (simp add: setup_rest_def and_then_def)
  next
    case (Inr nics)
    then have n: "nics = ps" using u usable_present by blast
    define m where "m = and_then (wrapping ''secondary NICs'' (setup_secondary_nics drv ps)) (\<lambda>_.
       and_then (wrapping ''bridge'' (setup_bridge drv (nd_gateway cfg) (nd_subnet_cidr cfg) mtu)) (\<lambda>_.
       and_then (wrapping ''sysctl'' (setup_sysctl drv order (nd_primary_nic cfg) ps)) (\<lambda>_.
       and_then (if nd_skip_iptables cfg then ret ()
                 else wrapping ''iptables'' (setup_iptables drv (nd_subnet_cidr cfg) ps (nd_drop_internal cfg)
                        (nd_drop_cidrs cfg))) (\<lambda>_.
       wrapping ''cni conflist'' (write_cni_conflist drv mtu)))))"
    have "keeps ?R m"
      unfolding m_def by (intro keeps_files nics_files bridge_files sys conflist_files)
        (auto intro!: keeps_files iptables_files simp: setup_paths_def)
    then have "?R h1 (snd (m h1))" by (rule keeps_at)
    then have "?R h (snd (m h1))" by (rule transpD [OF files_within_trans f])
    moreover have "setup_rest drv order cfg mtu ps h = m h1"
      using u Inr n by (simp add: setup_rest_def m_def and_then_def [of "usable_secondary_nics drv (nd_secondary_nics cfg) ps"])
    ultimately show ?thesis by simp
  qed
qed

lemma setup_rest_data:
  assumes ord: "map_order order required_sysctls" and "set ps \<subseteq> set (nd_secondary_nics cfg)"
    and own: "own_keys (nd_primary_nic cfg # nd_secondary_nics cfg)" and s: "setup_rest drv order cfg mtu ps h = (Inr (), h')"
  shows "file_data h' cni_conf_path = Some (cni_conflist mtu) \<and>
    (\<forall>(k, v) \<in> set required_sysctls. file_data h' (sysctl_path k) = Some v)"
proof -
  let ?ifs = "(if nd_primary_nic cfg \<noteq> [] then [nd_primary_nic cfg] else []) @ ps"
  from s obtain h1 h2 h3 h4 where w: "write_required drv order h1 = (Inr (), h2)"
    and b: "write_best_effort drv ?ifs h2 = (Inr (), h3)"
    and i: "(if nd_skip_iptables cfg then ret () else wrapping ''iptables'' (setup_iptables drv (nd_subnet_cidr cfg) ps
        (nd_drop_internal cfg) (nd_drop_cidrs cfg))) h3 = (Inr (), h4)"
    and c: "write_cni_conflist drv mtu h4 = (Inr (), h')"
    unfolding setup_rest_def setup_sysctl_def io_run by (auto dest: usable_present)
  have "distinct (map (sysctl_path \<circ> fst) order)"
    using required_keys(1) ord by (simp add: map_order_def distinct_map)
  then have d: "file_data h2 (sysctl_path k) = Some v" if "(k, v) \<in> set required_sysctls" for k v
    using write_required_data [OF w] that ord by (simp add: map_order_def)
  have fb: "files_within ((\<lambda>i. sysctl_path (iface_key i)) ` set ?ifs) h2 h3" by (rule keepsD [OF best_effort_files b]) simp
  have fi: "files_within {} h3 h4" using i
    by (rule keepsD [rotated]) (auto intro: keeps_files iptables_files)
  have fc: "files_within {cni_conf_path} h4 h'" by (rule keepsD [OF conflist_files c]) simp
  have "file_data h' (sysctl_path k) = Some v" if kv: "(k, v) \<in> set required_sysctls" for k v
  proof -
    have p: "sysctl_path k \<in> required_paths" using kv by (force simp: required_paths_def)
    then have "sysctl_path k \<notin> (\<lambda>i. sysctl_path (iface_key i)) ` set ?ifs" "sysctl_path k \<notin> {cni_conf_path}"
      using own assms(2) required_keys(2) by (auto simp: own_keys_def split: if_splits)
    then show ?thesis using d [OF kv] file_data_frame [OF fb] file_data_frame [OF fi] file_data_frame [OF fc] by simp
  qed
  then show ?thesis using conflist_data [OF c] by blast
qed

section \<open>Properties\<close>

lemma node_setup_cases:
  assumes "node_setup drv order cfg h = (res, h')"
  obtains e where "isl res" and "link_mtu drv (nd_primary_nic cfg) h = (Inl e, h')"
    | mtu h1 ps h2 where "link_mtu drv (nd_primary_nic cfg) h = (Inr mtu, h1)"
      and "present_links drv (nd_secondary_nics cfg) h1 = (ps, h2)" and "setup_rest drv order cfg mtu ps h2 = (res, h')"
proof (cases "link_mtu drv (nd_primary_nic cfg) h")
  case (Pair rm h1)
  obtain ps h2 where "present_links drv (nd_secondary_nics cfg) h1 = (ps, h2)" by fastforce
  then show ?thesis using assms Pair that
    by (cases rm) (auto simp: node_setup_def setup_rest_def and_then_def wrapping_def present_result_def)
qed

lemma link_mtu_files: "keeps (files_within S) (link_mtu drv n)"
  by (simp add: link_mtu_def keeps_files)

lemma node_setup_within:
  assumes s: "node_setup drv order cfg h = (res, h')" and ord: "map_order order required_sysctls"
  shows "files_within (setup_paths (nd_primary_nic cfg # nd_secondary_nics cfg)) h h'"
  using s
proof (cases rule: node_setup_cases)
  case (1 e)
  from keepsD [OF link_mtu_files 1(2)] show ?thesis .
next
  case (2 mtu h1 ps h2)
  from keepsD [OF link_mtu_files 2(1)] keepsD [OF links_files 2(2)]
    keepsD [OF setup_rest_files [OF ord present_subset [OF 2(2)]] 2(3)]
  show ?thesis by (meson files_within_trans transpD)
qed

text \<open>
  C37. What a node's setup writes. It touches only the CNI configuration and the kernel parameters of the
  required keys and of the configured interfaces; after a success the CNI configuration is the one for
  the primary interface's MTU, and every required parameter has its value, in whatever order the
  parameters were written.
\<close>

theorem node_setup_files:
  assumes s: "node_setup drv order cfg h = (res, h')" and ord: "map_order order required_sysctls"
  shows "files_within (setup_paths (nd_primary_nic cfg # nd_secondary_nics cfg)) h h' \<and>
    (res = Inr () \<and> own_keys (nd_primary_nic cfg # nd_secondary_nics cfg) \<longrightarrow>
     (\<exists>mtu h1. link_mtu drv (nd_primary_nic cfg) h = (Inr mtu, h1) \<and> file_data h' cni_conf_path = Some (cni_conflist mtu)) \<and>
     (\<forall>(k, v) \<in> set required_sysctls. file_data h' (sysctl_path k) = Some v))"
  using s
proof (cases rule: node_setup_cases)
  case 1
  then show ?thesis using node_setup_within [OF s ord] by auto
next
  case (2 mtu h1 ps h2)
  then show ?thesis
    using node_setup_within [OF s ord] setup_rest_data [OF ord present_subset [OF 2(2)], of drv mtu h2 h'] by auto
qed

section \<open>A host on which every call works\<close>

definition w_link :: link where "w_link = \<lparr>lk_index = 1, lk_mtu = 1460, lk_mac = [2, 0, 0, 0, 0, 1]\<rparr>"

definition w_node :: "unit driver" where
  "w_node = bare_driver\<lparr>dr_link := (\<lambda>n c. (Some w_link, c)), dr_add_bridge := (\<lambda>n m c. (LinkExists, c)),
     dr_set_mtu := (\<lambda>l m c. (True, c)), dr_set_up := (\<lambda>l c. (True, c)), dr_addr_replace := (\<lambda>l a c. (True, c))\<rparr>"

lemma w_node_fields [simp]:
  "dr_link w_node n c = (Some w_link, c)" "dr_add_bridge w_node n m c = (LinkExists, c)" "dr_set_mtu w_node l m c = (True, c)"
  "dr_set_up w_node l c = (True, c)" "dr_addr_replace w_node l a c = (True, c)" "dr_gauge w_node t k c = ((), c)"
  "dr_mkdir w_node p c = (True, c)" "dr_disk w_node c = (disk_ok, c)"
  by (simp_all add: w_node_def bare_driver_def)

lemma w_write: "\<exists>h'. write_file w_node p d perm h = (True, h')"
  by (simp add: write_file_def os_write_file_def disk_ok_def Let_def split: option.split)

lemma w_sysctl: "\<exists>h'. write_sysctl w_node k v h = (Inr (), h')"
  using w_write by (simp add: write_sysctl_def io_run)

lemma w_required: "\<exists>h'. write_required w_node kvs h = (Inr (), h')"
proof (induction kvs arbitrary: h)
  case (Cons kv kvs)
  then show ?case using w_sysctl by (cases kv) (simp add: io_run, metis)
qed (simp add: io_run)

lemma w_best_effort: "\<exists>h'. write_best_effort w_node is h = (Inr (), h')"
proof (induction "is" arbitrary: h)
  case (Cons i "is")
  then show ?case using w_sysctl by (simp add: io_run) metis
qed (simp add: io_run)

lemma w_conflist: "\<exists>h'. write_cni_conflist w_node mtu h = (Inr (), h')"
  using w_write by (simp add: write_cni_conflist_def io_run ext_call_def)

definition w_node_conf :: node_config where
  "w_node_conf = \<lparr>nd_gateway = ''172.20.1.1'', nd_subnet_cidr = ''172.20.1.0/24'', nd_primary_nic = ''ens4'',
     nd_secondary_nics = [], nd_skip_iptables = True, nd_drop_internal = False, nd_drop_cidrs = []\<rparr>"

abbreviation w_node_host :: "unit host" where
  "w_node_host \<equiv> \<lparr>h_files = Map.empty, h_env = Map.empty, h_ext = ()\<rparr>"

lemma w_bridge: "setup_bridge w_node ''172.20.1.1'' ''172.20.1.0/24'' m h = (Inr (), h)"
proof -
  obtain n where "gateway_net ''172.20.1.1'' ''172.20.1.0/24'' = Inr n"
  proof -
    have "(case gateway_net ''172.20.1.1'' ''172.20.1.0/24'' of Inr _ \<Rightarrow> True | _ \<Rightarrow> False)" by code_simp
    then show thesis using that by (cases "gateway_net ''172.20.1.1'' ''172.20.1.0/24''") auto
  qed
  then show ?thesis
    by (simp add: setup_bridge_def and_then_def wrapping_def add_bridge_def link_by_name_def ext_call_def lift_result_def
        check_ok_def ret_def)
qed

lemma w_node_setup: "\<exists>h'. node_setup w_node order w_node_conf h = (Inr (), h')"
proof -
  obtain h2 where 1: "setup_sysctl w_node order ''ens4'' [] h = (Inr (), h2)"
  proof -
    obtain h1 where 1: "write_required w_node order h = (Inr (), h1)" using w_required by blast
    obtain h2 where "write_best_effort w_node [''ens4''] h1 = (Inr (), h2)" using w_best_effort by blast
    with 1 have "setup_sysctl w_node order ''ens4'' [] h = (Inr (), h2)"
      unfolding setup_sysctl_def and_then_Inr by simp
    then show thesis using that by blast
  qed
  obtain h3 where 2: "write_cni_conflist w_node (lk_mtu w_link) h2 = (Inr (), h3)" using w_conflist by blast
  have ext: "h\<lparr>h_ext := ()\<rparr> = h" by simp
  have m: "link_mtu w_node n h = (Inr (lk_mtu w_link), h)" for n
    by (simp add: link_mtu_def and_then_def link_by_name_def ext_call_def ret_def)
  have u: "usable_secondary_nics w_node [] [] h = (Inr [], h)"
    by (simp add: usable_secondary_nics_def and_then_def ignoring_def ext_call_def ret_def)
  from 1 2 show ?thesis unfolding node_setup_def and_then_Inr wrapping_Inr
    by (auto simp: w_node_conf_def m u present_result_def ret_def w_bridge)
qed

theorem node_setup_files_witness:
  "\<exists>h'. node_setup w_node required_sysctls w_node_conf w_node_host = (Inr (), h') \<and>
     file_data h' (sysctl_path ''net.ipv4.ip_forward'') = Some ''1''"
proof -
  obtain h' where s: "node_setup w_node required_sysctls w_node_conf w_node_host = (Inr (), h')" using w_node_setup by blast
  have ord: "map_order required_sysctls required_sysctls" unfolding map_order_def by code_simp
  have own: "own_keys (nd_primary_nic w_node_conf # nd_secondary_nics w_node_conf)"
    unfolding own_keys_def required_paths_def w_node_conf_def by code_simp
  have "(''net.ipv4.ip_forward'', ''1'') \<in> set required_sysctls" by (simp add: required_sysctls_def)
  with node_setup_files [OF s ord] own s show ?thesis by blast
qed

end
