(* ===== verification/Cmd.thy ===== *)
theory Cmd
  imports Gke Volcengine Pool_State Node Dhcp_Server
begin

text \<open>
  \<open>cmd\<close>: the commands that tie the parts together. Flags are a record; what a command prints is its
  result, and logging is left out. \<open>pages\<close> bounds the search for a Volcengine subnet and \<open>order\<close> is the
  order in which the map of kernel parameters is walked. The daemon's \<open>Run\<close>, which \<open>Dhcp_Machine\<close>
  models, is an argument.
\<close>

section \<open>Flags\<close>

record flags =
  fl_platform :: string
  fl_node_name :: string
  fl_subnet :: string
  fl_pool_size :: int
  fl_gateway :: string
  fl_primary_nic :: string
  fl_dns :: string
  fl_state_dir :: path
  fl_dry_run :: bool
  fl_force :: bool
  fl_drop_internal :: bool
  fl_drop_cidrs :: "string list"
  fl_manage_iptables :: bool
  fl_lease_file :: path
  fl_control_socket :: path
  fl_skip_iptables :: bool

section \<open>\<open>utils.go\<close>\<close>

definition load_pool_state :: "'c driver \<Rightarrow> path \<Rightarrow> ('c, pool_state result) io" where
  "load_pool_state drv dir = wrapping ''load pool state'' (\<lambda>h. (pool_load drv dir h, h))"

definition node_config_of :: "pool_state \<Rightarrow> bool \<Rightarrow> node_config" where
  "node_config_of s skip =
     \<lparr>nd_gateway = ps_gateway s, nd_subnet_cidr = ps_subnet s, nd_primary_nic = ps_primary_nic s,
      nd_secondary_nics = ps_secondary_nics s, nd_skip_iptables = skip,
      nd_drop_internal = ps_drop_internal s, nd_drop_cidrs = ps_drop_cidrs s\<rparr>"

definition resolve_subnet :: "string \<Rightarrow> string result" where
  "resolve_subnet s = (case parse_cidr s of None \<Rightarrow> Inl (Err ''parse --subnet'') | Some (_, n) \<Rightarrow> Inr (ipnet_string n))"

definition split_trim :: "string \<Rightarrow> char \<Rightarrow> string list" where
  "split_trim s sep = filter (\<lambda>p. p \<noteq> []) (map trim_space (split_char sep s))"

definition parse_dns_flag :: "string \<Rightarrow> string list result" where
  "parse_dns_flag dns =
     (let servers = split_trim dns (CHR '','')
      in if \<exists>s \<in> set servers. to4 (parse_ip s) = [] then Inl (Err ''--dns entry is not an IPv4 address'')
         else Inr servers)"

fun merge_eni_ids :: "string list \<Rightarrow> string list \<Rightarrow> string list" where
  "merge_eni_ids recorded [] = recorded"
| "merge_eni_ids recorded (i # is) =
     merge_eni_ids (if i \<in> set recorded then recorded else recorded @ [i]) is"

definition parse_ips :: "string list \<Rightarrow> ip list" where
  "parse_ips strs = filter (\<lambda>ip. ip \<noteq> []) (map (\<lambda>s. to4 (parse_ip s)) strs)"

section \<open>\<open>root.go\<close>\<close>

definition new_platform :: "'c driver \<Rightarrow> nat \<Rightarrow> string \<Rightarrow> ('c, 'c cloud_platform result) io" where
  "new_platform drv pages name h =
     (if name = platform_gke then (Inr (gke_platform drv), h)
      else if name = platform_volcengine then
        (case volc_new drv h of
           (Some e, h') \<Rightarrow> (Inl e, h') | (None, h') \<Rightarrow> (Inr (volc_platform drv pages), h'))
      else (Inl (Err ''unknown platform''), h))"

definition detect_platform :: "'c driver \<Rightarrow> ('c, string result) io" where
  "detect_platform drv h =
     (case gke_detect drv h of
        (True, h1) \<Rightarrow> (Inr platform_gke, h1)
      | (False, h1) \<Rightarrow>
          (case volc_detect drv h1 of
             (True, h2) \<Rightarrow> (Inr platform_volcengine, h2)
           | (False, h2) \<Rightarrow> (Inl (Err ''platform auto-detection failed''), h2)))"

definition resolve_platform :: "'c driver \<Rightarrow> string \<Rightarrow> ('c, string result) io" where
  "resolve_platform drv name = (if name \<noteq> [] then ret name else detect_platform drv)"

text \<open>The start of \<open>init\<close> and \<open>adopt\<close>: platform, subnet and DNS servers of the flags.\<close>

definition resolve_flags :: "'c driver \<Rightarrow> flags \<Rightarrow> ('c, (string \<times> string \<times> string list) result) io" where
  "resolve_flags drv fl =
     and_then (resolve_platform drv (fl_platform fl)) (\<lambda>name.
     and_then (lift_result (resolve_subnet (fl_subnet fl))) (\<lambda>subnet.
     and_then (lift_result (parse_dns_flag (fl_dns fl))) (\<lambda>dns.
     ret (name, subnet, dns))))"

definition bool_text :: "bool \<Rightarrow> string" where "bool_text b = (if b then ''true'' else ''false'')"

section \<open>\<open>init.go\<close>\<close>

definition init_dry_run :: "flags \<Rightarrow> string \<Rightarrow> string \<Rightarrow> string list \<Rightarrow> string list" where
  "init_dry_run fl name subnet dns =
     [''[dry-run] would provision networking with config:'',
      ''  platform:   '' @ name,
      ''  node-name:  '' @ fl_node_name fl,
      ''  subnet:     '' @ subnet,
      ''  pool-size:  '' @ itoa (fl_pool_size fl),
      ''  dns:        '' @ join '','' dns,
      ''  drop-internal: '' @ bool_text (fl_drop_internal fl),
      ''  drop-cidr:  '' @ join '','' (fl_drop_cidrs fl),
      ''  state-dir:  '' @ fl_state_dir fl]"

definition init_state :: "flags \<Rightarrow> string \<Rightarrow> string \<Rightarrow> string list \<Rightarrow> pool_state" where
  "init_state fl name subnet dns =
     zero_state\<lparr>ps_platform := name, ps_node_name := fl_node_name fl, ps_subnet := subnet,
       ps_gateway := fl_gateway fl, ps_dns_servers := dns, ps_drop_internal := fl_drop_internal fl,
       ps_drop_cidrs := fl_drop_cidrs fl, ps_state_dir := fl_state_dir fl\<rparr>"

definition init_config :: "flags \<Rightarrow> string \<Rightarrow> net_config" where
  "init_config fl subnet =
     \<lparr>nc_node_name = fl_node_name fl, nc_subnet_cidr = subnet, nc_pool_size = fl_pool_size fl,
      nc_gateway = fl_gateway fl, nc_primary_nic = fl_primary_nic fl\<rparr>"

text \<open>A state that cannot be loaded is seeded, so that a teardown has something to act on.\<close>

definition seed_state :: "'c driver \<Rightarrow> pool_state \<Rightarrow> ('c, pool_state result) io" where
  "seed_state drv st h =
     (case pool_load drv (ps_state_dir st) h of
        Inr existing \<Rightarrow> (Inr existing, h)
      | Inl _ \<Rightarrow>
          (case pool_save drv st h of
             (Some e, h') \<Rightarrow> (Inl (Wrap ''save seed pool state'' e), h') | (None, h') \<Rightarrow> (Inr st, h')))"

definition provisioned :: "pool_state \<Rightarrow> pool_state \<Rightarrow> net_result \<Rightarrow> pool_state" where
  "provisioned recorded st r =
     st\<lparr>ps_subnet := nr_subnet_cidr r, ps_gateway := nr_gateway r, ps_primary_nic := nr_primary_nic r,
       ps_secondary_nics := nr_secondary_nics r, ps_eni_ids := merge_eni_ids (ps_eni_ids recorded) (nr_eni_ids r),
       ps_ips := nr_ips r, ps_alias_range_name := nr_alias_range_name r\<rparr>"

text \<open>A failed provisioning still records the interfaces it reports; the error of that save is logged.\<close>

definition record_failed :: "'c driver \<Rightarrow> pool_state \<Rightarrow> net_result option \<Rightarrow> 'c host \<Rightarrow> 'c host" where
  "record_failed drv recorded r h =
     (case r of
        None \<Rightarrow> h
      | Some res \<Rightarrow>
          if nr_eni_ids res = [] then h
          else snd (pool_save drv (recorded\<lparr>ps_eni_ids := merge_eni_ids (ps_eni_ids recorded) (nr_eni_ids res)\<rparr>) h))"

definition nil_panic :: error where "nil_panic = Err ''panic: nil pointer dereference''"

definition provision_and_record ::
    "'c driver \<Rightarrow> 'c cloud_platform \<Rightarrow> pool_state \<Rightarrow> pool_state \<Rightarrow> net_config \<Rightarrow> ('c, (pool_state \<times> net_result) result) io" where
  "provision_and_record drv plat recorded st cfg h =
     (case cp_provision plat cfg h of
        ((r, Some e), h1) \<Rightarrow> (Inl (Wrap ''provision network'' e), record_failed drv recorded r h1)
      | ((None, None), h1) \<Rightarrow> (Inl nil_panic, h1)
      | ((Some r, None), h1) \<Rightarrow>
          (let st' = provisioned recorded st r
           in case pool_save drv st' h1 of
                (Some e, h2) \<Rightarrow> (Inl (Wrap ''save pool state'' e), h2) | (None, h2) \<Rightarrow> (Inr (st', r), h2)))"

text \<open>Everything between the dry run and the node's setup.\<close>

definition init_record :: "'c driver \<Rightarrow> nat \<Rightarrow> pool_state \<Rightarrow> net_config \<Rightarrow> ('c, (pool_state \<times> net_result) result) io" where
  "init_record drv pages st cfg =
     and_then (seed_state drv st) (\<lambda>recorded.
     and_then (wrapping ''init platform'' (new_platform drv pages (ps_platform st))) (\<lambda>plat.
     provision_and_record drv plat recorded st cfg))"

definition run_init :: "'c driver \<Rightarrow> nat \<Rightarrow> (string \<times> string) list \<Rightarrow> flags \<Rightarrow> ('c, string list result) io" where
  "run_init drv pages order fl =
     and_then (resolve_flags drv fl) (\<lambda>(name, subnet, dns).
     if fl_dry_run fl then ret (init_dry_run fl name subnet dns)
     else
       and_then (init_record drv pages (init_state fl name subnet dns) (init_config fl subnet)) (\<lambda>(st, r).
       and_then (wrapping ''node setup'' (node_setup drv order (node_config_of st False))) (\<lambda>_.
       ret [''cocoon-net init complete: '' @ itoa (int (length (nr_ips r))) @ '' IPs provisioned on '' @
            nr_subnet_cidr r @ '' ('' @ nr_platform r @ '')''])))"

section \<open>\<open>adopt.go\<close>\<close>

text \<open>The addresses one interface contributes, after those already picked.\<close>

fun pick_ips :: "prefix \<Rightarrow> addr \<Rightarrow> addr \<Rightarrow> string list \<Rightarrow> string list \<Rightarrow> bool \<Rightarrow> string list \<times> bool" where
  "pick_ips p gw bcast [] ips contributed = (ips, contributed)"
| "pick_ips p gw bcast (ip # rest) ips contributed =
     (case parse_addr ip of
        None \<Rightarrow> pick_ips p gw bcast rest ips contributed
      | Some a \<Rightarrow>
          if \<not> prefix_contains p a \<or> a = gw \<or> a = bcast \<or> ip \<in> set ips
          then pick_ips p gw bcast rest ips contributed
          else pick_ips p gw bcast rest (ips @ [ip]) True)"

fun pick_enis :: "prefix \<Rightarrow> addr \<Rightarrow> addr \<Rightarrow> eni_status list \<Rightarrow> string list \<Rightarrow> eni_status list \<Rightarrow>
    string list \<times> eni_status list" where
  "pick_enis p gw bcast [] ips enis = (ips, enis)"
| "pick_enis p gw bcast (e # es) ips enis =
     (case pick_ips p gw bcast (es_ips e) ips False of
        (ips', contributed) \<Rightarrow> pick_enis p gw bcast es ips' (if contributed then enis @ [e] else enis))"

definition adopt_pool :: "'c cloud_platform \<Rightarrow> string \<Rightarrow> string \<Rightarrow> int \<Rightarrow> ('c, (string list \<times> eni_status list) result) io" where
  "adopt_pool plat subnet gateway cnt =
     (if cp_name plat \<noteq> platform_volcengine then
        and_then (lift_result (subnet_ips subnet gateway cnt)) (\<lambda>ips. ret (ips, []))
      else
        and_then (lift_result (host_prefix subnet gateway)) (\<lambda>(p, gw, bcast).
        and_then (wrapping ''list ENI secondary IPs'' (cp_status plat)) (\<lambda>status.
        case pick_enis p gw bcast (pst_enis status) [] [] of
          (ips, enis) \<Rightarrow>
            if ips = [] then fail_with (Err ''no ENI secondary IP is assigned to this node'')
            else ret (sort_ips ips, enis))))"

text \<open>\<open>strings.ToLower\<close> on the ASCII letters.\<close>

definition lower_char :: "char \<Rightarrow> char" where
  "lower_char c = (let n = (of_char c :: nat) in if 65 \<le> n \<and> n \<le> 90 then char_of (n + 32) else c)"

definition canonical_mac :: "string \<Rightarrow> string" where
  "canonical_mac s = (case parse_mac s of Some m \<Rightarrow> mac_string m | None \<Rightarrow> map lower_char s)"

definition require_pool_links :: "eni_status list \<Rightarrow> (string \<times> string) list \<Rightarrow> unit result" where
  "require_pool_links enis macs =
     (if \<exists>e \<in> set enis. canonical_mac (es_mac e) \<notin> set (map (\<lambda>(n, m). canonical_mac m) macs)
      then Inl (Err ''ENI carries pool IPs but no secondary link has that address'') else Inr ())"

definition adopt_dry_run :: "flags \<Rightarrow> pool_state \<Rightarrow> string list" where
  "adopt_dry_run fl s =
     [''[dry-run] would adopt node with config:'',
      ''  platform:        '' @ ps_platform s,
      ''  node-name:       '' @ ps_node_name s,
      ''  subnet:          '' @ ps_subnet s,
      ''  gateway:         '' @ ps_gateway s,
      ''  primary-nic:     '' @ ps_primary_nic s,
      ''  secondary-nics:  '' @ join '','' (ps_secondary_nics s),
      ''  enis:            '' @ str_or (join '','' (ps_eni_ids s)) ''none'',
      (if ps_ips s \<noteq> [] then ''  pool-size:       '' @ itoa (int (length (ps_ips s))) @ '' (first='' @ hd (ps_ips s) @
         '', last='' @ last (ps_ips s) @ '')'' else ''  pool-size:       0''),
      ''  dns:             '' @ join '','' (ps_dns_servers s),
      ''  drop-internal:   '' @ bool_text (ps_drop_internal s),
      ''  drop-cidr:       '' @ join '','' (ps_drop_cidrs s),
      ''  state-dir:       '' @ ps_state_dir s,
      ''  manage-iptables: '' @ bool_text (fl_manage_iptables fl),
      [],
      ''would write:'',
      ''  /etc/cni/net.d/30-cocoon-dhcp.conflist'',
      ''  '' @ ps_state_dir s @ ''/pool.json'',
      ''would (re)apply: '' @ (if ps_secondary_nics s \<noteq> [] then ''secondary NICs up, bridge cni0, sysctl''
         else ''bridge cni0, sysctl'') @ ''; iptables '' @
         (if fl_manage_iptables fl then ''(re)applied'' else ''skipped (preserve existing rules)''),
      ''routes and DHCP managed by '' @ [CHR 0x27] @ ''cocoon-net daemon'' @ [CHR 0x27],
      ''would NOT touch: cloud alias IP range / ENIs (preserved as-is)'']"

text \<open>The state an adoption would save; nothing on the host has changed when it is known.\<close>

definition adopt_plan :: "'c driver \<Rightarrow> nat \<Rightarrow> flags \<Rightarrow> ('c, ('c cloud_platform \<times> pool_state) result) io" where
  "adopt_plan drv pages fl =
     and_then (resolve_flags drv fl) (\<lambda>(name, subnet, dns).
     and_then (wrapping ''compute gateway'' (lift_result (resolve_gateway (fl_gateway fl) subnet))) (\<lambda>gateway.
     and_then (wrapping ''adopt platform'' (new_platform drv pages name)) (\<lambda>plat.
     and_then (wrapping ''compute ip list'' (adopt_pool plat subnet gateway (fl_pool_size fl))) (\<lambda>(ips, enis).
     and_then (present_result drv (default_secondary_nics name)) (\<lambda>secondary.
     if default_secondary_nics name \<noteq> [] \<and> secondary = [] then fail_with (Err ''no secondary NIC found'')
     else
       and_then (\<lambda>h. case link_macs drv secondary h of (ms, h') \<Rightarrow> (Inr ms, h')) (\<lambda>macs.
       and_then (lift_result (require_pool_links enis macs)) (\<lambda>_.
       ret (plat, zero_state\<lparr>ps_platform := name, ps_node_name := fl_node_name fl, ps_subnet := subnet,
         ps_gateway := gateway, ps_primary_nic := str_or (fl_primary_nic fl) (default_nic name),
         ps_secondary_nics := secondary, ps_eni_ids := map es_id enis, ps_ips := ips, ps_dns_servers := dns,
         ps_drop_internal := fl_drop_internal fl, ps_drop_cidrs := fl_drop_cidrs fl,
         ps_state_dir := fl_state_dir fl\<rparr>))))))))"

definition as_result :: "('c, error option) io \<Rightarrow> ('c, unit result) io" where
  "as_result m h = (case m h of (None, h') \<Rightarrow> (Inr (), h') | (Some e, h') \<Rightarrow> (Inl e, h'))"

definition adopt_config :: "pool_state \<Rightarrow> net_config" where
  "adopt_config s = \<lparr>nc_node_name = ps_node_name s, nc_subnet_cidr = ps_subnet s, nc_pool_size = 0,
     nc_gateway = ps_gateway s, nc_primary_nic = ps_primary_nic s\<rparr>"

definition run_adopt :: "'c driver \<Rightarrow> nat \<Rightarrow> (string \<times> string) list \<Rightarrow> flags \<Rightarrow> ('c, string list result) io" where
  "run_adopt drv pages order fl =
     and_then (adopt_plan drv pages fl) (\<lambda>(plat, s).
     if fl_dry_run fl then ret (adopt_dry_run fl s)
     else
       and_then (wrapping ''adopt platform'' (as_result (cp_adopt plat (adopt_config s)))) (\<lambda>_.
       and_then (wrapping ''node setup'' (node_setup drv order (node_config_of s (\<not> fl_manage_iptables fl)))) (\<lambda>_.
       and_then (wrapping ''save pool state'' (as_result (pool_save drv s))) (\<lambda>_.
       ret [''cocoon-net adopt complete: '' @ itoa (int (length (ps_ips s))) @ '' IPs registered on '' @ ps_subnet s @
            '' ('' @ ps_platform s @ '', cloud preserved)'']))))"

section \<open>\<open>pidfile.go\<close>\<close>

definition pid_file :: path where "pid_file = ''/run/cocoon-net.pid''"
definition pid_file_perm :: file_mode where "pid_file_perm = 420"

lemma clean_pid_file: "clean_path pid_file = pid_file"
  by code_simp

text \<open>A missing or corrupt file, and one of a dead process, give no error.\<close>

definition check_existing_pid :: "'c driver \<Rightarrow> path \<Rightarrow> 'c host \<Rightarrow> error option" where
  "check_existing_pid drv p h =
     (case read_file drv (clean_path p) h of
        FileData data \<Rightarrow>
          (case atoi (trim_space data) of
             None \<Rightarrow> None
           | Some pid \<Rightarrow> if dr_alive drv pid (h_ext h) then Some (Err ''another cocoon-net daemon is running'') else None)
      | _ \<Rightarrow> None)"

fun link_pid_file :: "'c driver \<Rightarrow> path \<Rightarrow> nat \<Rightarrow> ('c, unit result) io" where
  "link_pid_file drv tmp 0 h = (Inl (Err ''create pid file: exists''), h)"
| "link_pid_file drv tmp (Suc n) h =
     (case link_file drv tmp pid_file h of
        (Linked, h1) \<Rightarrow> (Inr (), h1)
      | (LinkFailed, h1) \<Rightarrow> (Inl (Err ''create pid file''), h1)
      | (TargetExists, h1) \<Rightarrow>
          (case check_existing_pid drv pid_file h1 of
             Some e \<Rightarrow> (Inl e, h1)
           | None \<Rightarrow> link_pid_file drv tmp n (snd (remove_file drv pid_file h1))))"

definition pid_tmp :: "int \<Rightarrow> path" where
  "pid_tmp pid = pid_file @ ''.'' @ itoa pid"

definition acquire_pid_file :: "'c driver \<Rightarrow> ('c, unit result) io" where
  "acquire_pid_file drv =
     and_then (check_ok ''create pid dir'' (ext_call (dr_mkdir drv (path_dir pid_file)))) (\<lambda>_ h.
       let pid = dr_pid drv (h_ext h); tmp = pid_tmp pid
       in and_then (check_ok ''write pid file'' (write_file drv tmp (itoa pid) pid_file_perm))
            (\<lambda>_ h1. case link_pid_file drv tmp 2 h1 of (r, h2) \<Rightarrow> (r, snd (remove_file drv tmp h2))) h)"

section \<open>\<open>teardown.go\<close> and \<open>status.go\<close>\<close>

definition teardown_config_of :: "pool_state \<Rightarrow> teardown_config" where
  "teardown_config_of s = \<lparr>tc_eni_ids = ps_eni_ids s, tc_alias_range_name = ps_alias_range_name s, tc_subnet_cidr = ps_subnet s\<rparr>"

definition forget_state :: "'c driver \<Rightarrow> flags \<Rightarrow> pool_state \<Rightarrow> ('c, unit result) io" where
  "forget_state drv fl s =
     and_then (ignoring (clear_drop_rules drv)) (\<lambda>_.
     and_then (ignoring (pool_delete drv s)) (\<lambda>_.
     ignoring (remove_file drv (fl_lease_file fl))))"

definition run_teardown :: "'c driver \<Rightarrow> nat \<Rightarrow> flags \<Rightarrow> ('c, string list result) io" where
  "run_teardown drv pages fl =
     and_then (load_pool_state drv (fl_state_dir fl)) (\<lambda>s.
     if fl_dry_run fl then
       ret [''[dry-run] would teardown '' @ ps_platform s @ '' networking for node '' @ ps_node_name s @
            '' (subnet '' @ ps_subnet s @ '')'']
     else
       and_then (\<lambda>h. if fl_force fl then (Inr (), h)
                     else (case check_existing_pid drv pid_file h of
                             Some e \<Rightarrow> (Inl (Wrap ''stop it first or pass --force'' e), h) | None \<Rightarrow> (Inr (), h))) (\<lambda>_.
       and_then (wrapping ''load platform'' (new_platform drv pages (ps_platform s))) (\<lambda>plat.
       and_then (wrapping ''teardown'' (as_result (cp_teardown plat (teardown_config_of s)))) (\<lambda>_.
       and_then (forget_state drv fl s) (\<lambda>_.
       ret [''cocoon-net teardown complete ('' @ ps_platform s @ '')''])))))"

text \<open>The update time is printed in UTC, the zone in which it is saved.\<close>

definition status_lines :: "pool_state \<Rightarrow> pool_status option \<Rightarrow> string list" where
  "status_lines s st =
     [''Platform:   '' @ ps_platform s, ''Node:       '' @ ps_node_name s, ''Subnet:     '' @ ps_subnet s,
      ''Gateway:    '' @ ps_gateway s, ''IPs:        '' @ itoa (int (length (ps_ips s))),
      ''Updated:    '' @ format_rfc3339 0 (ps_updated_at s)] @
     (case st of
        None \<Rightarrow> []
      | Some p \<Rightarrow>
          (if pst_enis p \<noteq> [] then [''ENIs:       '' @ itoa (int (length (pst_enis p)))] else []) @
          (if pst_alias_ranges p \<noteq> [] then [''Aliases:    '' @ join '', '' (pst_alias_ranges p)] else []))"

definition run_status :: "'c driver \<Rightarrow> nat \<Rightarrow> flags \<Rightarrow> ('c, string list result) io" where
  "run_status drv pages fl =
     and_then (load_pool_state drv (fl_state_dir fl)) (\<lambda>s.
     and_then (wrapping ''load platform'' (new_platform drv pages (ps_platform s))) (\<lambda>plat h.
       case cp_status plat h of
         (Inl _, h') \<Rightarrow> (Inr (status_lines s None), h')
       | (Inr st, h') \<Rightarrow> (Inr (status_lines s (Some st)), h')))"

section \<open>\<open>daemon.go\<close>\<close>

definition fallback_dns :: "string list" where "fallback_dns = [''8.8.8.8'', ''1.1.1.1'']"

text \<open>From the loaded state to the server; \<open>dhcp.New\<close> indexing a short address would panic.\<close>

definition server_of :: "flags \<Rightarrow> pool_state \<Rightarrow> fs \<Rightarrow> dhcp_server result" where
  "server_of fl s fs =
     (let gateway = to4 (parse_ip (ps_gateway s)); ips = parse_ips (ps_ips s);
          dns = (if ps_dns_servers s = [] then fallback_dns else ps_dns_servers s)
      in if gateway = [] then Inl (Err ''invalid gateway'')
         else (case parse_cidr (ps_subnet s) of
                 None \<Rightarrow> Inl (Err ''invalid subnet'')
               | Some (_, n) \<Rightarrow>
                   if ips = [] then Inl (Err ''no valid IPs in pool'')
                   else (case new_server \<lparr>cf_interface = bridge_name, cf_gateway = gateway, cf_mask = net_mask n,
                             cf_dns = parse_ips dns, cf_lease_time = 0, cf_lease_file = fl_lease_file fl,
                             cf_control_socket = fl_control_socket fl\<rparr> ips fs of
                           None \<Rightarrow> Inl (Err ''panic: nil address'') | Some srv \<Rightarrow> Inr srv)))"

definition daemon_body ::
    "'c driver \<Rightarrow> (string \<times> string) list \<Rightarrow> (dhcp_server \<Rightarrow> ('c, error option) io) \<Rightarrow> flags \<Rightarrow> ('c, unit result) io" where
  "daemon_body drv order run fl =
     and_then (load_pool_state drv (fl_state_dir fl)) (\<lambda>s0.
     let s = s0\<lparr>ps_primary_nic := str_or (ps_primary_nic s0) (default_nic (ps_platform s0))\<rparr> in
     and_then (if ps_platform s = platform_gke
               then wrapping ''re-apply the guest-agent route fix'' (as_result (gke_adopt drv (adopt_config s)))
               else ret ()) (\<lambda>_.
     and_then (wrapping ''node setup'' (node_setup drv order (node_config_of s (fl_skip_iptables fl)))) (\<lambda>_ h.
     and_then (lift_result (server_of fl s (h_files h))) (\<lambda>srv.
     and_then (check_ok ''create lease dir'' (ext_call (dr_mkdir drv (path_dir (fl_lease_file fl))))) (\<lambda>_.
     as_result (run srv))) h)))"

text \<open>The deferred removal of the PID file runs only once it was acquired.\<close>

definition run_daemon ::
    "'c driver \<Rightarrow> (string \<times> string) list \<Rightarrow> (dhcp_server \<Rightarrow> ('c, error option) io) \<Rightarrow> flags \<Rightarrow> ('c, unit result) io" where
  "run_daemon drv order run fl =
     and_then (acquire_pid_file drv) (\<lambda>_ h.
       case daemon_body drv order run fl h of (r, h') \<Rightarrow> (r, snd (remove_file drv pid_file h')))"

end
