(* ===== verification/Cmd_Props.thy ===== *)
theory Cmd_Props
  imports Cmd Gke_Props Volcengine_Props
begin

text \<open>
  Properties of the commands as compositions: \<open>init\<close> never loses track of an interface, and \<open>teardown\<close>
  forgets the state only after the cloud side is gone.
\<close>

section \<open>The platform of a command\<close>

lemma load_env_frame: "h_files (snd (load_env drv h)) = h_files h \<and> h_ext (snd (load_env drv h)) = h_ext h"
  by (simp add: load_env_def set_env_def Let_def split: read_result.split option.split prod.split)

lemma new_platform_frame:
  "new_platform drv pages name h = (r, h') \<Longrightarrow> h_files h' = h_files h \<and> h_ext h' = h_ext h"
  using load_env_frame [of drv h]
  by (auto simp: new_platform_def volc_new_def split: if_splits prod.splits option.splits)

lemma new_platform_cases:
  "new_platform drv pages name h = (Inr plat, h') \<Longrightarrow>
   name = platform_gke \<and> plat = gke_platform drv \<or> name = platform_volcengine \<and> plat = volc_platform drv pages"
  by (auto simp: new_platform_def split: if_splits prod.splits option.splits)

lemma platforms_differ [simp]: "platform_volcengine \<noteq> platform_gke" "platform_gke \<noteq> platform_volcengine"
  by (simp_all add: platform_gke_def platform_volcengine_def)

lemma new_platform_volcengine:
  "new_platform drv pages platform_volcengine h = (Inr plat, h') \<Longrightarrow> plat = volc_platform drv pages"
  using new_platform_cases by fastforce

text \<open>Both drivers leave the state file alone.\<close>

lemma teardown_frame:
  assumes "new_platform drv pages name h0 = (Inr plat, h1)" and "p \<noteq> cron_fix_file"
  shows "h_files (snd (cp_teardown plat tc h)) p = h_files h p"
  using new_platform_cases [OF assms(1)] gke.teardown_files [of p drv tc h] volc.teardown_files [of p drv pages tc h] assms(2)
  by auto

section \<open>Recorded interfaces\<close>

lemma set_merge [simp]: "set (merge_eni_ids a b) = set a \<union> set b"
  by (induction b arbitrary: a) auto

lemma distinct_merge: "distinct a \<Longrightarrow> distinct (merge_eni_ids a b)"
  by (induction b arbitrary: a) auto

definition recorded_ids :: "'c driver \<Rightarrow> path \<Rightarrow> 'c host \<Rightarrow> string set" where
  "recorded_ids drv dir h = (case pool_load drv dir h of Inl _ \<Rightarrow> {} | Inr s \<Rightarrow> set (ps_eni_ids s))"

text \<open>Local calls do not touch the cloud; saving works and the state file can be read.\<close>

definition local_quiet :: "'c driver \<Rightarrow> ('c \<Rightarrow> string set) \<Rightarrow> bool" where
  "local_quiet drv live \<longleftrightarrow> (\<forall>p c. live (snd (dr_mkdir drv p c)) = live c) \<and> (\<forall>c. live (snd (dr_disk drv c)) = live c)"

definition saves_work :: "'c driver \<Rightarrow> path \<Rightarrow> bool" where
  "saves_work drv dir \<longleftrightarrow> (\<forall>s h. ps_state_dir s = dir \<longrightarrow> fst (pool_save drv s h) = None) \<and>
     (\<forall>c. dr_readable drv (pool_path dir) c)"

lemma pool_load_cong:
  "saves_work drv dir \<Longrightarrow> h_files h' (pool_path dir) = h_files h (pool_path dir) \<Longrightarrow> pool_load drv dir h' = pool_load drv dir h"
  by (simp add: pool_load_def read_file_def saves_work_def split: option.split)

lemma save_records:
  assumes w: "saves_work drv dir" and q: "local_quiet drv live" and dir: "ps_state_dir s = dir"
    and s: "pool_save drv s h = (e, h')"
  shows "e = None" and "live (h_ext h') = live (h_ext h)" and "recorded_ids drv dir h' = set (ps_eni_ids s)"
proof -
  show e: "e = None" using w s dir unfolding saves_work_def by (metis fst_conv)
  have "dr_readable drv (pool_path (ps_state_dir s)) (h_ext h')" using w dir by (simp add: saves_work_def)
  from saved_state_loads [OF s [unfolded e] this] show "recorded_ids drv dir h' = set (ps_eni_ids s)"
    by (simp add: recorded_ids_def dir)
  show "live (h_ext h') = live (h_ext h)"
    using q s unfolding local_quiet_def
    by (auto simp: pool_save_def ext_call_def replace_file_def split: prod.splits bool.splits option.splits) (metis snd_conv)+
qed

text \<open>\<open>tracked\<close>: what is live and new is recorded, and what was recorded still is.\<close>

definition tracked :: "'c driver \<Rightarrow> path \<Rightarrow> ('c \<Rightarrow> string set) \<Rightarrow> 'c host \<Rightarrow> 'c host \<Rightarrow> bool" where
  "tracked drv dir live h h' \<longleftrightarrow> live (h_ext h) \<subseteq> live (h_ext h') \<and>
     live (h_ext h') \<subseteq> live (h_ext h) \<union> recorded_ids drv dir h' \<and> recorded_ids drv dir h \<subseteq> recorded_ids drv dir h'"

lemma tracked_same:
  "live (h_ext h') = live (h_ext h) \<Longrightarrow> recorded_ids drv dir h \<subseteq> recorded_ids drv dir h' \<Longrightarrow> tracked drv dir live h h'"
  by (auto simp: tracked_def)

lemma seed_records:
  assumes w: "saves_work drv (ps_state_dir st)" and q: "local_quiet drv live" and s: "seed_state drv st h = (r, h')"
  shows "live (h_ext h') = live (h_ext h)" "recorded_ids drv (ps_state_dir st) h \<subseteq> recorded_ids drv (ps_state_dir st) h'"
    and "r = Inr rec \<Longrightarrow> recorded_ids drv (ps_state_dir st) h' = set (ps_eni_ids rec)"
    and "r = Inr rec \<Longrightarrow> ps_state_dir rec = ps_state_dir st"
proof -
  obtain e h1 where sv: "pool_save drv st h = (e, h1)" by fastforce
  note sr = save_records [OF w q refl sv]
  have "pool_load drv (ps_state_dir st) h = Inr x \<Longrightarrow> ps_state_dir x = ps_state_dir st" for x
    by (auto simp: pool_load_def split: read_result.splits option.splits)
  then show "live (h_ext h') = live (h_ext h)" "recorded_ids drv (ps_state_dir st) h \<subseteq> recorded_ids drv (ps_state_dir st) h'"
    "r = Inr rec \<Longrightarrow> recorded_ids drv (ps_state_dir st) h' = set (ps_eni_ids rec)"
    "r = Inr rec \<Longrightarrow> ps_state_dir rec = ps_state_dir st" for rec
    using s sv sr by (auto simp: seed_state_def recorded_ids_def split: sum.splits)
qed

lemma provision_tracks:
  assumes ok: "ve_ok drv live" and w: "saves_work drv (ps_state_dir st)" and q: "local_quiet drv live"
    and dir: "ps_state_dir rec = ps_state_dir st" and rec: "recorded_ids drv (ps_state_dir st) h = set (ps_eni_ids rec)"
    and p: "provision_and_record drv (volc_platform drv pages) rec st cfg h = (res, h')"
  shows "tracked drv (ps_state_dir st) live h h'"
proof -
  let ?dir = "ps_state_dir st"
  obtain r e h1 where v: "volc_provision drv pages cfg h = ((r, e), h1)" by (metis surj_pair)
  have acc: "live (h_ext h) \<subseteq> live (h_ext h1)"
    "live (h_ext h1) \<subseteq> live (h_ext h) \<union> set (case r of None \<Rightarrow> [] | Some res \<Rightarrow> nr_eni_ids res)"
    using provision_accounts [OF ok v] by auto
  have "h_files h1 = h_files h" using ve_steps_frame [OF provision_steps [of drv h pages cfg]] v by simp
  then have keep: "recorded_ids drv ?dir h1 = recorded_ids drv ?dir h"
    using pool_load_cong [OF w, of h1 h] by (simp add: recorded_ids_def)
  have save: "tracked drv ?dir live h h2" if "pool_save drv s h1 = (e2, h2)" "ps_state_dir s = ?dir"
    "set (ps_eni_ids s) = set (ps_eni_ids rec) \<union> set (case r of None \<Rightarrow> [] | Some res \<Rightarrow> nr_eni_ids res)" for s e2 h2
    using save_records [OF w q that(2,1)] acc that(3) rec by (auto simp: tracked_def)
  show ?thesis
  proof (cases e)
    case (Some err)
    then have h': "h' = record_failed drv rec r h1"
      using p v by (simp add: provision_and_record_def volc_platform_def split: option.splits)
    show ?thesis
    proof (cases "\<exists>res. r = Some res \<and> nr_eni_ids res \<noteq> []")
      case True
      then obtain res where r: "r = Some res" "nr_eni_ids res \<noteq> []" by blast
      obtain e2 h2 where s: "pool_save drv (rec\<lparr>ps_eni_ids := merge_eni_ids (ps_eni_ids rec) (nr_eni_ids res)\<rparr>) h1 = (e2, h2)" by fastforce
      then show ?thesis using h' r dir by (auto simp: record_failed_def intro: save)
    next
      case False
      then have "h' = h1" "set (case r of None \<Rightarrow> [] | Some res \<Rightarrow> nr_eni_ids res) = {}"
        using h' by (auto simp: record_failed_def split: option.splits)
      then show ?thesis using acc keep by (auto simp: tracked_def)
    qed
  next
    case None
    show ?thesis
    proof (cases r)
      case None
      then show ?thesis using p v \<open>e = None\<close> acc keep by (auto simp: provision_and_record_def volc_platform_def tracked_def)
    next
      case r: (Some x)
      obtain e2 h2 where s: "pool_save drv (provisioned rec st x) h1 = (e2, h2)" by fastforce
      have "h' = h2" using p v None r s by (auto simp: provision_and_record_def volc_platform_def split: option.splits)
      then show ?thesis using save [OF s] r by (simp add: provisioned_def)
    qed
  qed
qed


definition w_init_state :: pool_state where
  "w_init_state = zero_state\<lparr>ps_platform := platform_volcengine, ps_state_dir := ''/s''\<rparr>"

lemma w_saves: "saves_work (w_ve bad) dir"
proof -
  have "year_ok 0 0" by code_simp
  then have "fst (pool_save (w_ve bad) s h) = None" for s h
    by (simp add: pool_save_def w_ve_def bare_driver_def ext_call_def pool_data_def replace_file_def write_file_atomic_def
        os_write_file_def os_chmod_def os_rename_def disk_ok_def Let_def split: option.split)
  then show ?thesis by (simp add: saves_work_def) (simp add: w_ve_def bare_driver_def)
qed

lemma w_quiet: "local_quiet (w_ve bad) set"
  by (simp add: local_quiet_def w_ve_def bare_driver_def)


section \<open>Teardown\<close>

lemma forget_state_Inr: "fst (forget_state drv fl s h) = Inr ()"
  by (simp add: forget_state_def and_then_def ignoring_def split: prod.split)

text \<open>
  C39. \<open>teardown\<close> forgets last. A dry run, and a run without \<open>--force\<close> beside a live daemon, change
  nothing at all. A run that fails leaves the state file as it was, so that it can be repeated; and
  whenever a run changes the state file, the teardown of the cloud resources it records succeeded first.
\<close>

theorem teardown_forgets_last:
  assumes td: "run_teardown drv pages fl h = (res, h')" and p: "pool_path (fl_state_dir fl) \<noteq> cron_fix_file"
  shows "(fl_dry_run fl \<or> \<not> fl_force fl \<and> check_existing_pid drv pid_file h \<noteq> None \<longrightarrow> h' = h) \<and>
    (\<forall>e. res = Inl e \<longrightarrow> h_files h' (pool_path (fl_state_dir fl)) = h_files h (pool_path (fl_state_dir fl))) \<and>
    (h_files h' (pool_path (fl_state_dir fl)) \<noteq> h_files h (pool_path (fl_state_dir fl)) \<longrightarrow>
      (\<exists>s plat h1 h2. pool_load drv (fl_state_dir fl) h = Inr s \<and> new_platform drv pages (ps_platform s) h = (Inr plat, h1) \<and>
         cp_teardown plat (teardown_config_of s) h1 = (None, h2) \<and> h' = snd (forget_state drv fl s h2)))"
proof (cases "pool_load drv (fl_state_dir fl) h")
  case (Inl e)
  then show ?thesis using td by (auto simp: run_teardown_def load_pool_state_def and_then_def wrapping_def)
next
  case (Inr s)
  let ?P = "pool_path (fl_state_dir fl)"
  have load: "load_pool_state drv (fl_state_dir fl) h = (Inr s, h)" using Inr by (simp add: load_pool_state_def wrapping_def)
  show ?thesis
  proof (cases "fl_dry_run fl \<or> \<not> fl_force fl \<and> check_existing_pid drv pid_file h \<noteq> None")
    case True
    then have "h' = h" using td load by (auto simp: run_teardown_def and_then_def ret_def split: option.splits if_splits)
    then show ?thesis by simp
  next
    case go: False
    obtain pl h1 where np: "new_platform drv pages (ps_platform s) h = (pl, h1)" by fastforce
    note fr = new_platform_frame [OF np]
    show ?thesis
    proof (cases pl)
      case e: (Inl e)
      then have "h' = h1" using td load go np by (auto simp: run_teardown_def and_then_def wrapping_def split: option.splits)
      then show ?thesis using go fr by auto
    next
      case plat: (Inr plat)
      obtain e h2 where t: "cp_teardown plat (teardown_config_of s) h1 = (e, h2)" by fastforce
      have "h_files h2 ?P = h_files h ?P"
        using teardown_frame [OF np [unfolded plat] p, of "teardown_config_of s" h1] t fr by simp
      moreover have "h' = (if e = None then snd (forget_state drv fl s h2) else h2)" "isl res \<longleftrightarrow> e \<noteq> None"
        using td load go np plat t forget_state_Inr [of drv fl s h2]
        by (auto simp: run_teardown_def and_then_def wrapping_def as_result_def ret_def split: option.splits prod.splits)
      ultimately show ?thesis using go Inr np plat t by (auto split: if_splits)
    qed
  qed
qed

text \<open>A GKE node whose metadata server does not answer.\<close>

definition w_teardown_flags :: flags where
  "w_teardown_flags = \<lparr>fl_platform = [], fl_node_name = [], fl_subnet = [], fl_pool_size = 0, fl_gateway = [],
     fl_primary_nic = [], fl_dns = [], fl_state_dir = ''/s'', fl_dry_run = False, fl_force = False, fl_drop_internal = False,
     fl_drop_cidrs = [], fl_manage_iptables = False, fl_lease_file = [], fl_control_socket = [], fl_skip_iptables = False\<rparr>"

lemma w_gke_down: "\<exists>e. gke_teardown bare_driver tc h = (Some e, h)"
  by (simp add: gke_teardown_def gke_teardown_steps_def gke_fetch_metadata_def gke_fetch_def and_then_def wrapping_def
      fetch_metadata_def ext_call_def bare_driver_def error_of_def)

theorem teardown_forgets_last_witness:
  "\<exists>(h :: unit host) h' s e. pool_load bare_driver ''/s'' h = Inr s \<and>
     run_teardown bare_driver 0 w_teardown_flags h = (Inl e, h') \<and> h_files h' (pool_path ''/s'') = h_files h (pool_path ''/s'')"
proof -
  let ?h0 = "\<lparr>h_files = Map.empty, h_env = Map.empty, h_ext = ()\<rparr>" and ?d = "bare_driver :: unit driver"
  obtain h where sv: "pool_save ?d w_state ?h0 = (None, h)" using bare_saves by (metis prod.collapse)
  have w: "ps_state_dir w_state = ''/s''" "ps_platform w_state = platform_gke" by (simp_all add: w_state_def platform_gke_def)
  have "pid_file \<noteq> pool_path (ps_state_dir w_state)" "pid_file \<noteq> pool_path (ps_state_dir w_state) @ ''.tmp''" by code_simp+
  then have "h_files h (clean_path pid_file) = None" using pool_save_frame [of pid_file w_state ?d ?h0] sv by (simp add: clean_pid_file)
  then have pid: "check_existing_pid ?d pid_file h = None" by (simp add: check_existing_pid_def read_file_def)
  obtain s where load: "pool_load ?d ''/s'' h = Inr s" and plat: "ps_platform s = platform_gke"
    using saved_state_loads [OF sv] w by (auto simp: bare_driver_def)
  have f: "fl_state_dir w_teardown_flags = ''/s''" "\<not> fl_dry_run w_teardown_flags" "\<not> fl_force w_teardown_flags"
    by (simp_all add: w_teardown_flags_def)
  obtain e0 where "gke_teardown ?d (teardown_config_of s) h = (Some e0, h)" using w_gke_down by blast
  then obtain e where r: "run_teardown ?d 0 w_teardown_flags h = (Inl e, h)"
    using load plat pid
    by (simp add: run_teardown_def load_pool_state_def and_then_def wrapping_def as_result_def new_platform_def gke_platform_def f)
  have "pool_path (fl_state_dir w_teardown_flags) \<noteq> cron_fix_file" by code_simp
  with teardown_forgets_last [OF r] r load show ?thesis by (auto simp: f)
qed

end
