(* ===== verification/Cmd_Adopt.thy ===== *)
theory Cmd_Adopt
  imports Cmd_Props Node_Files
begin

text \<open>
  \<open>adopt\<close>: which addresses it takes into the pool, which files it touches and in which order.
\<close>

section \<open>The pool\<close>

definition usable_ip :: "prefix \<Rightarrow> addr \<Rightarrow> addr \<Rightarrow> string \<Rightarrow> bool" where
  "usable_ip p gw bcast ip \<longleftrightarrow>
     (case parse_addr ip of None \<Rightarrow> False | Some a \<Rightarrow> prefix_contains p a \<and> a \<noteq> gw \<and> a \<noteq> bcast)"

lemma pick_ips_spec:
  "pick_ips p gw bcast xs ips contributed = (ips', c) \<Longrightarrow> distinct ips \<Longrightarrow>
   distinct ips' \<and> set ips' = set ips \<union> {x \<in> set xs. usable_ip p gw bcast x} \<and>
   (c \<longleftrightarrow> contributed \<or> set ips' \<noteq> set ips)"
proof (induction xs arbitrary: ips contributed)
  case (Cons x xs)
  show ?case
  proof (cases "usable_ip p gw bcast x \<and> x \<notin> set ips")
    case True
    then have "pick_ips p gw bcast xs (ips @ [x]) True = (ips', c)" "distinct (ips @ [x])"
      using Cons.prems by (auto simp: usable_ip_def split: option.splits)
    from Cons.IH [OF this] True show ?thesis by auto
  next
    case False
    then have "pick_ips p gw bcast xs ips contributed = (ips', c)"
      using Cons.prems(1) by (auto simp: usable_ip_def split: option.splits if_splits)
    from Cons.IH [OF this Cons.prems(2)] False show ?thesis by auto
  qed
qed simp

lemma pick_enis_spec:
  "pick_enis p gw bcast es ips enis = (ips', enis') \<Longrightarrow> distinct ips \<Longrightarrow>
   distinct ips' \<and> set ips' = set ips \<union> {x. usable_ip p gw bcast x \<and> (\<exists>e \<in> set es. x \<in> set (es_ips e))} \<and>
   set enis \<subseteq> set enis' \<and> set enis' \<subseteq> set enis \<union> set es \<and>
   (\<forall>x \<in> set ips'. x \<in> set ips \<or> (\<exists>e \<in> set enis'. x \<in> set (es_ips e)))"
proof (induction es arbitrary: ips enis)
  case (Cons e es)
  obtain ips1 c where p: "pick_ips p gw bcast (es_ips e) ips False = (ips1, c)" by fastforce
  note s = pick_ips_spec [OF p Cons.prems(2)]
  have r: "pick_enis p gw bcast es ips1 (if c then enis @ [e] else enis) = (ips', enis')"
    using Cons.prems(1) p by simp
  note i = Cons.IH [OF r conjunct1 [OF s]]
  show ?case
  proof (cases c)
    case True
    then have ips1: "set ips1 = set ips \<union> {x \<in> set (es_ips e). usable_ip p gw bcast x}" and e: "e \<in> set enis'"
      using s i by auto
    have "\<forall>x \<in> set ips'. x \<in> set ips \<or> (\<exists>e \<in> set enis'. x \<in> set (es_ips e))" using i ips1 e by blast
    moreover have "set ips' = set ips \<union> {x. usable_ip p gw bcast x \<and> (\<exists>e \<in> set (e # es). x \<in> set (es_ips e))}"
      using i ips1 by auto
    ultimately show ?thesis using i True by auto
  next
    case False
    then have ips1: "set ips1 = set ips" and n: "\<forall>x \<in> set (es_ips e). usable_ip p gw bcast x \<longrightarrow> x \<in> set ips"
      using s by auto
    have "set ips' = set ips \<union> {x. usable_ip p gw bcast x \<and> (\<exists>e \<in> set (e # es). x \<in> set (es_ips e))}"
      using i ips1 n by auto
    then show ?thesis using i ips1 False by auto
  qed
qed simp

text \<open>
  What the pool of an adopted state is made of: on Volcengine exactly the usable addresses the service lists
  for the node, each behind a recorded interface; elsewhere the hosts of the subnet.
\<close>

definition adopted_pool :: "'c cloud_platform \<Rightarrow> int \<Rightarrow> 'c host \<Rightarrow> pool_state \<Rightarrow> bool" where
  "adopted_pool plat cnt h s \<longleftrightarrow>
     (if cp_name plat = platform_volcengine then
        \<exists>p gw bcast st h'. host_prefix (ps_subnet s) (ps_gateway s) = Inr (p, gw, bcast) \<and> cp_status plat h = (Inr st, h') \<and>
          ps_ips s \<noteq> [] \<and> distinct (ps_ips s) \<and> sorted (map ip4_to_uint32 (ps_ips s)) \<and>
          set (ps_ips s) = {x. usable_ip p gw bcast x \<and> (\<exists>e \<in> set (pst_enis st). x \<in> set (es_ips e))} \<and>
          (\<forall>x \<in> set (ps_ips s). \<exists>e \<in> set (pst_enis st). es_id e \<in> set (ps_eni_ids s) \<and> x \<in> set (es_ips e))
      else subnet_ips (ps_subnet s) (ps_gateway s) cnt = Inr (ps_ips s) \<and> ps_eni_ids s = [])"

lemma adopt_pool_adopted:
  assumes "adopt_pool plat subnet gateway cnt h = (Inr (ips, enis), h')"
    and "ps_subnet s = subnet" "ps_gateway s = gateway" "ps_ips s = ips" "ps_eni_ids s = map es_id enis"
  shows "adopted_pool plat cnt h s"
proof (cases "cp_name plat = platform_volcengine")
  case True
  obtain sr h1 where sr: "cp_status plat h = (sr, h1)" by fastforce
  obtain p gw bcast where hp: "host_prefix subnet gateway = Inr (p, gw, bcast)"
    using assms(1) True by (cases "host_prefix subnet gateway") (auto simp: adopt_pool_def and_then_def lift_result_def)
  then obtain st where st: "sr = Inr st"
    using assms(1) True sr by (cases sr) (auto simp: adopt_pool_def and_then_def lift_result_def wrapping_def)
  obtain ips0 enis0 where pk: "pick_enis p gw bcast (pst_enis st) [] [] = (ips0, enis0)" by fastforce
  have a: "host_prefix subnet gateway = Inr (p, gw, bcast)" "cp_status plat h = (Inr st, h')"
    "pick_enis p gw bcast (pst_enis st) [] [] = (ips0, enis)" "ips0 \<noteq> []" "ips = sort_ips ips0"
    using assms(1) True hp sr st pk
    by (auto simp: adopt_pool_def and_then_def lift_result_def wrapping_def fail_with_def ret_def split: if_splits)
  note s = pick_enis_spec [OF a(3) distinct.simps(1) [THEN iffD2, OF TrueI]]
  have "set ips = set ips0" "distinct ips = distinct ips0" "sorted (map ip4_to_uint32 ips)" "ips \<noteq> []"
    using a(4) by (simp_all add: a(5) sort_ips_def flip: set_empty)
  then show ?thesis using True a(1,2) s assms(2-5) by (auto simp: adopted_pool_def) blast
next
  case False
  then show ?thesis using assms by (auto simp: adopted_pool_def adopt_pool_def io_run)
qed

section \<open>Files\<close>

definition adopt_files :: "flags \<Rightarrow> path set" where
  "adopt_files fl = insert cron_fix_file (\<Union>name \<in> {platform_gke, platform_volcengine}.
     setup_paths (str_or (fl_primary_nic fl) (default_nic name) # default_secondary_nics name))"

lemma keeps_bind:
  assumes "keeps R m" and "\<And>h x h1. m h = (Inr x, h1) \<Longrightarrow> R h1 (snd (k x h1))" and "transp R"
  shows "keeps R (and_then m k)"
proof (rule keepsI)
  fix h
  obtain r h1 where m: "m h = (r, h1)" by fastforce
  then have "R h h1" by (rule keepsD [OF assms(1)])
  then show "R h (snd (and_then m k h))"
    using m assms(2) transpD [OF assms(3)] by (cases r) (auto simp: and_then_def)
qed

lemma probe_files: "h_files (snd (probe_metadata drv url hs h)) = h_files h"
  by (simp add: probe_metadata_def fetch_metadata_def ext_call_def split: prod.split http_reply.split option.split)

lemma detect_files: "keeps (files_within S) (detect_platform drv)"
proof (rule keepsI)
  fix h :: "'a host"
  obtain b1 h1 where g: "gke_detect drv h = (b1, h1)" by fastforce
  obtain b2 h2 where v: "volc_detect drv h1 = (b2, h2)" by fastforce
  have "h_files h1 = h_files h" "h_files h2 = h_files h1"
    using g v probe_files by (metis gke_detect_def snd_conv, metis volc_detect_def snd_conv)
  then show "files_within S h (snd (detect_platform drv h))"
    using g v by (auto simp: detect_platform_def files_within_def split: bool.split)
qed

lemma flags_files: "keeps (files_within S) (resolve_flags drv fl)"
  unfolding resolve_flags_def resolve_platform_def
  by (auto intro!: keeps_files detect_files keeps_ret files_within_refl)

lemma new_platform_name: "new_platform drv pages name h = (Inr plat, h') \<Longrightarrow> cp_name plat = name"
  using new_platform_cases [of drv pages name h plat h'] by (auto simp: gke_platform_def volc_platform_def)

lemma new_platform_frames:
  assumes "new_platform drv pages name h0 = (Inr plat, h1)"
  shows "h_files (snd (cp_status plat h)) = h_files h"
    and "p \<noteq> cron_fix_file \<Longrightarrow> h_files (snd (cp_adopt plat cfg h)) p = h_files h p"
  using new_platform_cases [OF assms] gke.status_files volc.status_files gke.adopt_files volc.adopt_files by auto

lemma new_platform_files: "keeps (files_within S) (new_platform drv pages name)"
proof (rule keepsI)
  fix h :: "'a host"
  obtain r h' where "new_platform drv pages name h = (r, h')" by fastforce
  then show "files_within S h (snd (new_platform drv pages name h))"
    using new_platform_frame [of drv pages name h r h'] by (simp add: files_within_def)
qed

lemma adopt_pool_files:
  assumes "\<And>h. h_files (snd (cp_status plat h)) = h_files h"
  shows "keeps (files_within S) (adopt_pool plat subnet gateway cnt)"
proof -
  have "keeps (files_within S) (cp_status plat)" using assms by (auto intro: keepsI simp: files_within_def)
  then show ?thesis
    unfolding adopt_pool_def
    by (auto intro!: keeps_files keeps_ret files_within_refl split: prod.split)
qed

lemma macs_files: "keeps (files_within S) (\<lambda>h. case link_macs drv ns h of (ms, h') \<Rightarrow> (Inr ms, h'))"
proof -
  have "h_files (snd (link_macs_into drv ns macs h)) = h_files h" for macs h
  proof (induction ns arbitrary: macs h)
    case (Cons n ns)
    then show ?case by (auto simp: link_by_name_def ext_call_def split: prod.split option.split)
  qed simp
  then show ?thesis by (auto intro!: keepsI simp: link_macs_def files_within_def case_prod_beta)
qed

text \<open>The steps of \<open>adopt_plan\<close> once the driver is known.\<close>

definition plan_rest :: "'c driver \<Rightarrow> flags \<Rightarrow> string \<Rightarrow> string \<Rightarrow> string list \<Rightarrow> string \<Rightarrow> 'c cloud_platform \<Rightarrow>
    ('c, ('c cloud_platform \<times> pool_state) result) io" where
  "plan_rest drv fl name subnet dns gateway plat =
     and_then (wrapping ''compute ip list'' (adopt_pool plat subnet gateway (fl_pool_size fl))) (\<lambda>(ips, enis).
     and_then (present_result drv (default_secondary_nics name)) (\<lambda>secondary.
     if default_secondary_nics name \<noteq> [] \<and> secondary = [] then fail_with (Err ''no secondary NIC found'')
     else
       and_then (\<lambda>h. case link_macs drv secondary h of (ms, h') \<Rightarrow> (Inr ms, h')) (\<lambda>macs.
       and_then (lift_result (require_pool_links enis macs)) (\<lambda>_.
       ret (plat, zero_state\<lparr>ps_platform := name, ps_node_name := fl_node_name fl, ps_subnet := subnet,
         ps_gateway := gateway, ps_primary_nic := str_or (fl_primary_nic fl) (default_nic name),
         ps_secondary_nics := secondary, ps_eni_ids := map es_id enis, ps_ips := ips, ps_dns_servers := dns,
         ps_drop_internal := fl_drop_internal fl, ps_drop_cidrs := fl_drop_cidrs fl,
         ps_state_dir := fl_state_dir fl\<rparr>)))))"

lemma adopt_plan_eq:
  "adopt_plan drv pages fl =
     and_then (resolve_flags drv fl) (\<lambda>(name, subnet, dns).
     and_then (wrapping ''compute gateway'' (lift_result (resolve_gateway (fl_gateway fl) subnet))) (\<lambda>gateway.
     and_then (wrapping ''adopt platform'' (new_platform drv pages name)) (plan_rest drv fl name subnet dns gateway)))"
  unfolding adopt_plan_def plan_rest_def by (rule HOL.refl)

lemma plan_rest_files:
  assumes "\<And>h. h_files (snd (cp_status plat h)) = h_files h"
  shows "keeps (files_within S) (plan_rest drv fl name subnet dns gateway plat)"
  unfolding plan_rest_def
  by (auto intro!: keeps_files adopt_pool_files assms present_files macs_files keeps_ret files_within_refl split: prod.split)

lemma plan_files: "keeps (files_within S) (adopt_plan drv pages fl)"
proof -
  have tail: "keeps (files_within S) (and_then (wrapping ''adopt platform'' (new_platform drv pages name))
      (plan_rest drv fl name subnet dns gateway))" for name subnet dns gateway
    by (rule keeps_bind) (auto simp: wrapping_Inr files_within_trans
        intro: keeps_files new_platform_files keeps_at [OF plan_rest_files] new_platform_frames(1))
  show ?thesis
    unfolding adopt_plan_eq
    by (rule keeps_files(1) [OF flags_files])
      (auto intro!: keeps_files(1) [OF _ tail] keeps_wrapping keeps_ret files_within_refl split: prod.split)
qed

lemma present_result_subset: "present_result drv ns h = (Inr ps, h') \<Longrightarrow> set ps \<subseteq> set ns"
  using present_subset [of drv ns h ps h'] by (auto simp: present_result_def split: prod.splits)

lemma plan_restD:
  assumes "plan_rest drv fl name subnet dns gateway plat h = (Inr (plat', s), h')" and "cp_name plat = name"
  shows "plat' = plat \<and> ps_state_dir s = fl_state_dir fl \<and> ps_platform s = name \<and>
    ps_primary_nic s = str_or (fl_primary_nic fl) (default_nic name) \<and>
    set (ps_secondary_nics s) \<subseteq> set (default_secondary_nics name) \<and> adopted_pool plat (fl_pool_size fl) h s"
proof -
  obtain r h1 where a: "adopt_pool plat subnet gateway (fl_pool_size fl) h = (r, h1)" by fastforce
  then obtain ips enis where r: "r = Inr (ips, enis)"
    using assms(1) by (cases r) (auto simp: plan_rest_def and_then_def wrapping_def)
  obtain pr h2 where pr: "present_result drv (default_secondary_nics name) h1 = (Inr pr, h2)"
    by (cases "present_links drv (default_secondary_nics name) h1") (simp add: present_result_def)
  have s: "plat' = plat" "s = zero_state\<lparr>ps_platform := name, ps_node_name := fl_node_name fl, ps_subnet := subnet,
         ps_gateway := gateway, ps_primary_nic := str_or (fl_primary_nic fl) (default_nic name),
         ps_secondary_nics := pr, ps_eni_ids := map es_id enis, ps_ips := ips, ps_dns_servers := dns,
         ps_drop_internal := fl_drop_internal fl, ps_drop_cidrs := fl_drop_cidrs fl,
         ps_state_dir := fl_state_dir fl\<rparr>"
    using assms(1) a r pr by (auto simp: plan_rest_def and_then_def wrapping_def lift_result_def ret_def fail_with_def
        split: if_splits prod.splits sum.splits)
  show ?thesis using adopt_pool_adopted [OF a [unfolded r]] present_result_subset [OF pr] by (simp add: s)
qed

lemma adopt_planD:
  assumes "adopt_plan drv pages fl h = (Inr (plat, s), h')"
  obtains h0 h1 where "new_platform drv pages (ps_platform s) h0 = (Inr plat, h1)" and "adopted_pool plat (fl_pool_size fl) h1 s"
    and "ps_state_dir s = fl_state_dir fl" and "ps_primary_nic s = str_or (fl_primary_nic fl) (default_nic (ps_platform s))"
    and "set (ps_secondary_nics s) \<subseteq> set (default_secondary_nics (ps_platform s))"
proof -
  obtain name subnet dns gateway h0 pl h1 where n: "new_platform drv pages name h0 = (Inr pl, h1)"
    and r: "plan_rest drv fl name subnet dns gateway pl h1 = (Inr (plat, s), h')"
    using assms unfolding adopt_plan_eq by (auto simp: io_run split: prod.splits)
  from plan_restD [OF r new_platform_name [OF n]] n that show thesis by auto
qed

section \<open>The command\<close>

lemma files_within_mono: "files_within S h h' \<Longrightarrow> S \<subseteq> T \<Longrightarrow> files_within T h h'"
  by (auto simp: files_within_def)

lemma setup_paths_mono: "set xs \<subseteq> set ys \<Longrightarrow> setup_paths xs \<subseteq> setup_paths ys"
  by (auto simp: setup_paths_def)

lemma adopt_setup_files:
  assumes p: "adopt_plan drv pages fl h0 = (Inr (plat, s), h1)" and ord: "map_order order required_sysctls"
    and n: "node_setup drv order (node_config_of s skip) h2 = (r, h3)"
  shows "files_within (adopt_files fl) h2 h3"
proof (rule adopt_planD [OF p])
  fix ha hb
  assume a: "new_platform drv pages (ps_platform s) ha = (Inr plat, hb)"
    "ps_primary_nic s = str_or (fl_primary_nic fl) (default_nic (ps_platform s))"
    "set (ps_secondary_nics s) \<subseteq> set (default_secondary_nics (ps_platform s))"
  have "ps_platform s \<in> {platform_gke, platform_volcengine}" using new_platform_cases [OF a(1)] by auto
  moreover have "setup_paths (ps_primary_nic s # ps_secondary_nics s) \<subseteq>
      setup_paths (str_or (fl_primary_nic fl) (default_nic (ps_platform s)) # default_secondary_nics (ps_platform s))"
    using a(2,3) by (intro setup_paths_mono) auto
  ultimately have "setup_paths (ps_primary_nic s # ps_secondary_nics s) \<subseteq> adopt_files fl"
    unfolding adopt_files_def by blast
  with node_setup_within [OF n ord] show ?thesis by (auto simp: node_config_of_def intro: files_within_mono)
qed

text \<open>
  C27. \<open>adopt\<close> records what the cloud serves, last of all. A dry run changes no file; a run that fails leaves
  the state file as it was; and after a success the state file holds the planned state, whose pool on
  Volcengine is exactly the usable addresses the service lists for the node, in numeric order, each
  behind a recorded interface, and elsewhere the hosts of the subnet.
\<close>

theorem adopt_registers:
  assumes r: "run_adopt drv pages order fl h = (res, h')" and ord: "map_order order required_sysctls"
    and own: "pool_path (fl_state_dir fl) \<notin> adopt_files fl"
  shows "(fl_dry_run fl \<longrightarrow> h_files h' = h_files h) \<and>
    (\<forall>e. res = Inl e \<longrightarrow> h_files h' (pool_path (fl_state_dir fl)) = h_files h (pool_path (fl_state_dir fl))) \<and>
    (\<forall>out. res = Inr out \<and> \<not> fl_dry_run fl \<longrightarrow>
      (\<exists>plat s h1 h2. adopt_plan drv pages fl h = (Inr (plat, s), h1) \<and> adopted_pool plat (fl_pool_size fl) h2 s \<and>
        (dr_readable drv (pool_path (fl_state_dir fl)) (h_ext h') \<longrightarrow>
          (\<exists>now. pool_load drv (fl_state_dir fl) h' = Inr (s\<lparr>ps_updated_at := now\<rparr>)))))"
proof -
  let ?P = "pool_path (fl_state_dir fl)"
  obtain pr h1 where p: "adopt_plan drv pages fl h = (pr, h1)" by fastforce
  have f1: "h_files h1 = h_files h"
    using keepsD [OF plan_files [of "{}"] p] by (auto simp: files_within_def)
  show ?thesis
  proof (cases "isl pr \<or> fl_dry_run fl")
    case True
    then have "h' = h1 \<and> (fl_dry_run fl \<or> isl res)"
      using r p by (cases pr) (auto simp: run_adopt_def and_then_def ret_def split: prod.splits)
    then show ?thesis using f1 by auto
  next
    case go: False
    then obtain plat s where pr: "pr = Inr (plat, s)" by (cases pr) auto
    obtain ha hb where np: "new_platform drv pages (ps_platform s) ha = (Inr plat, hb)"
      and pool: "adopted_pool plat (fl_pool_size fl) hb s" and dir: "ps_state_dir s = fl_state_dir fl"
      by (rule adopt_planD [OF p [unfolded pr]])
    obtain a h2 where a: "cp_adopt plat (adopt_config s) h1 = (a, h2)" by fastforce
    have cron: "?P \<noteq> cron_fix_file" using own by (auto simp: adopt_files_def)
    have f2: "h_files h2 ?P = h_files h ?P"
      using new_platform_frames(2) [OF np cron, of "adopt_config s" h1] a f1 by simp
    obtain n h3 where n: "node_setup drv order (node_config_of s (\<not> fl_manage_iptables fl)) h2 = (n, h3)" by fastforce
    have f3: "h_files h3 ?P = h_files h ?P"
      using adopt_setup_files [OF p [unfolded pr] ord n] own f2 by (simp add: files_within_def)
    obtain e h4 where sv: "pool_save drv s h3 = (e, h4)" by fastforce
    have res: "h' = (if a \<noteq> None then h2 else if isl n then h3 else h4) \<and> (isl res \<longleftrightarrow> a \<noteq> None \<or> isl n \<or> e \<noteq> None)"
      using r p pr go a n sv
      by (auto simp: run_adopt_def and_then_def wrapping_def as_result_def ret_def split: option.splits sum.splits)
    show ?thesis
    proof (cases res)
      case (Inl err)
      then show ?thesis using res f2 f3 pool_save_keeps [of drv s h3 _ h4] sv dir go by (cases e) auto
    next
      case (Inr out)
      then have h4: "h' = h4" and sv': "pool_save drv s h3 = (None, h4)" using res sv by (auto split: if_splits)
      have "\<exists>now. pool_load drv (fl_state_dir fl) h' = Inr (s\<lparr>ps_updated_at := now\<rparr>)"
        if "dr_readable drv ?P (h_ext h')"
        using saved_state_loads [OF sv'] that by (auto simp: dir h4)
      then show ?thesis using p pr pool go Inr by blast
    qed
  qed
qed

text \<open>A GKE node with a small pool on the host on which every call works.\<close>

definition w_adopt_flags :: flags where
  "w_adopt_flags = \<lparr>fl_platform = platform_gke, fl_node_name = ''n'', fl_subnet = ''172.20.1.0/24'', fl_pool_size = 2,
     fl_gateway = [], fl_primary_nic = [], fl_dns = [], fl_state_dir = ''/s'', fl_dry_run = False, fl_force = False,
     fl_drop_internal = False, fl_drop_cidrs = [], fl_manage_iptables = False, fl_lease_file = [], fl_control_socket = [],
     fl_skip_iptables = False\<rparr>"

definition w_planned :: "(unit cloud_platform \<times> pool_state) result \<Rightarrow> bool" where
  "w_planned r = (case r of Inl _ \<Rightarrow> False | Inr (plat, s) \<Rightarrow> node_config_of s True = w_node_conf \<and>
     ps_ips s = [''172.20.1.2'', ''172.20.1.3''] \<and> ps_platform s = platform_gke)"

lemma w_plan: "w_planned (fst (adopt_plan w_node 0 w_adopt_flags w_node_host))"
  by code_simp

lemma w_node_saves: "\<exists>h'. pool_save w_node s h = (None, h')"
proof -
  have "year_ok 0 0" by code_simp
  then show ?thesis
    by (simp add: pool_save_def w_node_def bare_driver_def ext_call_def pool_data_def replace_file_def write_file_atomic_def
        os_write_file_def os_chmod_def os_rename_def disk_ok_def Let_def split: option.split)
qed

lemma w_gke_adopt: "\<exists>h'. gke_adopt w_node cfg h = (None, h')"
proof -
  obtain h1 where i: "ignoring (del_local_alias_route w_node (nc_primary_nic cfg) (nc_subnet_cidr cfg)) h = (Inr (), h1)"
    by (cases "del_local_alias_route w_node (nc_primary_nic cfg) (nc_subnet_cidr cfg) h") (simp add: ignoring_def)
  obtain h2 where "write_file w_node cron_fix_file (cron_text (nc_primary_nic cfg) (nc_subnet_cidr cfg)) cron_file_perm h1 = (True, h2)"
    using w_write by blast
  with i show ?thesis by (simp add: gke_adopt_def fix_guest_agent_route_def and_then_def check_ok_def error_of_def)
qed

theorem adopt_registers_witness:
  "\<exists>out h' s. run_adopt w_node 0 required_sysctls w_adopt_flags w_node_host = (Inr out, h') \<and>
     pool_load w_node ''/s'' h' = Inr s \<and> ps_ips s = [''172.20.1.2'', ''172.20.1.3'']"
proof -
  obtain plat s h1 where p: "adopt_plan w_node 0 w_adopt_flags w_node_host = (Inr (plat, s), h1)"
    and c: "node_config_of s True = w_node_conf" "ps_ips s = [''172.20.1.2'', ''172.20.1.3'']" "ps_platform s = platform_gke"
    using w_plan by (cases "adopt_plan w_node 0 w_adopt_flags w_node_host") (auto simp: w_planned_def split: sum.splits prod.splits)
  have plat: "plat = gke_platform w_node"
    by (rule adopt_planD [OF p]) (use new_platform_cases c(3) in fastforce)
  obtain h2 where a: "cp_adopt plat (adopt_config s) h1 = (None, h2)" using w_gke_adopt by (auto simp: plat gke_platform_def)
  obtain h3 where n: "node_setup w_node required_sysctls w_node_conf h2 = (Inr (), h3)" using w_node_setup by blast
  obtain h4 where sv: "pool_save w_node s h3 = (None, h4)" using w_node_saves by blast
  have f: "fl_dry_run w_adopt_flags = False" "fl_manage_iptables w_adopt_flags = False" "fl_state_dir w_adopt_flags = ''/s''"
    by (simp_all add: w_adopt_flags_def)
  obtain out where r: "run_adopt w_node 0 required_sysctls w_adopt_flags w_node_host = (Inr out, h4)"
    using p a n sv c(1) by (simp add: run_adopt_def and_then_def wrapping_def as_result_def ret_def f)
  have ord: "map_order required_sysctls required_sysctls" unfolding map_order_def by code_simp
  have own: "pool_path (fl_state_dir w_adopt_flags) \<notin> adopt_files w_adopt_flags" by code_simp
  have "dr_readable w_node q x" for q x by (simp add: w_node_def bare_driver_def)
  with adopt_registers [OF r ord own] p r show ?thesis by (auto simp: f c(2))
qed

end
