(* ===== verification/Cmd_Daemon.thy ===== *)
theory Cmd_Daemon
  imports Cmd Dhcp_Example
begin

text \<open>
  The daemon: the server it builds from a recorded state is well typed and stays so, which joins the
  state file to the machine of \<open>Dhcp_Machine\<close>, and the PID file admits one daemon at a time.
\<close>

section \<open>From the state file to the server\<close>

lemma parse_ips_v4: "\<forall>ip \<in> set (parse_ips xs). length ip = 4"
  by (auto simp: parse_ips_def length_to4)

lemma v4_keys: "\<forall>ip \<in> set ips. length ip = 4 \<Longrightarrow> {ip \<in> set ips. to4 ip \<noteq> []} = set ips"
  by (auto simp: to4_4)

text \<open>A configuration the handlers can work with.\<close>

definition config_typed :: "dhcp_config \<Rightarrow> bool" where
  "config_typed c \<longleftrightarrow> length (cf_gateway c) = 4 \<and> cf_lease_time c = default_lease_time \<and>
     (\<forall>d \<in> set (cf_dns c). length d = 4)"

lemma new_server_conf:
  "new_server c ips fs = Some s \<Longrightarrow>
   sv_conf s = c\<lparr>cf_lease_time := (if cf_lease_time c \<noteq> 0 then cf_lease_time c else default_lease_time)\<rparr>"
  by (auto simp: new_server_def split: bind_splits)

definition daemon_conf :: "flags \<Rightarrow> pool_state \<Rightarrow> ipnet \<Rightarrow> dhcp_config" where
  "daemon_conf fl s n =
     \<lparr>cf_interface = bridge_name, cf_gateway = to4 (parse_ip (ps_gateway s)), cf_mask = net_mask n,
      cf_dns = parse_ips (if ps_dns_servers s = [] then fallback_dns else ps_dns_servers s), cf_lease_time = 0,
      cf_lease_file = fl_lease_file fl, cf_control_socket = fl_control_socket fl\<rparr>"

lemma server_of_cases:
  "server_of fl s fs =
     (if to4 (parse_ip (ps_gateway s)) = [] then Inl (Err ''invalid gateway'')
      else case parse_cidr (ps_subnet s) of None \<Rightarrow> Inl (Err ''invalid subnet'')
        | Some (_, n) \<Rightarrow> if parse_ips (ps_ips s) = [] then Inl (Err ''no valid IPs in pool'')
                        else Inr (the (new_server (daemon_conf fl s n) (parse_ips (ps_ips s)) fs)))"
proof -
  have "new_server c ips fs = Some (the (new_server c ips fs))" for c ips
    using new_server_total [of c ips fs] by auto
  then have "(case new_server c ips fs of None \<Rightarrow> Inl (Err ''panic: nil address'') | Some srv \<Rightarrow> Inr srv) =
      Inr (the (new_server c ips fs))" for c ips by (metis option.simps(5))
  then show ?thesis
    by (cases "parse_cidr (ps_subnet s)") (auto simp: server_of_def daemon_conf_def Let_def)
qed

lemma server_of_Inl: "server_of fl s fs = Inl e \<Longrightarrow>
      e = Err ''invalid gateway'' \<and> to4 (parse_ip (ps_gateway s)) = [] \<or>
      e = Err ''invalid subnet'' \<and> parse_cidr (ps_subnet s) = None \<or>
      e = Err ''no valid IPs in pool'' \<and> parse_ips (ps_ips s) = []"
  by (simp only: server_of_cases) (auto split: if_splits option.splits)

lemma server_ofD:
  assumes "server_of fl s fs = Inr srv"
  obtains n where "parse_ips (ps_ips s) \<noteq> []" and "to4 (parse_ip (ps_gateway s)) \<noteq> []"
    and "new_server (daemon_conf fl s n) (parse_ips (ps_ips s)) fs = Some srv"
proof -
  obtain n where n: "parse_ips (ps_ips s) \<noteq> []" "to4 (parse_ip (ps_gateway s)) \<noteq> []"
    "srv = the (new_server (daemon_conf fl s n) (parse_ips (ps_ips s)) fs)"
    using assms by (simp only: server_of_cases) (auto split: if_splits option.splits)
  with new_server_total [of "daemon_conf fl s n" "parse_ips (ps_ips s)" fs] that show thesis by auto
qed

lemma daemon_conf_typed: "to4 (parse_ip (ps_gateway s)) \<noteq> [] \<Longrightarrow>
    new_server (daemon_conf fl s n) ips fs = Some srv \<Longrightarrow> config_typed (sv_conf srv)"
  using new_server_conf [of "daemon_conf fl s n" ips fs srv] parse_ips_v4 length_to4
  by (simp add: config_typed_def daemon_conf_def)

text \<open>
  A daemon runs a well-typed server. Building it from a recorded state either names what is wrong
  with the gateway, the subnet or the addresses, or gives a server that satisfies the invariant and whose
  pool is exactly the recorded IPv4 addresses, all of them free; it never panics. Once started it
  stays within that pool and that invariant in every state it reaches.
\<close>

theorem daemon_server_typed:
  "(server_of fl s fs = Inl e \<longrightarrow>
      e = Err ''invalid gateway'' \<and> to4 (parse_ip (ps_gateway s)) = [] \<or>
      e = Err ''invalid subnet'' \<and> parse_cidr (ps_subnet s) = None \<or>
      e = Err ''no valid IPs in pool'' \<and> parse_ips (ps_ips s) = []) \<and>
   (server_of fl s fs = Inr srv \<longrightarrow>
      server_inv srv \<and> config_typed (sv_conf srv) \<and> pool_used (sv_pool srv) = {} \<and>
      pool_keys (sv_pool srv) = key4 ` set (parse_ips (ps_ips s)) \<and> pool_keys (sv_pool srv) \<noteq> {} \<and>
      (takeover_ok run readable (fl_lease_file fl) fs \<longrightarrow>
        run_start run (Some link) readable True True srv = Some (Inr s0) \<longrightarrow> dhcp_reach nr s0 (t, w) \<longrightarrow>
        server_inv t \<and> pool_keys (sv_pool t) = key4 ` set (parse_ips (ps_ips s))))"
proof (rule conjI)
  let ?ips = "parse_ips (ps_ips s)"
  show "server_of fl s fs = Inl e \<longrightarrow> e = Err ''invalid gateway'' \<and> to4 (parse_ip (ps_gateway s)) = [] \<or>
      e = Err ''invalid subnet'' \<and> parse_cidr (ps_subnet s) = None \<or>
      e = Err ''no valid IPs in pool'' \<and> ?ips = []"
    by (rule impI) (rule server_of_Inl)
  show "server_of fl s fs = Inr srv \<longrightarrow>
      server_inv srv \<and> config_typed (sv_conf srv) \<and> pool_used (sv_pool srv) = {} \<and>
      pool_keys (sv_pool srv) = key4 ` set ?ips \<and> pool_keys (sv_pool srv) \<noteq> {} \<and>
      (takeover_ok run readable (fl_lease_file fl) fs \<longrightarrow>
        run_start run (Some link) readable True True srv = Some (Inr s0) \<longrightarrow> dhcp_reach nr s0 (t, w) \<longrightarrow>
        server_inv t \<and> pool_keys (sv_pool t) = key4 ` set ?ips)"
  proof
    assume srv: "server_of fl s fs = Inr srv"
    obtain n where n: "?ips \<noteq> []" "to4 (parse_ip (ps_gateway s)) \<noteq> []" "new_server (daemon_conf fl s n) ?ips fs = Some srv"
      by (rule server_ofD [OF srv])
    note ns = new_server_inv [OF n(3)] and v4 = v4_keys [OF parse_ips_v4]
    have "server_inv t \<and> pool_keys (sv_pool t) = key4 ` set ?ips"
      if "takeover_ok run readable (fl_lease_file fl) fs"
        "run_start run (Some link) readable True True srv = Some (Inr s0)" "dhcp_reach nr s0 (t, w)"
    proof -
      have f: "cf_lease_file (daemon_conf fl s n) = fl_lease_file fl" by (simp add: daemon_conf_def)
      have "boots (daemon_conf fl s n) ?ips fs run link readable s0" using n(3) that(2) by (auto simp: boots_def)
      note b = boots_ok [OF this that(1) [folded f]]
      show ?thesis using machine_inv_reach [OF that(3) b(1)] b(2) v4 by (simp add: machine_inv_def same_pool_def)
    qed
    then show "server_inv srv \<and> config_typed (sv_conf srv) \<and> pool_used (sv_pool srv) = {} \<and>
      pool_keys (sv_pool srv) = key4 ` set ?ips \<and> pool_keys (sv_pool srv) \<noteq> {} \<and>
      (takeover_ok run readable (fl_lease_file fl) fs \<longrightarrow>
        run_start run (Some link) readable True True srv = Some (Inr s0) \<longrightarrow> dhcp_reach nr s0 (t, w) \<longrightarrow>
        server_inv t \<and> pool_keys (sv_pool t) = key4 ` set ?ips)"
      using ns(1,3,4) n(1) v4 daemon_conf_typed [OF n(2,3)] by simp
  qed
qed

definition w_daemon_state :: pool_state where
  "w_daemon_state = zero_state\<lparr>ps_gateway := ''10.0.0.1'', ps_subnet := ''10.0.0.0/30'', ps_ips := [''10.0.0.2'', ''x'']\<rparr>"

definition w_daemon_flags :: flags where
  "w_daemon_flags = \<lparr>fl_platform = [], fl_node_name = [], fl_subnet = [], fl_pool_size = 0, fl_gateway = [],
     fl_primary_nic = [], fl_dns = [], fl_state_dir = [], fl_dry_run = False, fl_force = False, fl_drop_internal = False,
     fl_drop_cidrs = [], fl_manage_iptables = False, fl_lease_file = ''/l'', fl_control_socket = [], fl_skip_iptables = False\<rparr>"

theorem daemon_server_typed_witness:
  "\<exists>srv. server_of w_daemon_flags w_daemon_state Map.empty = Inr srv \<and>
     pool_keys (sv_pool srv) = key4 ` set (parse_ips (ps_ips w_daemon_state)) \<and> pool_keys (sv_pool srv) \<noteq> {}"
proof -
  have w: "to4 (parse_ip (ps_gateway w_daemon_state)) \<noteq> []" "parse_cidr (ps_subnet w_daemon_state) \<noteq> None"
    "parse_ips (ps_ips w_daemon_state) \<noteq> []" by code_simp+
  obtain r where r: "server_of w_daemon_flags w_daemon_state Map.empty = r" by blast
  with daemon_server_typed [of w_daemon_flags w_daemon_state Map.empty] w
  show ?thesis by (cases r) auto
qed

section \<open>The PID file\<close>

lemma link_pid_file_done:
  "tmp \<noteq> pid_file \<Longrightarrow> link_pid_file drv tmp n h = (Inr (), h1) \<Longrightarrow>
   h_files h1 pid_file = h_files h tmp \<and> h_files h tmp \<noteq> None"
proof (induction n arbitrary: h)
  case (Suc n)
  note ih = Suc.IH [OF Suc.prems(1)] and rm = remove_file_frame [OF Suc.prems(1), of drv]
  show ?case
  proof (cases "link_file drv tmp pid_file h")
    case (Pair r h2)
    then show ?thesis using Suc.prems ih [of "snd (remove_file drv pid_file h)"] rm [of h]
      by (cases r) (auto simp: link_file_def split: prod.splits option.splits if_splits)
  qed
qed simp

lemma link_pid_file_live:
  "h_files h pid_file \<noteq> None \<Longrightarrow> check_existing_pid drv pid_file h = Some e \<Longrightarrow>
   link_pid_file drv tmp (Suc n) h = (Inl e, h)"
  by (auto simp: link_file_def)

lemma pid_tmp_other: "pid_tmp pid \<noteq> pid_file" "pid_file \<noteq> pid_tmp pid"
  by (simp_all add: pid_tmp_def)

lemma digit_graphic: "is_digit c \<Longrightarrow> graphic c"
  by (auto simp: is_digit_def graphic_def)

lemma itoa_atoi: "0 \<le> n \<Longrightarrow> n < 2 ^ 63 \<Longrightarrow> atoi (trim_space (itoa n)) = Some n"
proof -
  assume n: "0 \<le> n" "n < 2 ^ 63"
  have "graphic (hd (dec (nat n)))" "graphic (last (dec (nat n)))"
    using dec_nonempty [of "nat n"] by (auto intro!: digit_graphic dec_digits [of _ "nat n"])
  then have "trim_space (dec (nat n)) = dec (nat n)" by (simp add: trim_space_plain dec_nonempty)
  then show ?thesis using n atoi_dec [of "nat n"] by (simp add: itoa_def)
qed

lemma live_pid_found:
  assumes "h_files h pid_file = Some f" and "f_data f = itoa n" and "0 \<le> n" and "n < 2 ^ 63"
    and "dr_readable drv pid_file (h_ext h)" and "dr_alive drv n (h_ext h)"
  shows "check_existing_pid drv pid_file h = Some (Err ''another cocoon-net daemon is running'')"
  using assms itoa_atoi [OF assms(3,4)] by (simp add: check_existing_pid_def clean_pid_file read_file_def)

lemma acquired_holds_pid:
  assumes "acquire_pid_file drv h = (Inr (), h1)"
  shows "map_option f_data (h_files h1 pid_file) =
    Some (itoa (dr_pid drv (snd (dr_mkdir drv (path_dir pid_file) (h_ext h)))))"
proof -
  obtain c where c: "dr_mkdir drv (path_dir pid_file) (h_ext h) = (True, c)"
    using assms by (auto simp: acquire_pid_file_def and_then_Inr check_ok_Inr ext_call_def split: prod.splits)
  let ?pid = "dr_pid drv c"
  obtain ok h2 where wr: "write_file drv (pid_tmp ?pid) (itoa ?pid) pid_file_perm (h\<lparr>h_ext := c\<rparr>) = (ok, h2)" by fastforce
  obtain r h3 where lk: "link_pid_file drv (pid_tmp ?pid) 2 h2 = (r, h3)" by fastforce
  have "ok" and w: "write_file drv (pid_tmp ?pid) (itoa ?pid) pid_file_perm (h\<lparr>h_ext := c\<rparr>) = (True, h2)"
    and l: "link_pid_file drv (pid_tmp ?pid) 2 h2 = (Inr (), h3)" and h1: "h1 = snd (remove_file drv (pid_tmp ?pid) h3)"
    using assms c wr lk by (auto simp: acquire_pid_file_def and_then_Inr check_ok_Inr ext_call_def Let_def)
  from link_pid_file_done [OF pid_tmp_other(1) l] write_file_ok [OF w] show ?thesis
    using remove_file_frame [OF pid_tmp_other(2), of drv _ h3] by (simp add: h1 c)
qed

lemma acquire_live_fails:
  assumes "h_files h pid_file \<noteq> None" and "\<And>h'. h_files h' pid_file = h_files h pid_file \<Longrightarrow> check_existing_pid drv pid_file h' = Some e"
    and "acquire_pid_file drv h = (r, h1)"
  shows "isl r \<and> h_files h1 pid_file = h_files h pid_file"
proof -
  obtain ok c where c: "dr_mkdir drv (path_dir pid_file) (h_ext h) = (ok, c)" by fastforce
  let ?h = "h\<lparr>h_ext := c\<rparr>" and ?tmp = "pid_tmp (dr_pid drv c)"
  obtain wr h2 where w: "write_file drv ?tmp (itoa (dr_pid drv c)) pid_file_perm ?h = (wr, h2)" by fastforce
  have h2: "h_files h2 pid_file = h_files h pid_file"
    using write_file_frame [OF pid_tmp_other(2), of drv _ "itoa (dr_pid drv c)" pid_file_perm ?h] w by (metis snd_conv host.select_convs(1) host.surjective host.update_convs(3))
  have "link_pid_file drv ?tmp 2 h2 = (Inl e, h2)"
    using link_pid_file_live [of h2 drv e ?tmp 1] assms(1,2) h2 by (simp add: numeral_2_eq_2)
  then show ?thesis
    using assms(3) c w h2 remove_file_frame [OF pid_tmp_other(2), of drv _ h2]
    by (auto simp: acquire_pid_file_def and_then_def check_ok_def ext_call_def Let_def split: if_splits)
qed

text \<open>
  C40. The PID file keeps others out. Once a daemon holds it, and as long as that process lives and the file
  stays, every later daemon fails to start and leaves the file in place, and no teardown without
  \<open>--force\<close> touches anything.
\<close>

theorem pid_file_exclusive:
  assumes acq: "acquire_pid_file drv h = (Inr (), h1)"
    and pid: "pid = dr_pid drv (snd (dr_mkdir drv (path_dir pid_file) (h_ext h)))" "0 \<le> pid" "pid < 2 ^ 63"
    and alive: "\<And>c. dr_alive drv2 pid c" "\<And>c. dr_readable drv2 pid_file c"
    and same: "h_files h2 pid_file = h_files h1 pid_file"
    and second: "run_daemon drv2 order run fl h2 = (r, h3)"
  shows "isl r \<and> h_files h3 pid_file = h_files h1 pid_file \<and> (\<not> fl_force fl' \<longrightarrow> snd (run_teardown drv2 pages fl' h2) = h2)"
proof -
  obtain f where f: "h_files h1 pid_file = Some f" "f_data f = itoa pid"
    using acquired_holds_pid [OF acq] by (auto simp: pid(1))
  have live: "check_existing_pid drv2 pid_file h' = Some (Err ''another cocoon-net daemon is running'')"
    if "h_files h' pid_file = h_files h2 pid_file" for h'
    using live_pid_found [of h' f pid drv2] f same that pid(2,3) alive by simp
  obtain a h4 where a: "acquire_pid_file drv2 h2 = (a, h4)" by fastforce
  have ah: "isl a" "h_files h4 pid_file = h_files h1 pid_file"
    using acquire_live_fails [OF _ live a] f same by auto
  then have "r = Inl (projl a)" "h3 = h4" using second a by (auto simp: run_daemon_def and_then_def split: sum.splits)
  moreover have "snd (run_teardown drv2 pages fl' h2) = h2" if "\<not> fl_force fl'"
    using that live [of h2]
    by (auto simp: run_teardown_def load_pool_state_def and_then_def wrapping_def ret_def split: sum.split)
  ultimately show ?thesis using ah by simp
qed

definition w_pid_driver :: "unit driver" where
  "w_pid_driver = bare_driver\<lparr>dr_alive := (\<lambda>p c. p = 1)\<rparr>"

theorem pid_file_exclusive_witness:
  "\<exists>h1 r h3. acquire_pid_file w_pid_driver \<lparr>h_files = Map.empty, h_env = Map.empty, h_ext = ()\<rparr> = (Inr (), h1) \<and>
     run_daemon w_pid_driver [] (\<lambda>srv h. (None, h)) w_daemon_flags h1 = (r, h3) \<and> isl r"
proof -
  let ?h = "\<lparr>h_files = Map.empty, h_env = Map.empty, h_ext = ()\<rparr>"
  have "fst (acquire_pid_file w_pid_driver ?h) = Inr ()" by code_simp
  then obtain h1 where a: "acquire_pid_file w_pid_driver ?h = (Inr (), h1)" by (metis prod.collapse)
  obtain r h3 where r: "run_daemon w_pid_driver [] (\<lambda>srv h. (None, h)) w_daemon_flags h1 = (r, h3)" by fastforce
  have p: "1 = dr_pid w_pid_driver (snd (dr_mkdir w_pid_driver (path_dir pid_file) (h_ext ?h)))"
    "dr_alive w_pid_driver 1 c" "dr_readable w_pid_driver pid_file c" for c
    by (simp_all add: w_pid_driver_def bare_driver_def)
  from pid_file_exclusive [OF a p(1) _ _ p(2,3) HOL.refl r] a r show ?thesis by auto
qed

end
