(* ===== verification/Dhcp_Run.thy ===== *)
theory Dhcp_Run
  imports Dhcp_Control Dhcp_Machine
begin

text \<open>
  \<open>Run\<close> from its first to its last statement: the interface, the leases, the control socket and the UDP
  socket are set up, then the event loop takes one input after the other until something ends it. The
  inputs are the sequence in which datagrams arrive and goroutines win the lifecycle mutex; each sequence
  is a path of the step relation of \<open>Dhcp_Machine\<close>, so what holds of reachable states holds here.
\<close>

section \<open>The event loop\<close>

text \<open>
  A datagram is read, a waiting handler gets the mutex, the cleanup ticker fires, a request reaches the
  control socket. The decoder of datagrams, \<open>dhcpv4.FromBytes\<close>, is third-party code and an argument.
\<close>

datatype server_input =
    Datagram "byte list" peer time
  | Scheduled run nat
  | Ticked run
  | Requested run string string

definition datagram_size :: nat where "datagram_size = 4096"

definition receive_datagram ::
    "(byte list \<Rightarrow> dhcp_msg option) \<Rightarrow> byte list \<Rightarrow> peer \<Rightarrow> time \<Rightarrow> waiting \<Rightarrow> waiting" where
  "receive_datagram decode b peer arrived w =
     (case decode (take datagram_size b) of None \<Rightarrow> w | Some msg \<Rightarrow> w @ [(msg, peer, arrived)])"

fun serve_input ::
    "reply_builder \<Rightarrow> (byte list \<Rightarrow> dhcp_msg option) \<Rightarrow> server_input \<Rightarrow> machine \<Rightarrow> machine option" where
  "serve_input nr decode (Datagram b peer arrived) (s, w) = Some (s, receive_datagram decode b peer arrived w)"
| "serve_input nr decode (Scheduled e n) (s, w) =
     (if n < length w
      then (case w ! n of (msg, peer, arrived) \<Rightarrow>
              map_option (\<lambda>s'. (s', take n w @ drop (Suc n) w)) (handler nr e (reply_peer peer) msg arrived s))
      else Some (s, w))"
| "serve_input nr decode (Ticked e) (s, w) = map_option (\<lambda>s'. (s', w)) (cleanup_tick e s)"
| "serve_input nr decode (Requested e meth p) (s, w) = map_option (\<lambda>(r, s'). (s', w)) (control_request e meth p s)"

fun serve_inputs ::
    "reply_builder \<Rightarrow> (byte list \<Rightarrow> dhcp_msg option) \<Rightarrow> server_input list \<Rightarrow> machine \<Rightarrow> machine option" where
  "serve_inputs nr decode [] c = Some c"
| "serve_inputs nr decode (i # is) c = do { c' \<leftarrow> serve_input nr decode i c; serve_inputs nr decode is c' }"

text \<open>
  What the library and the language promise of the inputs: decoded messages carry IPv4 addresses, and
  a range visits no key twice.
\<close>

definition decodes_v4 :: "(byte list \<Rightarrow> dhcp_msg option) \<Rightarrow> bool" where
  "decodes_v4 decode \<longleftrightarrow> (\<forall>b msg. decode b = Some msg \<longrightarrow> msg_v4 msg)"

fun input_ok :: "server_input \<Rightarrow> bool" where
  "input_ok (Ticked e) \<longleftrightarrow> distinct (rn_offer_order e) \<and> distinct (rn_lease_order e)"
| "input_ok _ \<longleftrightarrow> True"

lemma serve_input_step:
  assumes "serve_input nr decode i c = Some c'" and "decodes_v4 decode" and "input_ok i"
  shows "c' = c \<or> dhcp_step nr c c'"
proof -
  obtain s w where c: "c = (s, w)" by (cases c)
  show ?thesis
  proof (cases i)
    case (Datagram b peer arrived)
    then show ?thesis using assms(1,2) c
      by (auto simp: receive_datagram_def decodes_v4_def intro: dhcp_step.receive split: option.splits)
  next
    case (Scheduled e n)
    show ?thesis
    proof (cases "n < length w")
      case True
      obtain msg peer arrived where m: "w ! n = (msg, peer, arrived)" by (cases "w ! n")
      have w: "w = take n w @ (msg, peer, arrived) # drop (Suc n) w"
        using True m id_take_nth_drop by metis
      obtain s' where s': "handler nr e (reply_peer peer) msg arrived s = Some s'" "c' = (s', take n w @ drop (Suc n) w)"
        using assms(1) c Scheduled True m by auto
      show ?thesis using dhcp_step.handle [OF s'(1)] s'(2) w c by metis
    qed (use assms(1) c Scheduled in auto)
  next
    case (Ticked e)
    then show ?thesis using assms(1,3) c by (auto intro: dhcp_step.tick)
  next
    case (Requested e meth p)
    then obtain r s' where r: "control_request e meth p s = Some (r, s')" "c' = (s', w)" using assms(1) c by auto
    show ?thesis by (rule control_request_cases [OF r(1)]) (use r(2) c in \<open>auto intro: dhcp_step.control\<close>)
  qed
qed

lemma serve_input_total:
  assumes inv: "machine_inv s0 c" and ok: "input_ok i"
  shows "\<exists>c'. serve_input nr decode i c = Some c'"
proof -
  obtain s w where c: "c = (s, w)" by (cases c)
  have s: "server_inv s" "\<And>msg peer arrived. (msg, peer, arrived) \<in> set w \<Longrightarrow> msg_v4 msg"
    using inv c by (auto simp: machine_inv_def)
  have h: "\<exists>s'. handler nr e p msg arrived s = Some s'" if "msg_v4 msg" for e p msg arrived
    by (rule handler_ok [OF s(1) that, of nr e p arrived]) blast
  have t: "\<exists>s'. cleanup_tick e s = Some s'" if "distinct (rn_offer_order e)" "distinct (rn_lease_order e)" for e
    using cleanup_tick_ok [OF s(1) that] by metis
  have q: "\<exists>r s'. handle_lease_control e m s = Some (r, s')" for e m
    using handle_lease_control_ok [OF s(1), of e m] by metis
  show ?thesis
  proof (cases i)
    case (Scheduled e n)
    show ?thesis
    proof (cases "n < length w")
      case True
      obtain msg peer arrived where m: "w ! n = (msg, peer, arrived)" by (cases "w ! n")
      then have "msg_v4 msg" using s(2) True nth_mem by metis
      with h show ?thesis using c Scheduled True m by fastforce
    qed (use c Scheduled in auto)
  next
    case (Requested e meth p)
    then show ?thesis using q c by (fastforce simp: control_request_def split: option.splits)
  qed (use c t ok in auto)
qed

text \<open>Every sequence of inputs is a path of the step relation, and none makes the server panic.\<close>

lemma serve_inputs_reach:
  assumes "decodes_v4 decode" and "server_inv s0" and "dhcp_reach nr s0 c" and "\<forall>i \<in> set is. input_ok i"
  shows "\<exists>c'. serve_inputs nr decode is c = Some c' \<and> dhcp_reach nr s0 c'"
  using assms(3,4)
proof (induction "is" arbitrary: c)
  case (Cons i "is")
  obtain c1 where c1: "serve_input nr decode i c = Some c1"
    using serve_input_total [OF machine_inv_reach [OF Cons.prems(1) assms(2)]] Cons.prems(2) by force
  have "c1 = c \<or> dhcp_step nr c c1" using serve_input_step [OF c1 assms(1)] Cons.prems(2) by simp
  then have "dhcp_reach nr s0 c1" using Cons.prems(1) dhcp_reach.step by blast
  from Cons.IH [OF this] Cons.prems(2) c1 show ?case by simp
qed simp

section \<open>\<open>Run\<close>\<close>

text \<open>\<open>resolveLinkIndex\<close> of \<open>route_linux.go\<close>.\<close>

definition resolve_link_index :: "'c driver \<Rightarrow> string \<Rightarrow> ('c, int result) io" where
  "resolve_link_index drv iface h =
     (case ext_call (dr_link drv iface) h of
        (None, h1) \<Rightarrow> (Inl (Err ''resolve link''), h1) | (Some l, h1) \<Rightarrow> (Inr (lk_index l), h1))"

text \<open>
  What ends \<open>Run\<close>: the event the \<open>select\<close> saw, whether the context was done by then, what the control
  server reports last, and whether its deferred removal of the socket ran before the process exited.
\<close>

record run_end =
  re_event :: stop_event
  re_ctx_done :: bool
  re_final :: "error option"
  re_cleaned :: bool

datatype run_outcome = Panicked | Returned "error option"

text \<open>\<open>serve\<close> of the control server, once its HTTP server has returned.\<close>

definition control_serve_end :: "'c socket_driver \<Rightarrow> path option \<Rightarrow> bool \<Rightarrow> 'c host \<Rightarrow> 'c host" where
  "control_serve_end drv ctl cleaned h =
     (case ctl of Some p \<Rightarrow> if cleaned then snd (ext_call (sk_remove drv p) h) else h | None \<Rightarrow> h)"

text \<open>
  The server works on the host's files; the result is the outcome, the server left and the host. The
  leases are loaded and restored before the sockets are opened.
\<close>

definition server_session ::
    "'c socket_driver \<Rightarrow> reply_builder \<Rightarrow> (byte list \<Rightarrow> dhcp_msg option) \<Rightarrow> run \<Rightarrow> server_input list \<Rightarrow> run_end \<Rightarrow>
     dhcp_server \<Rightarrow> ('c, run_outcome \<times> dhcp_server) io" where
  "server_session drv nr decode e inputs en srv h =
     (let c = sv_conf srv in
      case resolve_link_index (driver.truncate drv) (cf_interface c) h of
        (Inl er, h1) \<Rightarrow> ((Returned (Some (Wrap ''resolve interface'' er)), srv), h1)
      | (Inr idx, h1) \<Rightarrow>
          (case run_start e (Some idx) (dr_readable drv (cf_lease_file c) (h_ext h1)) True True
                  (srv\<lparr>sv_files := h_files h1\<rparr>) of
             Some (Inr s0) \<Rightarrow>
               (case new_control_server drv (cf_control_socket c) h1 of
                  (Inl er, h2) \<Rightarrow> ((Returned (Some (Wrap ''start control server'' er)), s0), h2)
                | (Inr ctl, h2) \<Rightarrow>
                    (case ext_call (sk_udp drv (cf_interface c)) h2 of
                       (False, h3) \<Rightarrow> ((Returned (Some (Err ''create DHCP server'')), s0), h3)
                     | (True, h3) \<Rightarrow>
                         (case serve_inputs nr decode inputs (s0, []) of
                            None \<Rightarrow> ((Panicked, s0), h3)
                          | Some (s, _) \<Rightarrow>
                              ((Returned (run_stop (ctl \<noteq> None) (re_ctx_done en) (re_final en) (re_event en)), s),
                               control_serve_end drv ctl (re_cleaned en) (h3\<lparr>h_files := sv_files s\<rparr>)))))
           | _ \<Rightarrow> ((Panicked, srv), h1)))"

text \<open>\<open>srv.Run\<close> as the daemon calls it.\<close>

definition server_run ::
    "'c socket_driver \<Rightarrow> reply_builder \<Rightarrow> (byte list \<Rightarrow> dhcp_msg option) \<Rightarrow> run \<Rightarrow> server_input list \<Rightarrow> run_end \<Rightarrow>
     dhcp_server \<Rightarrow> ('c, error option) io" where
  "server_run drv nr decode e inputs en srv h =
     (case server_session drv nr decode e inputs en srv h of
        ((Panicked, s), h') \<Rightarrow> (Some (Err ''panic''), h')
      | ((Returned er, s), h') \<Rightarrow> (er, h'))"

lemma server_run_runs:
  assumes "resolve_link_index (driver.truncate drv) (cf_interface (sv_conf srv)) h = (Inr idx, h1)"
    and "run_start e (Some idx) (dr_readable drv (cf_lease_file (sv_conf srv)) (h_ext h1)) True True
      (srv\<lparr>sv_files := h_files h1\<rparr>) = Some (Inr s0)"
    and "new_control_server drv (cf_control_socket (sv_conf srv)) h1 = (Inr ctl, h2)"
    and "ext_call (sk_udp drv (cf_interface (sv_conf srv))) h2 = (True, h3)"
    and "serve_inputs nr decode inputs (s0, []) = Some (s, w)"
  shows "server_run drv nr decode e inputs en srv h =
    (run_stop (ctl \<noteq> None) (re_ctx_done en) (re_final en) (re_event en),
     control_serve_end drv ctl (re_cleaned en) (h3\<lparr>h_files := sv_files s\<rparr>))"
  by (simp add: server_run_def server_session_def Let_def assms)

lemma resolve_link_files: "resolve_link_index drv iface h = (r, h1) \<Longrightarrow> h_files h1 = h_files h"
  by (auto simp: resolve_link_index_def ext_call_def split: prod.splits option.splits)

lemma control_serve_end_files [simp]: "h_files (control_serve_end drv ctl b h) = h_files h"
  by (simp add: control_serve_end_def split: option.splits)

text \<open>
  A session never panics. It ends with a set-up error and no file changed, or it ran: it started with
  the leases of the file and stopped in a reachable state, whose files the host is left with.
\<close>

lemma server_session_ok:
  assumes new: "new_server c ips files = Some srv" and files: "h_files h = files"
    and tk: "\<And>readable. takeover_ok e readable (cf_lease_file c) files"
    and dec: "decodes_v4 decode" and ok: "\<forall>i \<in> set inputs. input_ok i"
    and run: "server_session drv nr decode e inputs en srv h = ((out, s), h')"
  obtains (failed) er where "out = Returned (Some er)" and "h_files h' = files"
  | (ran) link readable s0 w ctl where "boots c ips files e link readable s0" and "dhcp_reach nr s0 (s, w)"
      and "out = Returned (run_stop ctl (re_ctx_done en) (re_final en) (re_event en))"
      and "h_files h' = sv_files s"
proof -
  have cf: "cf_lease_file (sv_conf srv) = cf_lease_file c" "sv_files srv = files"
    using new by (auto simp: new_server_def split: bind_splits)
  obtain r h1 where r: "resolve_link_index (driver.truncate drv) (cf_interface (sv_conf srv)) h = (r, h1)" by fastforce
  note h1 = resolve_link_files [OF r]
  show thesis
  proof (cases r)
    case (Inl er)
    then show thesis using failed run r h1 files by (auto simp: server_session_def Let_def)
  next
    case (Inr idx)
    let ?rd = "dr_readable drv (cf_lease_file c) (h_ext h1)"
    obtain s0 where s0: "run_start e (Some idx) ?rd True True srv = Some (Inr s0)" "server_inv s0" "sv_files s0 = files"
      by (rule run_start_ok [OF new tk, of idx]) blast
    have boots: "boots c ips files e idx ?rd s0" using new s0(1) by (auto simp: boots_def)
    have upd: "srv\<lparr>sv_files := h_files h1\<rparr> = srv" using h1 files cf(2) by simp
    obtain ctl h2 where ctl: "new_control_server drv (cf_control_socket (sv_conf srv)) h1 = (ctl, h2)" by fastforce
    have h2: "h_files h2 = files" using control_files [of drv "cf_control_socket (sv_conf srv)" h1] ctl h1 files by simp
    obtain u h3 where u: "ext_call (sk_udp drv (cf_interface (sv_conf srv))) h2 = (u, h3)" by fastforce
    have h3: "h_files h3 = files" using ext_call_frame(1) [of "sk_udp drv (cf_interface (sv_conf srv))" h2] u h2 by simp
    obtain s1 w where s1: "serve_inputs nr decode inputs (s0, []) = Some (s1, w)" "dhcp_reach nr s0 (s1, w)"
      using serve_inputs_reach [OF dec s0(2) dhcp_reach.start [of nr] ok] by auto
    have eq: "server_session drv nr decode e inputs en srv h =
        (case ctl of Inl er \<Rightarrow> ((Returned (Some (Wrap ''start control server'' er)), s0), h2)
         | Inr q \<Rightarrow> if \<not> u then ((Returned (Some (Err ''create DHCP server'')), s0), h3)
             else ((Returned (run_stop (q \<noteq> None) (re_ctx_done en) (re_final en) (re_event en)), s1),
                   control_serve_end drv q (re_cleaned en) (h3\<lparr>h_files := sv_files s1\<rparr>)))"
      using r Inr s0(1) upd ctl u s1(1) cf(1) by (simp add: server_session_def Let_def split: sum.splits bool.splits)
    show thesis
    proof (cases ctl)
      case (Inl er)
      then show thesis using failed run eq h2 by auto
    next
      case (Inr q)
      show thesis
      proof (cases u)
        case True
        then show thesis using ran [OF boots, of w "q \<noteq> None"] run eq Inr s1(2) by auto
      qed (use failed run eq Inr h3 in auto)
    qed
  qed
qed

end
