(* ===== verification/Cmd_Serve.thy ===== *)
theory Cmd_Serve
  imports Cmd_Daemon Cmd_Adopt Dhcp_Run
begin

text \<open>
  The whole daemon: \<open>run_daemon\<close> with the server's own \<open>Run\<close> in place of its argument. It joins the state
  file, the node's set-up, the PID file and the server into one run, and carries what holds of the
  server's reachable states over to the files the daemon leaves.
\<close>

section \<open>Files the set-up leaves alone\<close>

definition apart :: "path \<Rightarrow> bool" where
  "apart p \<longleftrightarrow> p \<noteq> pid_file \<and> (\<forall>n. p \<noteq> pid_tmp n) \<and> p \<noteq> cron_fix_file \<and> (\<forall>nics. p \<notin> setup_paths nics)"

text \<open>A path outside the system's directories is apart: no interface name leads out of \<open>/proc/sys\<close>.\<close>

lemma clean_elems_plain: "''..'' \<notin> set es \<Longrightarrow> clean_elems r out es = rev out @ filter (\<lambda>e. e \<noteq> [] \<and> e \<noteq> ''.'') es"
  by (induction es arbitrary: out) auto

lemma split_char_parts: "e \<in> set (split_char c s) \<Longrightarrow> set e \<subseteq> set s"
  by (induction s arbitrary: e) (auto split: if_splits list.splits, fastforce+)

lemma sysctl_under_proc: "take 5 (sysctl_path k) = ''/proc''"
proof -
  let ?s = "replace_char (CHR ''.'') (CHR ''/'') k"
  have "CHR ''.'' \<notin> set ?s" by (auto simp: replace_char_def)
  then have no: "''..'' \<notin> set (split_char (CHR ''/'') ?s)" using split_char_parts by fastforce
  define xs where "xs = filter (\<lambda>e. e \<noteq> [] \<and> e \<noteq> ''.'') (split_char (CHR ''/'') ?s)"
  have "clean_path (''/proc/sys/'' @ ?s) = ''/'' @ join ''/'' (''proc'' # ''sys'' # xs)"
    by (simp add: clean_path_def Let_def has_prefix_def clean_elems_plain [OF no] xs_def)
  moreover have "sysctl_path k = (if ?s = [] then ''/proc/sys'' else clean_path (''/proc/sys/'' @ ?s))"
  proof (cases "?s = []")
    case True
    have "join_path [proc_sys_base, []] = ''/proc/sys''" by code_simp
    with True show ?thesis by (simp add: sysctl_path_def)
  qed (simp add: sysctl_path_def join_path_def proc_sys_base_def)
  ultimately show ?thesis by simp
qed

lemma apart_prefix:
  assumes "take 5 p \<notin> {''/run/'', ''/etc/'', ''/proc''}"
  shows "apart p"
proof -
  have f: "take 5 cni_conf_path = ''/etc/''" "take 5 cron_fix_file = ''/etc/''" "take 5 pid_file = ''/run/''"
    by code_simp+
  then have "take 5 (pid_tmp n) = ''/run/''" for n by (simp add: pid_tmp_def pid_file_def)
  with assms f sysctl_under_proc show ?thesis
    by (auto simp: apart_def setup_paths_def required_paths_def)
qed

section \<open>The daemon's frame\<close>

lemma acquire_frame:
  assumes "acquire_pid_file drv h = (r, h1)" and "apart p"
  shows "h_files h1 p = h_files h p"
proof -
  have lk: "h_files (snd (link_pid_file drv tmp n h)) p = h_files h p" for tmp n h
  proof (induction n arbitrary: h)
    case (Suc n)
    have "h_files (snd (remove_file drv pid_file h')) p = h_files h' p" for h'
      using assms(2) by (intro remove_file_frame) (simp add: apart_def)
    moreover have "h_files (snd (link_file drv tmp pid_file h)) p = h_files h p"
      using assms(2) by (auto simp: link_file_def apart_def split: option.splits prod.splits)
    ultimately show ?case using Suc.IH
      by (auto split: prod.splits link_result.splits option.splits)
  qed simp
  have tmp: "p \<noteq> pid_tmp n" for n using assms(2) by (simp add: apart_def)
  obtain ok c where c: "dr_mkdir drv (path_dir pid_file) (h_ext h) = (ok, c)" by fastforce
  let ?h = "h\<lparr>h_ext := c\<rparr>" and ?tmp = "pid_tmp (dr_pid drv c)"
  obtain wr h2 where w: "write_file drv ?tmp (itoa (dr_pid drv c)) pid_file_perm ?h = (wr, h2)" by fastforce
  have h2: "h_files h2 p = h_files h p"
    using write_file_frame [OF tmp, of drv "dr_pid drv c" "itoa (dr_pid drv c)" pid_file_perm ?h] w by simp
  obtain l h3 where l: "link_pid_file drv ?tmp 2 h2 = (l, h3)" by fastforce
  have h3: "h_files h3 p = h_files h p" using lk [of ?tmp 2 h2] l h2 by simp
  have "h1 = h2 \<or> h1 = snd (remove_file drv ?tmp h3) \<or> h1 = ?h"
    using assms(1) c w l by (auto simp: acquire_pid_file_def and_then_def check_ok_def ext_call_def Let_def split: if_splits)
  then show ?thesis using h2 h3 remove_file_frame [OF tmp, of drv _ h3] by auto
qed

text \<open>The server the daemon runs, and what the host looks like when it starts.\<close>

definition daemon_state :: "pool_state \<Rightarrow> pool_state" where
  "daemon_state s = s\<lparr>ps_primary_nic := str_or (ps_primary_nic s) (default_nic (ps_platform s))\<rparr>"

lemma node_setup_apart:
  assumes "node_setup drv order cfg h = (r, h1)" and "map_order order required_sysctls" and "apart p"
  shows "h_files h1 p = h_files h p"
  using node_setup_within [OF assms(1,2)] assms(3) by (simp add: files_within_def apart_def)

lemma gke_adopt_apart: "gke_adopt drv cfg h = (r, h1) \<Longrightarrow> apart p \<Longrightarrow> h_files h1 p = h_files h p"
  using gke.adopt_files [of p drv cfg h] by (simp add: gke_platform_def apart_def)

lemma daemon_body_cases:
  assumes run: "daemon_body drv order run fl h = (r, h')" and ord: "map_order order required_sysctls"
  obtains (early) er where "r = Inl er" and "\<And>p. apart p \<Longrightarrow> h_files h' p = h_files h p"
  | (served) s srv h1 out where "pool_load drv (fl_state_dir fl) h = Inr s"
      and "server_of fl (daemon_state s) (h_files h1) = Inr srv"
      and "\<And>p. apart p \<Longrightarrow> h_files h1 p = h_files h p" and "run srv h1 = (out, h')"
      and "r = (case out of None \<Rightarrow> Inr () | Some er \<Rightarrow> Inl er)"
proof (cases "pool_load drv (fl_state_dir fl) h")
  case (Inl er)
  then show thesis using run by (intro early) (auto simp: daemon_body_def load_pool_state_def and_then_def wrapping_def)
next
  case (Inr s)
  let ?s = "daemon_state s"
  define adopt where "adopt = (if ps_platform ?s = platform_gke
      then wrapping ''re-apply the guest-agent route fix'' (as_result (gke_adopt drv (adopt_config ?s))) else ret ())"
  define setup_node where "setup_node = wrapping ''node setup'' (node_setup drv order (node_config_of ?s (fl_skip_iptables fl)))"
  obtain a ha where a: "adopt h = (a, ha)" by fastforce
  have fa: "h_files ha p = h_files h p" if "apart p" for p
  proof (cases "gke_adopt drv (adopt_config ?s) h")
    case (Pair x hx)
    then show ?thesis using a gke_adopt_apart [OF Pair that]
      by (auto simp: adopt_def wrapping_def as_result_def ret_def split: if_splits option.splits)
  qed
  obtain b hb where b: "setup_node ha = (b, hb)" by fastforce
  have fb: "h_files hb p = h_files h p" if "apart p" for p
  proof (cases "node_setup drv order (node_config_of ?s (fl_skip_iptables fl)) ha")
    case (Pair x hx)
    then show ?thesis using b node_setup_apart [OF Pair ord that] fa [OF that]
      by (auto simp: setup_node_def wrapping_def split: sum.splits)
  qed
  have eq: "daemon_body drv order run fl h =
      and_then adopt (\<lambda>_. and_then setup_node (\<lambda>_ h. and_then (lift_result (server_of fl ?s (h_files h))) (\<lambda>srv.
        and_then (check_ok ''create lease dir'' (ext_call (dr_mkdir drv (path_dir (fl_lease_file fl))))) (\<lambda>_.
        as_result (run srv))) h)) h"
    using Inr by (simp add: daemon_body_def load_pool_state_def and_then_def wrapping_def adopt_def setup_node_def
        daemon_state_def Let_def)
  obtain d hd where d: "ext_call (dr_mkdir drv (path_dir (fl_lease_file fl))) hb = (d, hd)" by fastforce
  have fd: "h_files hd = h_files hb" using d by (auto simp: ext_call_def split: prod.splits)
  show thesis
  proof (cases a)
    case (Inl er)
    then show thesis using early [of er] run eq a fa by (auto simp: and_then_def)
  next
    case a': (Inr u)
    show thesis
    proof (cases b)
      case (Inl er)
      then show thesis using early [of er] run eq a a' b fb by (auto simp: and_then_def)
    next
      case b': (Inr u)
      show thesis
      proof (cases "server_of fl ?s (h_files hb)")
        case (Inl er)
        then show thesis using early [of er] run eq a a' b b' fb by (auto simp: and_then_def lift_result_def)
      next
        case srv: (Inr srv)
        show thesis
        proof (cases d)
          case False
          then show thesis using early run eq a a' b b' srv d fb fd
            by (auto simp: and_then_def lift_result_def check_ok_def)
        next
          case True
          obtain out ho where o: "run srv hd = (out, ho)" by fastforce
          then have "r = (case out of None \<Rightarrow> Inr () | Some er \<Rightarrow> Inl er)" "h' = ho"
            using run eq a a' b b' srv d True
            by (auto simp: and_then_def lift_result_def check_ok_def as_result_def split: option.splits)
          then show thesis using Inr srv fd fb o by (intro served [of s hd srv out]) simp_all
        qed
      qed
    qed
  qed
qed

section \<open>One run of the daemon\<close>

lemma takeover_path:
  assumes "takeover_ok e readable f fs" and "fs' f = fs f"
  shows "takeover_ok e readable f fs'"
  using assms by (simp add: takeover_ok_def lease_load_def new_lease_store_def)

lemma restore_loop_conf: "restore_loop e ls s = Some s' \<Longrightarrow> sv_conf s' = sv_conf s"
proof (induction ls arbitrary: s)
  case (Cons l ls)
  then show ?case
    by (auto simp: bind_eq_Some_conv add_route_def del_route_def emit_def Let_def split: if_splits dest!: Cons.IH)
qed simp

lemma boots_conf:
  "boots c ips files e link readable s0 \<Longrightarrow> new_server c ips files = Some s \<Longrightarrow> sv_conf s0 = sv_conf s"
  by (auto simp: boots_def run_start_def restore_leases_def bind_eq_Some_conv Let_def split: prod.splits if_splits
      dest!: restore_loop_conf)


text \<open>A host on which the daemon runs: the client's datagram is received and answered, then it is interrupted.\<close>

definition w_sock :: "unit socket_driver" where
  "w_sock = driver.extend w_node \<lparr>sk_lstat = (\<lambda>p c. (NoEntry, c)), sk_remove = (\<lambda>p c. (True, c)),
     sk_listen = (\<lambda>p c. (True, c)), sk_chmod = (\<lambda>p m c. (True, c)), sk_close = (\<lambda>p c. ((), c)), sk_udp = (\<lambda>n c. (True, c))\<rparr>"

definition w_serve_state :: pool_state where
  "w_serve_state = zero_state\<lparr>ps_gateway := ''172.20.1.1'', ps_subnet := ''172.20.1.0/24'', ps_primary_nic := ''ens4'',
     ps_ips := [''172.20.1.2''], ps_updated_at := 0, ps_state_dir := ''/s''\<rparr>"

definition w_serve_flags :: flags where
  "w_serve_flags = w_daemon_flags\<lparr>fl_state_dir := ''/s'', fl_lease_file := ''/s/leases.json'', fl_skip_iptables := True\<rparr>"

definition w_serve_inputs :: "server_input list" where
  "w_serve_inputs = [Datagram [1] w_peer w_t0, Scheduled (w_run w_t0) 0]"

definition w_serve_end :: run_end where
  "w_serve_end = \<lparr>re_event = Interrupted, re_ctx_done = True, re_final = None, re_cleaned = True\<rparr>"

definition w_decode :: "byte list \<Rightarrow> dhcp_msg option" where
  "w_decode b = Some (w_msg 3 w_mac1 [172, 20, 1, 2])"

lemma w_sock_node: "driver.truncate w_sock = w_node"
  by (simp add: w_sock_def driver.defs)

lemma w_acquire:
  assumes "h_files h pid_file = None"
  shows "\<exists>h1. acquire_pid_file w_node h = (Inr (), h1)"
proof -
  have d: "dr_pid w_node c = 1" "dr_hard_link w_node c = (True, c)" for c by (simp_all add: w_node_def bare_driver_def)
  obtain h1 where w: "write_file w_node (pid_tmp 1) (itoa 1) pid_file_perm h = (True, h1)" using w_write by blast
  have "h_files h1 pid_file = None" using write_file_frame [OF pid_tmp_other(2), of w_node 1 "itoa 1" pid_file_perm h] w assms by simp
  moreover have "h_files h1 (pid_tmp 1) \<noteq> None" using write_file_ok [OF w] by auto
  ultimately have "\<exists>h2. link_file w_node (pid_tmp 1) pid_file h1 = (Linked, h2)" by (auto simp: link_file_def d)
  then have "fst (link_pid_file w_node (pid_tmp 1) 2 h1) = Inr ()" by (auto simp: numeral_2_eq_2)
  then have "\<exists>h2. (case link_pid_file w_node (pid_tmp 1) 2 h1 of (r, h2) \<Rightarrow> (r, snd (remove_file w_node (pid_tmp 1) h2))) = (Inr (), h2)"
    by (simp add: case_prod_beta)
  moreover have "ext_call (dr_mkdir w_node p) h = (True, h)" for p by (simp add: ext_call_def)
  ultimately show ?thesis using w
    by (simp add: acquire_pid_file_def and_then_def check_ok_def d Let_def)
qed

lemma w_mkdir: "ext_call (dr_mkdir w_node p) h = (True, h)"
  by (simp add: ext_call_def)

lemma w_decode_v4: "decodes_v4 w_decode"
proof -
  have "msg_v4 (w_msg 3 w_mac1 [172, 20, 1, 2])" by code_simp
  then show ?thesis by (simp add: decodes_v4_def w_decode_def)
qed

lemma w_serve_inputs_ok: "\<forall>i \<in> set w_serve_inputs. input_ok i"
  by (simp add: w_serve_inputs_def)

lemma w_serve_server: "\<exists>srv. server_of w_serve_flags (daemon_state w_serve_state) fs = Inr srv"
proof -
  have w: "to4 (parse_ip (ps_gateway (daemon_state w_serve_state))) \<noteq> []"
    "parse_cidr (ps_subnet (daemon_state w_serve_state)) \<noteq> None" "parse_ips (ps_ips (daemon_state w_serve_state)) \<noteq> []"
    by code_simp+
  then show ?thesis by (auto simp: server_of_cases)
qed

lemma w_serve_run:
  assumes srv: "server_of w_serve_flags (daemon_state w_serve_state) (h_files h) = Inr srv"
    and f: "h_files h ''/s/leases.json'' = None"
  shows "\<exists>h'. server_run w_sock Dhcp_Example.w_reply w_decode (w_run w_t0) w_serve_inputs w_serve_end srv h = (None, h')"
proof -
  obtain n where n: "new_server (daemon_conf w_serve_flags (daemon_state w_serve_state) n)
      (parse_ips (ps_ips (daemon_state w_serve_state))) (h_files h) = Some srv"
    by (rule server_ofD [OF srv]) blast
  have c: "cf_control_socket (sv_conf srv) = []" "cf_lease_file (sv_conf srv) = ''/s/leases.json''" "sv_files srv = h_files h"
    using n by (auto simp: new_server_def daemon_conf_def w_serve_flags_def w_daemon_flags_def split: bind_splits)
  have lf: "cf_lease_file (daemon_conf w_serve_flags (daemon_state w_serve_state) n) = ''/s/leases.json''"
    by (simp add: daemon_conf_def w_serve_flags_def w_daemon_flags_def)
  have tk: "takeover_ok (w_run w_t0) r ''/s/leases.json'' (h_files h)" for r
    using f by (simp add: takeover_ok_def lease_load_def new_lease_store_def)
  obtain s0 where s0: "run_start (w_run w_t0) (Some 1) (dr_readable w_sock ''/s/leases.json'' (h_ext h)) True True srv = Some (Inr s0)"
    "server_inv s0" by (rule run_start_ok [OF n, unfolded lf, OF tk, of 1]) blast
  obtain s1 w where s1: "serve_inputs Dhcp_Example.w_reply w_decode w_serve_inputs (s0, []) = Some (s1, w)"
    using serve_inputs_reach [OF w_decode_v4 s0(2) dhcp_reach.start [of Dhcp_Example.w_reply] w_serve_inputs_ok] by auto
  have link: "resolve_link_index (driver.truncate w_sock) i h = (Inr 1, h)" for i
    unfolding w_sock_node by (simp add: resolve_link_index_def ext_call_def w_link_def)
  have udp: "ext_call (sk_udp w_sock i) h = (True, h)" for i
    by (simp add: w_sock_def driver.defs ext_call_def)
  have ctl: "new_control_server w_sock (cf_control_socket (sv_conf srv)) h = (Inr None, h)"
    unfolding c(1) by (simp add: new_control_server_def ret_def)
  have upd: "srv\<lparr>sv_files := h_files h\<rparr> = srv" using c(3) by simp
  have st: "run_start (w_run w_t0) (Some 1) (dr_readable w_sock (cf_lease_file (sv_conf srv)) (h_ext h)) True True
      (srv\<lparr>sv_files := h_files h\<rparr>) = Some (Inr s0)"
    unfolding upd c(2) by (rule s0(1))
  have stop: "run_stop b (re_ctx_done w_serve_end) (re_final w_serve_end) (re_event w_serve_end) = None" for b
    by (simp add: run_stop_def w_serve_end_def)
  note r = server_run_runs [OF link st ctl udp s1, of w_serve_end, unfolded stop]
  show ?thesis by (rule exI, rule r)
qed

lemma pool_load_readable:
  assumes "h_files h1 (pool_path dir) = h_files h (pool_path dir)"
    and "dr_readable drv (pool_path dir) (h_ext h1)" and "dr_readable drv (pool_path dir) (h_ext h)"
  shows "pool_load drv dir h1 = pool_load drv dir h"
  using assms by (simp add: pool_load_def read_file_def split: option.split)


end
