(* ===== verification/Cmd_Pid.thy ===== *)
theory Cmd_Pid
  imports Cmd_Daemon
begin

text \<open>
  Daemons that start at the same time: \<open>acquirePIDFile\<close> one system call at a time, with the calls of any
  number of processes interleaved. Without a PID file exactly one process wins; with a stale one two can.
  The steps are the calls \<open>acquire_pid_file\<close> makes in a row.
\<close>

section \<open>One call at a time\<close>

datatype pid_pc = Absent | Starting | Linking nat | Checking nat | Removing nat | Won | Lost

type_synonym 'c starters = "(int \<Rightarrow> pid_pc) \<times> 'c host"

definition after_link :: "link_result \<Rightarrow> nat \<Rightarrow> pid_pc" where
  "after_link r n = (case r of Linked \<Rightarrow> Won | LinkFailed \<Rightarrow> Lost | TargetExists \<Rightarrow> Checking n)"

definition after_check :: "error option \<Rightarrow> nat \<Rightarrow> pid_pc" where
  "after_check e n = (case e of Some _ \<Rightarrow> Lost | None \<Rightarrow> Removing n)"

definition done_as :: "unit result \<Rightarrow> pid_pc" where
  "done_as r = (case r of Inl _ \<Rightarrow> Lost | Inr _ \<Rightarrow> Won)"

lemma done_as_simps [simp]: "done_as (Inl e) = Lost" "done_as (Inr u) = Won"
  by (simp_all add: done_as_def)

lemma done_as_cases: "done_as r \<in> {Won, Lost}"
  by (cases r) simp_all

inductive pid_step :: "'c driver \<Rightarrow> 'c starters \<Rightarrow> 'c starters \<Rightarrow> bool" for drv :: "'c driver" where
  write_tmp: "pc p = Starting \<Longrightarrow> write_file drv (pid_tmp p) (itoa p) pid_file_perm h = (ok, h') \<Longrightarrow>
    pid_step drv (pc, h) (pc(p := if ok then Linking 2 else Lost), h')"
| link: "pc p = Linking (Suc n) \<Longrightarrow> link_file drv (pid_tmp p) pid_file h = (r, h') \<Longrightarrow>
    pid_step drv (pc, h) (pc(p := after_link r n), h')"
| give_up: "pc p = Linking 0 \<Longrightarrow> pid_step drv (pc, h) (pc(p := Lost), h)"
| check: "pc p = Checking n \<Longrightarrow>
    pid_step drv (pc, h) (pc(p := after_check (check_existing_pid drv pid_file h) n), h)"
| remove: "pc p = Removing n \<Longrightarrow> remove_file drv pid_file h = (r, h') \<Longrightarrow>
    pid_step drv (pc, h) (pc(p := Linking n), h')"
| drop_tmp: "pc p \<in> {Won, Lost} \<Longrightarrow> remove_file drv (pid_tmp p) h = (r, h') \<Longrightarrow> pid_step drv (pc, h) (pc, h')"

inductive pid_reach :: "'c driver \<Rightarrow> 'c starters \<Rightarrow> 'c starters \<Rightarrow> bool" for drv :: "'c driver" and c0 :: "'c starters" where
  start: "pid_reach drv c0 c0"
| step: "pid_reach drv c0 c \<Longrightarrow> pid_step drv c c' \<Longrightarrow> pid_reach drv c0 c'"

lemma pid_reach_step: "pid_step drv c0 c \<Longrightarrow> pid_reach drv c0 c"
  using pid_reach.step [OF pid_reach.start] .

lemma pid_reach_trans: "pid_reach drv c1 c2 \<Longrightarrow> pid_reach drv c0 c1 \<Longrightarrow> pid_reach drv c0 c2"
  by (induction rule: pid_reach.induct) (auto intro: pid_reach.step)

text \<open>The next call of one process, as a function, to run a schedule.\<close>

fun pid_next :: "'c driver \<Rightarrow> int \<Rightarrow> 'c starters \<Rightarrow> 'c starters" where
  "pid_next drv p (pc, h) =
     (case pc p of
        Starting \<Rightarrow> (case write_file drv (pid_tmp p) (itoa p) pid_file_perm h of
          (ok, h') \<Rightarrow> (pc(p := if ok then Linking 2 else Lost), h'))
      | Linking 0 \<Rightarrow> (pc(p := Lost), h)
      | Linking (Suc n) \<Rightarrow> (case link_file drv (pid_tmp p) pid_file h of (r, h') \<Rightarrow> (pc(p := after_link r n), h'))
      | Checking n \<Rightarrow> (pc(p := after_check (check_existing_pid drv pid_file h) n), h)
      | Removing n \<Rightarrow> (case remove_file drv pid_file h of (_, h') \<Rightarrow> (pc(p := Linking n), h'))
      | _ \<Rightarrow> (pc, h))"

lemma write_tmp_intros:
  "pc p = Starting \<Longrightarrow> write_file drv (pid_tmp p) (itoa p) pid_file_perm h = (True, h') \<Longrightarrow>
   pid_step drv (pc, h) (pc(p := Linking 2), h')"
  "pc p = Starting \<Longrightarrow> write_file drv (pid_tmp p) (itoa p) pid_file_perm h = (False, h') \<Longrightarrow>
   pid_step drv (pc, h) (pc(p := Lost), h')"
  using pid_step.write_tmp [of pc p drv h True h'] pid_step.write_tmp [of pc p drv h False h'] by simp_all

lemma pid_next_reach: "pid_reach drv c (pid_next drv p c)"
proof (cases c)
  case (Pair pc h)
  show ?thesis
  proof (cases "pid_next drv p c = c")
    case False
    then have "pid_step drv c (pid_next drv p c)"
      unfolding Pair by (auto intro: pid_step.intros write_tmp_intros split: pid_pc.splits nat.splits prod.splits)
    then show ?thesis by (rule pid_reach_step)
  qed (simp add: pid_reach.start)
qed

lemma pid_schedule_reach: "pid_reach drv c (fold (pid_next drv) ps c)"
proof (induction ps arbitrary: c)
  case (Cons p ps)
  show ?case using pid_reach_trans [OF Cons.IH pid_next_reach] by simp
qed (simp add: pid_reach.start)

text \<open>A process left alone takes exactly these steps.\<close>

lemma link_pid_steps:
  "pc p = Linking n \<Longrightarrow> link_pid_file drv (pid_tmp p) n h = (r, h') \<Longrightarrow>
   pid_reach drv (pc, h) (pc(p := done_as r), h')"
proof (induction n arbitrary: pc h)
  case 0
  have "pid_reach drv (pc, h) (pc(p := Lost), h)" by (rule pid_reach_step, rule pid_step.give_up) (rule 0(1))
  moreover have "done_as r = Lost" "h' = h" using 0(2) by auto
  ultimately show ?case by (simp only:)
next
  case (Suc n)
  obtain l h1 where l: "link_file drv (pid_tmp p) pid_file h = (l, h1)" by fastforce
  have s1: "pid_reach drv (pc, h) (pc(p := after_link l n), h1)"
    by (rule pid_reach_step, rule pid_step.link) (rule Suc.prems(1), rule l)
  show ?case
  proof (cases l)
    case TargetExists
    let ?pc1 = "pc(p := Checking n)"
    have s1': "pid_reach drv (pc, h) (?pc1, h1)" using s1 TargetExists by (simp add: after_link_def)
    have s2: "pid_reach drv (?pc1, h1) (pc(p := after_check (check_existing_pid drv pid_file h1) n), h1)"
      using pid_reach_step [OF pid_step.check [of ?pc1 p n drv h1]] by simp
    show ?thesis
    proof (cases "check_existing_pid drv pid_file h1")
      case (Some e)
      then have d: "done_as r = Lost" "h' = h1" using Suc.prems(2) l TargetExists by auto
      show ?thesis using pid_reach_trans [OF s2 s1'] unfolding d Some after_check_def option.case .
    next
      case None
      let ?pc2 = "pc(p := Removing n)"
      obtain m h2 where m: "remove_file drv pid_file h1 = (m, h2)" by fastforce
      have s2': "pid_reach drv (?pc1, h1) (?pc2, h1)" using s2 None by (simp add: after_check_def)
      have s3: "pid_reach drv (?pc2, h1) (pc(p := Linking n), h2)"
        using pid_reach_step [OF pid_step.remove [of ?pc2 p n, OF _ m]] by simp
      have "link_pid_file drv (pid_tmp p) n h2 = (r, h')" using Suc.prems(2) l TargetExists None m by simp
      then have "pid_reach drv (pc(p := Linking n), h2) (pc(p := done_as r), h')"
        using Suc.IH [of "pc(p := Linking n)" h2] by (simp only: fun_upd_same fun_upd_upd)
      then show ?thesis using pid_reach_trans s3 s2' s1' by metis
    qed
  next
    case Linked
    then have d: "done_as r = Won" "h' = h1" using Suc.prems(2) l by auto
    show ?thesis using s1 unfolding d Linked after_link_def link_result.case .
  next
    case LinkFailed
    then have d: "done_as r = Lost" "h' = h1" using Suc.prems(2) l by auto
    show ?thesis using s1 unfolding d LinkFailed after_link_def link_result.case .
  qed
qed

lemma acquire_steps:
  assumes a: "acquire_pid_file drv h = (r, h')" and m: "dr_mkdir drv (path_dir pid_file) (h_ext h) = (True, c)"
    and p: "p = dr_pid drv c" and pc: "pc p = Starting"
  shows "pid_reach drv (pc, h\<lparr>h_ext := c\<rparr>) (pc(p := done_as r), h')"
proof -
  obtain ok h1 where w: "write_file drv (pid_tmp p) (itoa p) pid_file_perm (h\<lparr>h_ext := c\<rparr>) = (ok, h1)" by fastforce
  have s1: "pid_reach drv (pc, h\<lparr>h_ext := c\<rparr>) (pc(p := if ok then Linking 2 else Lost), h1)"
    by (rule pid_reach_step, rule pid_step.write_tmp) (rule pc, rule w)
  show ?thesis
  proof (cases ok)
    case False
    then show ?thesis using a m w s1 p
      by (auto simp: acquire_pid_file_def and_then_def check_ok_def ext_call_def Let_def)
  next
    case True
    obtain l h2 where l: "link_pid_file drv (pid_tmp p) 2 h1 = (l, h2)" by fastforce
    have r: "r = l" "h' = snd (remove_file drv (pid_tmp p) h2)"
      using a m w l p True by (auto simp: acquire_pid_file_def and_then_def check_ok_def ext_call_def Let_def)
    let ?pc = "pc(p := done_as l)"
    have "pid_reach drv (pc(p := Linking 2), h1) (?pc, h2)"
      using link_pid_steps [of "pc(p := Linking 2)" p 2, OF _ l] by simp
    moreover have "pid_reach drv (?pc, h2) (?pc, h')"
      by (rule pid_reach_step, rule pid_step.drop_tmp [of _ p _ _ "fst (remove_file drv (pid_tmp p) h2)"]) (simp_all add: r(2) done_as_cases [simplified])
    moreover have "pid_reach drv (pc, h\<lparr>h_ext := c\<rparr>) (pc(p := Linking 2), h1)" using s1 True by simp
    ultimately show ?thesis unfolding r(1) using pid_reach_trans by metis
  qed
qed

section \<open>A start without a PID file\<close>

text \<open>The calls of the starting processes work, and the processes live on.\<close>

definition pid_calls_ok :: "'c driver \<Rightarrow> int set \<Rightarrow> bool" where
  "pid_calls_ok drv P \<longleftrightarrow> (\<forall>p \<in> P. 0 \<le> p \<and> p < 2 ^ 63) \<and>
     (\<forall>c. dk_write (fst (dr_disk drv c)) = WriteDone \<and> fst (dr_hard_link drv c) \<and> dr_readable drv pid_file c \<and>
        (\<forall>p \<in> P. dr_alive drv p c))"

lemma pid_tmp_inj: "0 \<le> p \<Longrightarrow> p < 2 ^ 63 \<Longrightarrow> 0 \<le> q \<Longrightarrow> q < 2 ^ 63 \<Longrightarrow> pid_tmp p = pid_tmp q \<Longrightarrow> p = q"
proof -
  assume v: "0 \<le> p" "p < 2 ^ 63" "0 \<le> q" "q < 2 ^ 63" "pid_tmp p = pid_tmp q"
  from v(5) have "itoa p = itoa q" unfolding pid_tmp_def by simp
  with itoa_atoi [OF v(1,2)] itoa_atoi [OF v(3,4)] show "p = q" by (metis option.inject)
qed

text \<open>
  As long as no process removed the file, the retries are never used: a process is about to write, about
  to link, about to check, or done. There is no PID file before the first link, and then it names the
  only winner.
\<close>

definition pid_inv :: "int set \<Rightarrow> 'c starters \<Rightarrow> bool" where
  "pid_inv P c \<longleftrightarrow> (case c of (pc, h) \<Rightarrow>
     (\<forall>p \<in> P. pc p \<in> {Starting, Linking 2, Checking 1, Won, Lost}) \<and> (\<forall>p. p \<notin> P \<longrightarrow> pc p = Absent) \<and>
     (\<forall>p \<in> P. pc p = Linking 2 \<longrightarrow> map_option f_data (h_files h (pid_tmp p)) = Some (itoa p)) \<and>
     (case h_files h pid_file of
        None \<Rightarrow> \<forall>p \<in> P. pc p \<in> {Starting, Linking 2}
      | Some f \<Rightarrow> \<exists>w \<in> P. f_data f = itoa w \<and> pc w = Won \<and> (\<forall>q \<in> P - {w}. pc q \<noteq> Won)))"

lemma pid_inv_running: "pid_inv P (pc, h) \<Longrightarrow> pc p \<noteq> Absent \<Longrightarrow> p \<in> P"
  and pid_inv_pc: "pid_inv P (pc, h) \<Longrightarrow> p \<in> P \<Longrightarrow> pc p \<in> {Starting, Linking 2, Checking 1, Won, Lost}"
  and pid_inv_tmp: "pid_inv P (pc, h) \<Longrightarrow> p \<in> P \<Longrightarrow> pc p = Linking 2 \<Longrightarrow>
    map_option f_data (h_files h (pid_tmp p)) = Some (itoa p)"
  by (auto simp: pid_inv_def)

lemma pid_inv_hold:
  assumes inv: "pid_inv P (pc, h)" and f: "h_files h pid_file = Some f"
    and p: "pc p \<in> {Linking 2, Checking 1}" and s: "s \<in> {Checking 1, Lost}"
  shows "pid_inv P (pc(p := s), h)"
proof -
  obtain w where w: "w \<in> P" "f_data f = itoa w" "pc w = Won" "\<forall>q \<in> P - {w}. pc q \<noteq> Won"
    using inv f by (auto simp: pid_inv_def)
  have P: "p \<in> P" using p by (intro pid_inv_running [OF inv]) auto
  have "(pc(p := s)) w = Won" "\<forall>q \<in> P - {w}. (pc(p := s)) q \<noteq> Won" using w(3,4) p s by auto
  with w(1,2) have "\<exists>w \<in> P. f_data f = itoa w \<and> (pc(p := s)) w = Won \<and> (\<forall>q \<in> P - {w}. (pc(p := s)) q \<noteq> Won)" by blast
  moreover have "\<forall>q \<in> P. (pc(p := s)) q \<in> {Starting, Linking 2, Checking 1, Won, Lost}"
    "\<forall>q. q \<notin> P \<longrightarrow> (pc(p := s)) q = Absent"
    "\<forall>q \<in> P. (pc(p := s)) q = Linking 2 \<longrightarrow> map_option f_data (h_files h (pid_tmp q)) = Some (itoa q)"
    using inv s P by (auto simp: pid_inv_def)
  ultimately show ?thesis unfolding pid_inv_def prod.case f option.case by blast
qed

lemma pid_step_inv:
  assumes "pid_step drv c c'" and inv: "pid_inv P c" and ok: "pid_calls_ok drv P"
  shows "pid_inv P c'"
  using assms(1)
proof (cases rule: pid_step.cases)
  case (write_tmp pc p h ok' h')
  have d: "dk_write (fst (dr_disk drv (h_ext h))) = WriteDone" using ok by (simp add: pid_calls_ok_def)
  have ok': "ok'" using write_tmp(4) d
    by (auto simp: write_file_def os_write_file_def Let_def split: prod.splits)
  have p: "p \<in> P" using inv write_tmp(1,3) by (auto simp: pid_inv_def)
  have f: "h_files h' q = h_files h q" if "q \<noteq> pid_tmp p" for q
    using write_file_frame [OF that, of drv "itoa p" pid_file_perm h] write_tmp(4) by simp
  have own: "map_option f_data (h_files h' (pid_tmp p)) = Some (itoa p)"
    using write_file_ok write_tmp(4) ok' by simp
  have other: "pid_tmp q \<noteq> pid_tmp p" if "q \<in> P" "q \<noteq> p" for q
    using that p ok pid_tmp_inj [of q p] unfolding pid_calls_ok_def by blast
  have pf: "h_files h' pid_file = h_files h pid_file" by (rule f) (rule pid_tmp_other(2))
  have c': "c' = (pc(p := Linking 2), h')" using write_tmp(2) ok' by simp
  have st: "pc p \<notin> {Won, Linking 2}" using write_tmp(3) by simp
  show ?thesis unfolding c' pid_inv_def prod.case pf
  proof (intro conjI)
    show "\<forall>q \<in> P. (pc(p := Linking 2)) q \<in> {Starting, Linking 2, Checking 1, Won, Lost}"
      and "\<forall>q. q \<notin> P \<longrightarrow> (pc(p := Linking 2)) q = Absent"
      using inv write_tmp(1) p by (auto simp: pid_inv_def)
    show "\<forall>q \<in> P. (pc(p := Linking 2)) q = Linking 2 \<longrightarrow> map_option f_data (h_files h' (pid_tmp q)) = Some (itoa q)"
    proof (intro ballI impI)
      fix q assume q: "q \<in> P" "(pc(p := Linking 2)) q = Linking 2"
      show "map_option f_data (h_files h' (pid_tmp q)) = Some (itoa q)"
      proof (cases "q = p")
        case False
        with q inv write_tmp(1) have "map_option f_data (h_files h (pid_tmp q)) = Some (itoa q)"
          by (simp add: pid_inv_def)
        then show ?thesis using f [OF other [OF q(1) False]] by simp
      qed (simp add: own)
    qed
    show "case h_files h pid_file of None \<Rightarrow> \<forall>q \<in> P. (pc(p := Linking 2)) q \<in> {Starting, Linking 2}
        | Some f \<Rightarrow> \<exists>w \<in> P. f_data f = itoa w \<and> (pc(p := Linking 2)) w = Won \<and>
            (\<forall>q \<in> P - {w}. (pc(p := Linking 2)) q \<noteq> Won)"
    proof (cases "h_files h pid_file")
      case None
      then show ?thesis using inv write_tmp(1) by (simp add: pid_inv_def)
    next
      case (Some g)
      then obtain w where w: "w \<in> P" "f_data g = itoa w" "pc w = Won" "\<forall>q \<in> P - {w}. pc q \<noteq> Won"
        using inv write_tmp(1) by (auto simp: pid_inv_def)
      with st have "(pc(p := Linking 2)) w = Won" "\<forall>q \<in> P - {w}. (pc(p := Linking 2)) q \<noteq> Won" by auto
      with Some w(1,2) show ?thesis by (simp only: option.case) blast
    qed
  qed
next
  case (link pc p n h r h')
  have p: "p \<in> P" using pid_inv_running [of P pc h p] inv link(1,3) by simp
  have n: "n = 1" using pid_inv_pc [of P pc h p] p inv link(1,3) by simp
  have tmp: "map_option f_data (h_files h (pid_tmp p)) = Some (itoa p)"
    using pid_inv_tmp [of P pc h p] p inv link(1,3) n by simp
  have hl: "fst (dr_hard_link drv (h_ext h))" using ok by (simp add: pid_calls_ok_def)
  show ?thesis
  proof (cases "h_files h pid_file")
    case None
    then have r: "r = Linked" "h_files h' = (h_files h)(pid_file := h_files h (pid_tmp p))"
      using link(4) tmp hl by (auto simp: link_file_def split: prod.splits option.splits)
    have only: "pc q \<in> {Starting, Linking 2}" if "q \<in> P" for q using inv None link(1) that by (auto simp: pid_inv_def)
    have c': "c' = (pc(p := Won), h')" using link(2) r(1) by (simp add: after_link_def)
    obtain f where f: "h_files h (pid_tmp p) = Some f" "f_data f = itoa p" using tmp by auto
    show ?thesis unfolding c' pid_inv_def prod.case
    proof (intro conjI)
      show "\<forall>q \<in> P. (pc(p := Won)) q \<in> {Starting, Linking 2, Checking 1, Won, Lost}" using only by auto
      show "\<forall>q. q \<notin> P \<longrightarrow> (pc(p := Won)) q = Absent" using inv link(1) p by (auto simp: pid_inv_def)
      show "\<forall>q \<in> P. (pc(p := Won)) q = Linking 2 \<longrightarrow> map_option f_data (h_files h' (pid_tmp q)) = Some (itoa q)"
        using inv link(1) r(2) pid_tmp_other by (auto simp: pid_inv_def)
      have "\<forall>q \<in> P - {p}. (pc(p := Won)) q \<noteq> Won" using only by force
      then show "case h_files h' pid_file of None \<Rightarrow> \<forall>q \<in> P. (pc(p := Won)) q \<in> {Starting, Linking 2}
          | Some f \<Rightarrow> \<exists>w \<in> P. f_data f = itoa w \<and> (pc(p := Won)) w = Won \<and> (\<forall>q \<in> P - {w}. (pc(p := Won)) q \<noteq> Won)"
        using r(2) f p by auto
    qed
  next
    case (Some f)
    then have "r = TargetExists" "h' = h" using link(4) by (auto simp: link_file_def)
    then have "c' = (pc(p := Checking 1), h)" using link(2) n by (simp add: after_link_def)
    then show ?thesis using pid_inv_hold [of P pc h f p "Checking 1"] inv link(1,3) n Some by simp
  qed
next
  case (give_up pc p h)
  then show ?thesis using pid_inv_running [of P pc h p] pid_inv_pc [of P pc h p] inv by simp
next
  case (check pc p n h)
  have p: "p \<in> P" using pid_inv_running [of P pc h p] inv check(1,3) by simp
  have n: "n = 1" using pid_inv_pc [of P pc h p] p inv check(1,3) by simp
  obtain f w where w: "h_files h pid_file = Some f" "w \<in> P" "f_data f = itoa w" "pc w = Won"
    using inv check(1,3) p by (auto simp: pid_inv_def split: option.splits)
  have "check_existing_pid drv pid_file h = Some (Err ''another cocoon-net daemon is running'')"
    by (rule live_pid_found [OF w(1,3)]) (use w(2) ok in \<open>auto simp: pid_calls_ok_def\<close>)
  then have "c' = (pc(p := Lost), h)" using check(2) by (simp add: after_check_def)
  then show ?thesis using pid_inv_hold [of P pc h f p Lost] inv check(1,3) n w(1) by simp
next
  case (remove pc p n h r h')
  then show ?thesis using pid_inv_running [of P pc h p] pid_inv_pc [of P pc h p] inv by simp
next
  case (drop_tmp pc p h r h')
  have p: "p \<in> P" using inv drop_tmp(1,3) by (auto simp: pid_inv_def)
  have f: "h_files h' q = h_files h q" if "q \<noteq> pid_tmp p" for q
    using remove_file_frame [OF that, of drv h] drop_tmp(4) by simp
  have "pid_tmp q \<noteq> pid_tmp p" if "q \<in> P" "pc q = Linking 2" for q
    using that p drop_tmp(3) ok pid_tmp_inj [of q p] unfolding pid_calls_ok_def by auto
  then show ?thesis using inv f f [OF pid_tmp_other(2)] drop_tmp(1,2) by (auto simp: pid_inv_def)
qed

lemma pid_reach_inv:
  "pid_reach drv c0 c \<Longrightarrow> pid_inv P c0 \<Longrightarrow> pid_calls_ok drv P \<Longrightarrow> pid_inv P c"
  by (induction rule: pid_reach.induct) (auto intro: pid_step_inv)

text \<open>
  C25. Daemons that start together, on a host without a PID file, whose processes stay alive: in whatever
  order their system calls interleave, at most one of them ever holds the PID file, the file names it,
  and once all are through exactly one has won.
\<close>

definition starting :: "int set \<Rightarrow> int \<Rightarrow> pid_pc" where
  "starting P p = (if p \<in> P then Starting else Absent)"

theorem one_daemon_starts:
  assumes "h_files h0 pid_file = None" and "pid_calls_ok drv P" and "P \<noteq> {}"
    and "pid_reach drv (starting P, h0) (pc, h)"
  shows "(\<forall>p q. pc p = Won \<longrightarrow> pc q = Won \<longrightarrow> p = q) \<and>
    (\<forall>p. pc p = Won \<longrightarrow> map_option f_data (h_files h pid_file) = Some (itoa p)) \<and>
    ((\<forall>p \<in> P. pc p \<in> {Won, Lost}) \<longrightarrow> (\<exists>!p. pc p = Won))"
proof -
  have "pid_inv P (starting P, h0)" using assms(1) by (auto simp: pid_inv_def starting_def)
  from pid_reach_inv [OF assms(4) this assms(2)] have inv: "pid_inv P (pc, h)" .
  then have P: "p \<in> P" if "pc p = Won" for p using that by (auto simp: pid_inv_def)
  show ?thesis
  proof (cases "h_files h pid_file")
    case None
    then have only: "\<forall>p \<in> P. pc p \<in> {Starting, Linking 2}" using inv by (auto simp: pid_inv_def)
    then have "pc p \<noteq> Won" for p using P by force
    moreover have "\<not> (\<forall>p \<in> P. pc p \<in> {Won, Lost})" using only assms(3) by force
    ultimately show ?thesis by blast
  next
    case (Some f)
    then obtain w where w: "w \<in> P" "f_data f = itoa w" "pc w = Won" "\<forall>q \<in> P - {w}. pc q \<noteq> Won"
      using inv by (auto simp: pid_inv_def)
    have one: "pc p = Won \<longleftrightarrow> p = w" for p using P w(3,4) by blast
    have "map_option f_data (h_files h pid_file) = Some (itoa w)" using Some w(2) by simp
    then show ?thesis unfolding one by blast
  qed
qed

definition w_starters_driver :: "unit driver" where
  "w_starters_driver = bare_driver\<lparr>dr_alive := (\<lambda>p c. p \<in> {1, 2})\<rparr>"

definition w_bare_host :: "unit host" where
  "w_bare_host = \<lparr>h_files = Map.empty, h_env = Map.empty, h_ext = ()\<rparr>"

text \<open>Both write and link before the loser checks: the first to link wins.\<close>

theorem one_daemon_starts_witness:
  "let c = fold (pid_next w_starters_driver) [1, 2, 1, 2, 2] (starting {1, 2}, w_bare_host) in
     fst c 1 = Won \<and> fst c 2 = Lost \<and> map_option f_data (h_files (snd c) pid_file) = Some (itoa 1)"
proof -
  let ?P = "{1, 2} :: int set"
  let ?c = "fold (pid_next w_starters_driver) [1, 2, 1, 2, 2] (starting ?P, w_bare_host)"
  obtain pc h where c: "?c = (pc, h)" by fastforce
  have "pid_calls_ok w_starters_driver ?P"
    by (simp add: pid_calls_ok_def w_starters_driver_def bare_driver_def disk_ok_def)
  moreover have "pid_reach w_starters_driver (starting ?P, w_bare_host) (pc, h)"
    unfolding c [symmetric] by (rule pid_schedule_reach)
  ultimately have w: "\<forall>p. pc p = Won \<longrightarrow> map_option f_data (h_files h pid_file) = Some (itoa p)"
    using one_daemon_starts [of w_bare_host w_starters_driver ?P pc h] by (simp add: w_bare_host_def)
  have "map (fst ?c) [1, 2] = [Won, Lost]" by code_simp
  then have "fst ?c 1 = Won" "fst ?c 2 = Lost" by simp_all
  with w c show ?thesis by (simp add: Let_def)
qed

section \<open>A start over a stale PID file\<close>

text \<open>
  The precondition of the claim is needed: over the file of a dead process both starters see it stale, the
  slower one then removes the file the faster one has just linked, and both run.
\<close>

definition w_stale_host :: "unit host" where
  "w_stale_host = w_bare_host\<lparr>h_files := [pid_file \<mapsto> \<lparr>f_data = itoa 9, f_perm = 0\<rparr>]\<rparr>"

lemma stale_pid_race:
  "\<exists>pc h. pid_reach w_starters_driver (starting {1, 2}, w_stale_host) (pc, h) \<and> pc 1 = Won \<and> pc 2 = Won"
proof -
  let ?c = "fold (pid_next w_starters_driver) [1, 1, 1, 2, 2, 2, 1, 1, 2, 2] (starting {1, 2}, w_stale_host)"
  have "map (fst ?c) [1, 2] = [Won, Won]" by code_simp
  then have "fst ?c 1 = Won" "fst ?c 2 = Won" by simp_all
  then show ?thesis using pid_schedule_reach [of w_starters_driver "(starting {1, 2}, w_stale_host)"]
    by (metis prod.collapse)
qed

end
