(* ===== verification/Cmd_Root.thy ===== *)
theory Cmd_Root
  imports Cmd_Daemon
begin

text \<open>
  The root command: the commands with the flag values they start from, the dispatch, the exit code, and
  the metrics the daemon registers and serves. Parsing a command line is third-party code, an argument that turns a
  command's defaults into its flags, or fails.
\<close>

section \<open>Flags and their defaults\<close>

definition default_state_dir :: path where "default_state_dir = ''/var/lib/cocoon/net''"
definition lease_file_name :: string where "lease_file_name = ''leases.json''"
definition default_lease_file :: path where "default_lease_file = default_state_dir @ ''/'' @ lease_file_name"
definition default_control_socket :: path where "default_control_socket = ''/run/cocoon-net/control.sock''"
definition default_metrics_addr :: string where "default_metrics_addr = '':9092''"

definition zero_flags :: flags where
  "zero_flags = \<lparr>fl_platform = [], fl_node_name = [], fl_subnet = [], fl_pool_size = 0, fl_gateway = [],
     fl_primary_nic = [], fl_dns = [], fl_state_dir = [], fl_dry_run = False, fl_force = False, fl_drop_internal = False,
     fl_drop_cidrs = [], fl_manage_iptables = False, fl_lease_file = [], fl_control_socket = [], fl_skip_iptables = False\<rparr>"

definition register_common_flags :: "int \<Rightarrow> flags" where
  "register_common_flags default_pool_size =
     zero_flags\<lparr>fl_pool_size := default_pool_size, fl_dns := ''8.8.8.8,1.1.1.1'', fl_state_dir := default_state_dir\<rparr>"

definition env_or :: "(string \<rightharpoonup> string) \<Rightarrow> string \<Rightarrow> string \<Rightarrow> string" where
  "env_or env name dflt = str_or (case env name of None \<Rightarrow> [] | Some v \<Rightarrow> v) dflt"

datatype command = Init | Adopt | Daemon | Status | Teardown

definition new_init_cmd :: flags where "new_init_cmd = register_common_flags 140"
definition new_adopt_cmd :: flags where "new_adopt_cmd = register_common_flags 253"

definition new_daemon_cmd :: "(string \<rightharpoonup> string) \<Rightarrow> flags" where
  "new_daemon_cmd env =
     zero_flags\<lparr>fl_state_dir := default_state_dir, fl_lease_file := default_lease_file,
       fl_control_socket := env_or env ''COCOON_NET_CONTROL_SOCKET'' default_control_socket\<rparr>"

text \<open>The address of the metrics server is a flag of the daemon alone.\<close>

definition metrics_addr :: "(string \<rightharpoonup> string) \<Rightarrow> string" where
  "metrics_addr env = env_or env ''COCOON_NET_METRICS_ADDR'' default_metrics_addr"

definition new_status_cmd :: flags where "new_status_cmd = zero_flags\<lparr>fl_state_dir := default_state_dir\<rparr>"

definition new_teardown_cmd :: flags where
  "new_teardown_cmd = zero_flags\<lparr>fl_state_dir := default_state_dir, fl_lease_file := default_lease_file\<rparr>"

section \<open>Dispatch and exit code\<close>

definition command_flags :: "(string \<rightharpoonup> string) \<Rightarrow> command \<Rightarrow> flags" where
  "command_flags env c = (case c of Init \<Rightarrow> new_init_cmd | Adopt \<Rightarrow> new_adopt_cmd | Daemon \<Rightarrow> new_daemon_cmd env
     | Status \<Rightarrow> new_status_cmd | Teardown \<Rightarrow> new_teardown_cmd)"

definition run_command :: "'c driver \<Rightarrow> nat \<Rightarrow> (string \<times> string) list \<Rightarrow> (dhcp_server \<Rightarrow> ('c, error option) io) \<Rightarrow>
    command \<Rightarrow> flags \<Rightarrow> ('c, string list result) io" where
  "run_command drv pages order run c fl =
     (case c of
        Init \<Rightarrow> run_init drv pages order fl
      | Adopt \<Rightarrow> run_adopt drv pages order fl
      | Daemon \<Rightarrow> and_then (run_daemon drv order run fl) (\<lambda>_. ret [])
      | Status \<Rightarrow> run_status drv pages fl
      | Teardown \<Rightarrow> run_teardown drv pages fl)"

text \<open>\<open>log_ok\<close> is the outcome of setting up the log.\<close>

definition run_root :: "'c driver \<Rightarrow> nat \<Rightarrow> (string \<times> string) list \<Rightarrow> (dhcp_server \<Rightarrow> ('c, error option) io) \<Rightarrow>
    bool \<Rightarrow> (flags \<Rightarrow> flags option) \<Rightarrow> command \<Rightarrow> ('c, nat) io" where
  "run_root drv pages order run log_ok parse c h =
     (if \<not> log_ok then (1, h)
      else case parse (command_flags (h_env h) c) of
        None \<Rightarrow> (1, h)
      | Some fl \<Rightarrow>
          (case run_command drv pages order run c fl h of (Inl _, h') \<Rightarrow> (1, h') | (Inr _, h') \<Rightarrow> (0, h')))"

text \<open>\<open>teardown\<close> looks for the leases where the daemon keeps them, and every command for the state in one place.\<close>

lemma command_files:
  "fl_state_dir (command_flags env c) = default_state_dir"
  "fl_lease_file (command_flags env Teardown) = fl_lease_file (command_flags env Daemon)"
  by (cases c) (simp_all add: command_flags_def new_init_cmd_def new_adopt_cmd_def register_common_flags_def
      new_daemon_cmd_def new_status_cmd_def new_teardown_cmd_def)

text \<open>A failing log setup or command line leaves the host as it is.\<close>

lemma run_root_early:
  "\<not> log_ok \<or> parse (command_flags (h_env h) c) = None \<Longrightarrow> run_root drv pages order run log_ok parse c h = (1, h)"
  by (auto simp: run_root_def)

text \<open>The version the root command prints, and the status the process exits with.\<close>

definition version_default :: "string \<times> string \<times> string" where
  "version_default = (''dev'', ''unknown'', ''unknown'')"

definition root_version :: "string \<times> string \<times> string \<Rightarrow> string" where
  "root_version = (\<lambda>(version, revision, built). version @ '' (rev='' @ revision @ '' built='' @ built @ '')'')"

datatype process_end = OsExit nat | MainReturned

definition execute :: "'c driver \<Rightarrow> nat \<Rightarrow> (string \<times> string) list \<Rightarrow> (dhcp_server \<Rightarrow> ('c, error option) io) \<Rightarrow>
    bool \<Rightarrow> (flags \<Rightarrow> flags option) \<Rightarrow> command \<Rightarrow> ('c, process_end) io" where
  "execute drv pages order run log_ok parse c h =
     (case run_root drv pages order run log_ok parse c h of
        (code, h') \<Rightarrow> (if code \<noteq> 0 then OsExit code else MainReturned, h'))"

text \<open>The process reports a failure exactly when the log, the command line or the command failed.\<close>

lemma execute_end:
  "fst (execute drv pages order run log_ok parse c h) =
     (if log_ok \<and> (\<exists>fl. parse (command_flags (h_env h) c) = Some fl \<and> \<not> isl (fst (run_command drv pages order run c fl h)))
      then MainReturned else OsExit 1)"
  by (auto simp: execute_def run_root_def split: option.splits prod.splits sum.splits)

section \<open>Gauges\<close>

record gauge =
  ga_name :: string
  ga_help :: string
  ga_value :: nat

definition metric_name :: "string \<Rightarrow> string" where
  "metric_name n = join ''_'' [''cocoon'', ''net'', n]"

definition pool_gauges :: "nat \<Rightarrow> nat \<Rightarrow> gauge list" where
  "pool_gauges available active =
     [\<lparr>ga_name = metric_name ''dhcp_pool_available'',
       ga_help = ''Number of unallocated IPs in the DHCP pool.'', ga_value = available\<rparr>,
      \<lparr>ga_name = metric_name ''dhcp_lease_active'',
       ga_help = ''Number of active (unexpired) DHCP leases.'', ga_value = active\<rparr>]"

text \<open>
  The static collectors of \<open>metrics.go\<close>, vectors over one label. The registry is Prometheus' and an
  argument: \<open>reg m r\<close> registers a collector, or refuses it.
\<close>

record collector =
  mc_name :: string
  mc_help :: string
  mc_labels :: "string list"

definition dhcp_lease_total :: collector where
  "dhcp_lease_total = \<lparr>mc_name = metric_name ''dhcp_lease_total'',
     mc_help = ''Number of DHCP lease grant attempts by result.'', mc_labels = [''result'']\<rparr>"

definition secondary_nics :: collector where
  "secondary_nics = \<lparr>mc_name = metric_name ''secondary_nics'',
     mc_help = ''Secondary NICs the pool expects and the host presents.'', mc_labels = [''state'']\<rparr>"

definition gauge_collector :: "gauge \<Rightarrow> collector" where
  "gauge_collector g = \<lparr>mc_name = ga_name g, mc_help = ga_help g, mc_labels = []\<rparr>"

text \<open>\<open>MustRegister\<close> registers one collector after the other and panics on the first that is refused.\<close>

fun must_register :: "(collector \<Rightarrow> 'r \<Rightarrow> 'r option) \<Rightarrow> collector list \<Rightarrow> 'r \<Rightarrow> 'r option" where
  "must_register reg [] r = Some r"
| "must_register reg (m # ms) r = (case reg m r of None \<Rightarrow> None | Some r' \<Rightarrow> must_register reg ms r')"

definition register_metrics :: "(collector \<Rightarrow> 'r \<Rightarrow> 'r option) \<Rightarrow> 'r \<Rightarrow> 'r option" where
  "register_metrics reg r = must_register reg [dhcp_lease_total, secondary_nics] r"

definition serve_metrics :: "(collector \<Rightarrow> 'r \<Rightarrow> 'r option) \<Rightarrow> string \<Rightarrow> run \<Rightarrow> dhcp_server \<Rightarrow> 'r \<Rightarrow> 'r option" where
  "serve_metrics reg addr e s r =
     (if addr = [] then Some r
      else (case register_metrics reg r of
              None \<Rightarrow> None
            | Some r' \<Rightarrow> must_register reg (map gauge_collector (pool_gauges (pool_available s) (active_lease_count e s))) r'))"

text \<open>What Prometheus promises: a name is refused only when it is taken, and registering takes just that name.\<close>

definition registry_ok :: "(collector \<Rightarrow> 'r \<Rightarrow> 'r option) \<Rightarrow> ('r \<Rightarrow> string set) \<Rightarrow> bool" where
  "registry_ok reg names \<longleftrightarrow> (\<forall>m r. mc_name m \<notin> names r \<longrightarrow>
     (\<exists>r'. reg m r = Some r' \<and> names r' = insert (mc_name m) (names r)))"

lemma must_register_fresh:
  assumes ok: "registry_ok reg names"
  shows "distinct (map mc_name ms) \<Longrightarrow> names r \<inter> mc_name ` set ms = {} \<Longrightarrow>
    \<exists>r'. must_register reg ms r = Some r' \<and> names r' = names r \<union> mc_name ` set ms"
proof (induction ms arbitrary: r)
  case (Cons m ms)
  have "mc_name m \<notin> names r" using Cons.prems(2) by auto
  then obtain r1 where r1: "reg m r = Some r1" "names r1 = insert (mc_name m) (names r)"
    using ok unfolding registry_ok_def by blast
  have "names r1 \<inter> mc_name ` set ms = {}" using r1(2) Cons.prems by auto
  from Cons.IH [OF _ this] Cons.prems(1)
  obtain r' where "must_register reg ms r1 = Some r'" "names r' = names r1 \<union> mc_name ` set ms" by auto
  with r1 have "must_register reg (m # ms) r = Some r'" "names r' = names r \<union> mc_name ` set (m # ms)" by simp_all
  then show ?case by blast
qed simp

text \<open>The metrics never fail the daemon: their names are distinct, so no registration panics in a process that has registered none of them.\<close>

lemma serve_metrics_total:
  assumes ok: "registry_ok reg names" and fresh: "\<forall>n. metric_name n \<notin> names r"
  shows "\<exists>r'. serve_metrics reg addr e s r = Some r'"
proof -
  let ?gs = "map gauge_collector (pool_gauges (pool_available s) (active_lease_count e s))"
  have n: "mc_name ` set ?gs = {metric_name ''dhcp_pool_available'', metric_name ''dhcp_lease_active'' }"
    "distinct (map mc_name ?gs)"
    "distinct (map mc_name [dhcp_lease_total, secondary_nics])"
    "metric_name ''dhcp_pool_available'' \<notin> mc_name ` set [dhcp_lease_total, secondary_nics]"
    "metric_name ''dhcp_lease_active'' \<notin> mc_name ` set [dhcp_lease_total, secondary_nics]"
    by (simp_all add: pool_gauges_def gauge_collector_def dhcp_lease_total_def secondary_nics_def metric_name_def)
  obtain r1 where r1: "register_metrics reg r = Some r1" "names r1 = names r \<union> mc_name ` set [dhcp_lease_total, secondary_nics]"
    using must_register_fresh [OF ok n(3), of r] fresh
    by (auto simp: register_metrics_def dhcp_lease_total_def secondary_nics_def)
  have "metric_name ''dhcp_pool_available'' \<notin> names r1" "metric_name ''dhcp_lease_active'' \<notin> names r1"
    using fresh n(4,5) r1(2) by simp_all
  then have "names r1 \<inter> mc_name ` set ?gs = {}" unfolding n(1) by simp
  from must_register_fresh [OF ok n(2) this] r1(1) show ?thesis by (auto simp: serve_metrics_def)
qed

text \<open>A scrape of the daemon's metrics; an empty address disables them.\<close>

definition scrape_pool :: "string \<Rightarrow> run \<Rightarrow> dhcp_server \<Rightarrow> gauge list" where
  "scrape_pool addr e s = (if addr = [] then [] else pool_gauges (pool_available s) (active_lease_count e s))"

end
