(* ===== verification/Spec2Isabelle.thy ===== *)
theory Spec2Isabelle
  imports Dhcp_Safety Dhcp_Routes Dhcp_Persist Dhcp_Durable Dhcp_Reclaim Dhcp_Service Dhcp_Control Platform_IP Pool_State
    Gke_Props Volcengine_Props Node_Props Node_Files Cmd_Props Cmd_Adopt Cmd_Daemon Cmd_Serve Cmd_Pid Cmd_Root
begin

text \<open>
  A verification development for cocoon-net, the per-node network daemon of cocoon VM hosts.

  \<^bold>\<open>The program.\<close> \<open>init\<close> provisions addresses in the cloud (an alias IP range on GKE, elastic network
  interfaces on Volcengine), records them in \<open>pool.json\<close> and configures the node; \<open>adopt\<close> records addresses
  that exist already; \<open>daemon\<close> configures the node again and serves DHCP from the recorded pool on the
  bridge \<open>cni0\<close>, with one host route per lease; \<open>status\<close> and \<open>teardown\<close> read the same state file. The parts
  meet in that file, in the lease file, in the PID file and in the two records the drivers exchange with
  the commands (\<open>net_config\<close>, \<open>net_result\<close>).

  \<^bold>\<open>Conventions.\<close> Go structs are records, errors are the values \<open>Inl\<close> of \<open>error + 'a\<close> (\<open>Go_Error\<close>), a
  panic is \<open>None\<close> in \<open>dhcp/\<close> and an error of its own elsewhere. Everything outside the process is an
  argument. In \<open>dhcp/\<close> it is a \<open>run\<close> record, which gives the clock readings, the order in which each range
  walks its map, and the outcome of each system call; the calls themselves are appended to a trace. In
  the other packages it is a \<open>driver\<close> (\<open>Host\<close>): a record of functions on an unknown state, one per call to
  gcloud, ve, HTTP, netlink, go-iptables, the clock and the process table. What the code relies on of
  these services is a named hypothesis (\<open>gce_ok\<close>, \<open>ve_ok\<close>, \<open>ipt_ok\<close>, \<open>takeover_ok\<close>), and each property with
  such a hypothesis has a witness that runs it against a concrete service. Log lines, and the operands
  printed in error texts, are left out.

  \<^bold>\<open>Theories and sources.\<close>

  \<^item> \<open>Prelude\<close>, \<open>Go_Net\<close>, \<open>Go_Addr\<close>, \<open>Go_Prefix\<close>, \<open>Go_Text\<close>, \<open>Go_Json\<close>, \<open>Go_Time\<close>, \<open>Go_Error\<close>: the parts of Go's
    standard library the program computes with, with their round trips.
  \<^item> \<open>Os_File\<close> (\<open>utils/file.go\<close>): the file system, \<open>WriteFileAtomic\<close> and its crash points; \<open>Host\<close>: the host,
    the driver and the sequencing of fallible calls.
  \<^item> \<open>Ip_Pool\<close>, \<open>Pending_Offers\<close>, \<open>Lease_Store\<close>, \<open>Lease_File\<close> (\<open>dhcp/pool.go\<close>, \<open>offer.go\<close>, \<open>lease.go\<close>): the three
    tables, each with its invariant and the interface the server uses (the locales \<open>address_pool\<close>,
    \<open>expiring_table\<close>, \<open>atomic_file\<close>).
  \<^item> \<open>Dhcp_Server\<close> (\<open>dhcp/server.go\<close>, \<open>discover.go\<close>, \<open>request.go\<close>, \<open>release.go\<close>, \<open>cleanup.go\<close>, \<open>reply.go\<close>,
    \<open>route_linux.go\<close>, \<open>control.go\<close>): one definition per handler, each a transaction under the lifecycle mutex.
    \<open>Dhcp_Control\<close>: the control socket, the routing of its requests and the end of \<open>Run\<close>.
  \<^item> \<open>Dhcp_Owner\<close>, \<open>Dhcp_Handlers\<close>, \<open>Dhcp_Lifecycle\<close>: ownership of addresses and its preservation, handler by
    handler. \<open>Dhcp_Machine\<close>: the server as a step relation over waiting packets, ticks and control requests,
    and the abstract allocator it refines. \<open>Dhcp_Run\<close>: \<open>Run\<close> from its first to its last statement, with the receive
    loop as a function of the inputs that arrive; each sequence of inputs is a path of the step relation.
    \<open>Dhcp_Safety\<close>, \<open>Dhcp_Service\<close>, \<open>Dhcp_Reclaim\<close>, \<open>Dhcp_Routes\<close>, \<open>Dhcp_Persist\<close>, \<open>Dhcp_Durable\<close>: the properties;
    \<open>Dhcp_Example\<close>: a concrete server for the witnesses.
  \<^item> \<open>Platform\<close>, \<open>Platform_IP\<close> (\<open>platform/\<close>), \<open>Gke\<close> (\<open>platform/gke/\<close>), \<open>Volcengine\<close> (\<open>platform/volcengine/\<close>): the
    cloud drivers; the interface \<open>CloudPlatform\<close> is the locale \<open>cloud_driver\<close>, interpreted on both.
  \<^item> \<open>Pool_State\<close> (\<open>pool/pool.go\<close>): the state file.
  \<^item> \<open>Node\<close>, \<open>Node_Props\<close>, \<open>Node_Files\<close> (\<open>node/\<close>): links, bridge, kernel parameters, iptables, CNI configuration.
  \<^item> \<open>Cmd\<close>, \<open>Cmd_Props\<close>, \<open>Cmd_Adopt\<close>, \<open>Cmd_Daemon\<close> (\<open>cmd/\<close>): the commands, as compositions of the above. \<open>Cmd_Serve\<close>:
    the daemon with the server's \<open>Run\<close> inside. \<open>Cmd_Pid\<close>: the PID file with the system calls of several
    processes interleaved. \<open>Cmd_Root\<close> (\<open>cmd/root.go\<close>, \<open>metrics/\<close>, \<open>version/\<close>, \<open>main.go\<close>): flags, dispatch, exit
    status and metrics.

  \<^bold>\<open>What is shown.\<close> C1 to C5 (\<open>Dhcp_Safety\<close>) hold of every reachable state of the server: exclusive
  addresses, a conserved pool, no panic, refinement of the allocator, isolation of clients. C6 to C15
  say what a client gets and how addresses come back (\<open>Dhcp_Service\<close>, \<open>Dhcp_Reclaim\<close>), among them C9
  (\<open>Dhcp_Durable\<close>): an acknowledged lease survives a crash at any point. C16 to C20 cover restarts, crashes
  and routes (\<open>Dhcp_Persist\<close>, \<open>Dhcp_Routes\<close>), C21 to C23 the arithmetic of subnets, C26 the state file, C28 to
  C32 the drivers, C33 to C37 the node, and C24, C25, C27 and C38 to C40 the commands: the daemon from
  the state file to the last lease file, one of several daemons starts, \<open>adopt\<close> records what the cloud
  serves, \<open>init\<close> loses no interface, \<open>teardown\<close> forgets last, the PID file keeps others out. Proofs
  are by computation induction on the loops, by rule induction on the steps, and by frames: \<open>only_client\<close>
  for the tables, \<open>files_within\<close> and \<open>keeps\<close> for the host.

  \<^bold>\<open>Bounds.\<close> The JSON parser recurses on fuel, twice the length of the text, which the round trip shows to
  be enough. The search for a Volcengine subnet takes a bound \<open>pages\<close>; C32 shows that one more page than
  the account's subnets fill is enough. The loop over a subnet's hosts and the retry of the PID file are
  total.

  \<^bold>\<open>Not modelled.\<close> The UDP and Unix sockets beyond the outcomes of opening them, the transport of the HTTP
  servers and their shutdown, Prometheus' registry and cobra's parsing of a command line (arguments),
  signal handling and the set-up of the log: they only hand over to third-party code. The handlers'
  goroutines are transactions under the lifecycle mutex; the scrape of the metrics, which takes the
  tables' own mutexes, is not interleaved with them. The stubs for systems other than Linux, which
  return one error.
\<close>

end
